(* ===== verification/Prelude.thy ===== *)
theory Prelude
  imports Complex_Main "HOL-Library.Word"
begin

text \<open>
  Shared vocabulary of the development.

  The Rust code returns \<^verbatim>\<open>Result<T, E>\<close>, may panic (\<^verbatim>\<open>assert!\<close>, \<^verbatim>\<open>unwrap\<close>,
  \<^verbatim>\<open>unreachable!\<close>, an index out of bounds) and mutates \<^verbatim>\<open>&mut self\<close>. A value of type
  \<open>('e, 'a) outcome\<close> is what a call comes back with: \<open>Ok\<close>, \<open>Err\<close> or \<open>Panic\<close>. An
  \<open>('s, 'e, 'a) action\<close> is a call that may also change a state, and the state is passed on
  after an error and after a panic too, since an unwinding Rust program keeps the mutations it
  made (and poisons the locks it held).
\<close>

section \<open>Machine integers\<close>

type_synonym u8 = "8 word"
type_synonym u16 = "16 word"
type_synonym u64 = "64 word"

text \<open>
  \<^verbatim>\<open>usize\<close> values of the code are lengths, counts and indices. They are natural numbers here;
  where a computation could leave the 64-bit range the overflow is written out.
\<close>

type_synonym usize = nat

section \<open>Outcomes\<close>

datatype ('e, 'a) outcome = Ok 'a | Err 'e | Panic string

named_theorems outcome_elims

fun obind :: "('e, 'a) outcome \<Rightarrow> ('a \<Rightarrow> ('e, 'b) outcome) \<Rightarrow> ('e, 'b) outcome" where
  "obind (Ok a) f = f a"
| "obind (Err e) f = Err e"
| "obind (Panic p) f = Panic p"

fun omap :: "('a \<Rightarrow> 'b) \<Rightarrow> ('e, 'a) outcome \<Rightarrow> ('e, 'b) outcome" where
  "omap f (Ok a) = Ok (f a)"
| "omap f (Err e) = Err e"
| "omap f (Panic p) = Panic p"

fun omap_err :: "('e \<Rightarrow> 'f) \<Rightarrow> ('e, 'a) outcome \<Rightarrow> ('f, 'a) outcome" where
  "omap_err f (Ok a) = Ok a"
| "omap_err f (Err e) = Err (f e)"
| "omap_err f (Panic p) = Panic p"

fun omapM :: "('a \<Rightarrow> ('e, 'b) outcome) \<Rightarrow> 'a list \<Rightarrow> ('e, 'b list) outcome" where
  "omapM f [] = Ok []"
| "omapM f (x # xs) = obind (f x) (\<lambda>y. obind (omapM f xs) (\<lambda>ys. Ok (y # ys)))"

fun ok_or :: "'e \<Rightarrow> 'a option \<Rightarrow> ('e, 'a) outcome" where
  "ok_or e None = Err e"
| "ok_or e (Some a) = Ok a"

fun is_Panic :: "('e, 'a) outcome \<Rightarrow> bool" where
  "is_Panic (Panic p) = True"
| "is_Panic _ = False"

fun is_Ok :: "('e, 'a) outcome \<Rightarrow> bool" where
  "is_Ok (Ok a) = True"
| "is_Ok _ = False"

lemma obind_Ok_iff: "obind m f = Ok b \<longleftrightarrow> (\<exists>a. m = Ok a \<and> f a = Ok b)"
  by (cases m) auto

lemma obind_OkE [outcome_elims]:
  assumes "obind m f = Ok b" obtains a where "m = Ok a" "f a = Ok b"
  using assms by (cases m) auto

lemma obind_Err_iff: "obind m f = Err e \<longleftrightarrow> m = Err e \<or> (\<exists>a. m = Ok a \<and> f a = Err e)"
  by (cases m) auto

lemma is_Ok_iff: "is_Ok m \<longleftrightarrow> (\<exists>a. m = Ok a)"
  by (cases m) auto

lemma is_Panic_obind [simp]:
  "is_Panic (obind m f) \<longleftrightarrow> is_Panic m \<or> (\<exists>a. m = Ok a \<and> is_Panic (f a))"
  by (cases m) auto

lemma is_Panic_omap [simp]: "is_Panic (omap f m) \<longleftrightarrow> is_Panic m"
  by (cases m) auto

lemma omap_Ok_iff [simp]: "omap f m = Ok b \<longleftrightarrow> (\<exists>a. m = Ok a \<and> b = f a)"
  by (cases m) auto

lemma omap_err_Ok_iff [simp]: "omap_err f m = Ok a \<longleftrightarrow> m = Ok a"
  by (cases m) auto

lemma ok_or_Ok_iff [simp]: "ok_or e x = Ok a \<longleftrightarrow> x = Some a"
  by (cases x) auto

lemma omapM_Ok:
  "(\<And>x. x \<in> set xs \<Longrightarrow> f x = Ok (g x)) \<Longrightarrow> omapM f xs = Ok (map g xs)"
  by (induction xs) auto

lemma omapM_Ok_length: "omapM f xs = Ok ys \<Longrightarrow> length ys = length xs"
  by (induction xs arbitrary: ys) (auto simp: obind_Ok_iff)

lemma omapM_Ok_set: "omapM f xs = Ok ys \<Longrightarrow> y \<in> set ys \<Longrightarrow> \<exists>x \<in> set xs. f x = Ok y"
  by (induction xs arbitrary: ys) (auto simp: obind_Ok_iff)

section \<open>Actions\<close>

type_synonym ('s, 'e, 'a) action = "'s \<Rightarrow> ('e, 'a) outcome \<times> 's"

definition ret :: "'a \<Rightarrow> ('s, 'e, 'a) action" where
  "ret a s = (Ok a, s)"

definition throw :: "'e \<Rightarrow> ('s, 'e, 'a) action" where
  "throw e s = (Err e, s)"

definition panic :: "string \<Rightarrow> ('s, 'e, 'a) action" where
  "panic p s = (Panic p, s)"

definition lift :: "('e, 'a) outcome \<Rightarrow> ('s, 'e, 'a) action" where
  "lift r s = (r, s)"

definition get_st :: "('s, 'e, 's) action" where
  "get_st s = (Ok s, s)"

definition put_st :: "'s \<Rightarrow> ('s, 'e, unit) action" where
  "put_st s' s = (Ok (), s')"

definition assert_that :: "bool \<Rightarrow> string \<Rightarrow> ('s, 'e, unit) action" where
  "assert_that b msg s = (if b then Ok () else Panic msg, s)"

definition abind :: "('s, 'e, 'a) action \<Rightarrow> ('a \<Rightarrow> ('s, 'e, 'b) action) \<Rightarrow> ('s, 'e, 'b) action" where
  "abind m f s = (case m s of
       (Ok a, s') \<Rightarrow> f a s'
     | (Err e, s') \<Rightarrow> (Err e, s')
     | (Panic p, s') \<Rightarrow> (Panic p, s'))"

lemmas action_defs = ret_def throw_def panic_def lift_def get_st_def put_st_def assert_that_def

lemma abind_simps:
  "m s = (Ok a, s') \<Longrightarrow> abind m f s = f a s'"
  "m s = (Err e, s') \<Longrightarrow> abind m f s = (Err e, s')"
  "m s = (Panic p, s') \<Longrightarrow> abind m f s = (Panic p, s')"
  by (simp_all add: abind_def)

lemma abind_ret [simp]: "abind (ret a) f s = f a s"
  by (simp add: abind_def ret_def)

lemma abind_throw [simp]: "abind (throw e) f s = (Err e, s)"
  by (simp add: abind_def throw_def)

lemma abind_panic [simp]: "abind (panic p) f s = (Panic p, s)"
  by (simp add: abind_def panic_def)

lemma abind_get_st [simp]: "abind get_st f s = f s s"
  by (simp add: abind_def get_st_def)

lemma abind_put_st [simp]: "abind (put_st s') f s = f () s'"
  by (simp add: abind_def put_st_def)

lemma abind_assert: "abind (assert_that b msg) f s = (if b then f () s else (Panic msg, s))"
  by (simp add: abind_def assert_that_def)

lemma abind_lift: "abind (lift r) f s =
    (case r of Ok a \<Rightarrow> f a s | Err e \<Rightarrow> (Err e, s) | Panic p \<Rightarrow> (Panic p, s))"
  by (simp add: abind_def lift_def)

lemma abind_OkE [outcome_elims]:
  assumes "abind m f s = (Ok b, s')"
  obtains a s1 where "m s = (Ok a, s1)" "f a s1 = (Ok b, s')"
  using assms by (auto simp: abind_def split: prod.splits outcome.splits)

lemma abind_cases:
  assumes "abind m f s = (r, s')"
  obtains (Ok) a s1 where "m s = (Ok a, s1)" "f a s1 = (r, s')"
  | (Err) e where "m s = (Err e, s')" "r = Err e"
  | (Panic) p where "m s = (Panic p, s')" "r = Panic p"
  using assms by (auto simp: abind_def split: prod.splits outcome.splits)

text \<open>An action keeps a predicate of the state whatever it returns.\<close>

definition keeps :: "('s \<Rightarrow> bool) \<Rightarrow> ('s, 'e, 'a) action \<Rightarrow> bool" where
  "keeps I m \<longleftrightarrow> (\<forall>s. I s \<longrightarrow> I (snd (m s)))"

lemma keepsI: "(\<And>s. I s \<Longrightarrow> I (snd (m s))) \<Longrightarrow> keeps I m"
  by (simp add: keeps_def)

lemma keepsD: "keeps I m \<Longrightarrow> I s \<Longrightarrow> m s = (r, s') \<Longrightarrow> I s'"
  by (metis keeps_def snd_conv)

lemma keeps_basic [intro, simp]:
  "keeps I (ret a)" "keeps I (throw e)" "keeps I (panic p)" "keeps I (lift r)"
  "keeps I get_st" "keeps I (assert_that b msg)"
  by (simp_all add: keeps_def action_defs)

lemma keeps_abind [intro]:
  "keeps I m \<Longrightarrow> (\<And>a. keeps I (f a)) \<Longrightarrow> keeps I (abind m f)"
  by (auto simp: keeps_def abind_def split: prod.splits outcome.splits)

section \<open>Integer arithmetic with and without overflow checks\<close>

text \<open>
  A debug build of the crates compiles \<^verbatim>\<open>a + b\<close> with an overflow check that panics, a
  release build lets it wrap. \<open>dbg\<close> says which build is modelled.
\<close>

definition add_u16 :: "bool \<Rightarrow> u16 \<Rightarrow> u16 \<Rightarrow> ('e, u16) outcome" where
  "add_u16 dbg a b =
     (if dbg \<and> unat a + unat b \<ge> 65536 then Panic ''attempt to add with overflow'' else Ok (a + b))"

definition sub_usize :: "bool \<Rightarrow> usize \<Rightarrow> usize \<Rightarrow> ('e, usize) outcome" where
  "sub_usize dbg a b =
     (if b \<le> a then Ok (a - b)
      else if dbg then Panic ''attempt to subtract with overflow''
      else Ok (2 ^ 64 + a - b))"

lemma sub_usize_Ok [simp]: "b \<le> a \<Longrightarrow> sub_usize dbg a b = Ok (a - b)"
  by (simp add: sub_usize_def)

section \<open>Lists\<close>

lemma find_append: "find P (xs @ ys) = (case find P xs of None \<Rightarrow> find P ys | Some x \<Rightarrow> Some x)"
  by (induction xs) auto

lemma filter_list_update_length:
  assumes "i < length xs"
  shows "length (filter P (xs[i := x])) + (if P (xs ! i) then 1 else 0) =
         length (filter P xs) + (if P x then 1 else 0)"
  using assms
proof (induction xs arbitrary: i)
  case (Cons y ys)
  then show ?case by (cases i) auto
qed simp

lemma distinct_subset_lengthD:
  assumes "distinct xs" "set xs \<subseteq> {..<n::nat}" shows "length xs \<le> n"
  using assms by (metis card_lessThan card_mono distinct_card finite_lessThan)

end
