(* ===== verification/HandleMapCorrect.thy ===== *)
theory HandleMapCorrect
  imports HandleMap
begin

text \<open>
  Correctness of the handle map: the invariant, that the validity check of debug builds accepts
  exactly the maps with a well-formed free list, the outcome of every operation on maps that
  satisfy the invariant, and the finite-map contract that the operations implement.
\<close>

section \<open>The invariant\<close>

fun chain :: "'a Entry list \<Rightarrow> u16 \<Rightarrow> nat list \<Rightarrow> bool" where
  "chain es nxt [] = False"
| "chain es nxt (i # is) =
     (i = unat nxt \<and> i < length es \<and>
      (case entry_state (es ! i) of
         Active _ \<Rightarrow> False
       | EndOfFreeList \<Rightarrow> is = []
       | InFreeList j \<Rightarrow> chain es j is))"

definition occ_count :: "'a Entry list \<Rightarrow> nat" where
  "occ_count es = length (filter (\<lambda>e. is_occupied (entry_state e)) es)"

definition free_list_ok :: "'a HandleMap \<Rightarrow> nat list \<Rightarrow> bool" where
  "free_list_ok m fl \<longleftrightarrow> chain (entries m) (first_free m) fl \<and> distinct fl \<and>
     set fl = {i. i < length (entries m) \<and> \<not> is_occupied (entry_state (entries m ! i))} \<and>
     num_entries m = occ_count (entries m) \<and> length (entries m) \<le> MAX_CAPACITY"

definition entry_ok :: "'a Entry \<Rightarrow> bool" where
  "entry_ok e \<longleftrightarrow> entry_version e \<noteq> 0 \<and>
     (is_occupied (entry_state e) \<longleftrightarrow> even (unat (entry_version e)))"

definition hm_inv :: "'a HandleMap \<Rightarrow> bool" where
  "hm_inv m \<longleftrightarrow> (\<exists>fl. free_list_ok m fl) \<and> MIN_CAPACITY \<le> length (entries m) \<and>
     list_all entry_ok (entries m)"

lemma is_occupied_simps [simp]:
  "is_occupied (Active v)" "\<not> is_occupied (InFreeList j)" "\<not> is_occupied EndOfFreeList"
  by (simp_all add: is_occupied_def)

lemma chain_update_other [simp]:
  "i \<notin> set fl \<Longrightarrow> chain (es[i := e]) nxt fl = chain es nxt fl"
  by (induction fl arbitrary: nxt) (auto simp: split: EntryState.splits)

lemma chain_append: "chain es nxt fl \<Longrightarrow> chain (es @ es') nxt fl"
  by (induction fl arbitrary: nxt) (auto simp: nth_append split: EntryState.splits)

lemma chain_nonempty: "chain es nxt fl \<Longrightarrow> fl \<noteq> [] \<and> hd fl = unat nxt"
  by (cases fl) auto

lemma chain_bound: "chain es nxt fl \<Longrightarrow> i \<in> set fl \<Longrightarrow> i < length es"
  by (induction fl arbitrary: nxt) (auto split: EntryState.splits)

lemma occ_count_append [simp]: "occ_count (es @ es') = occ_count es + occ_count es'"
  by (simp add: occ_count_def)

lemma occ_count_simps [simp]:
  "occ_count [] = 0"
  "occ_count (e # es) = (if is_occupied (entry_state e) then 1 else 0) + occ_count es"
  by (simp_all add: occ_count_def)

lemma occ_count_free: "card {i. i < length es \<and> \<not> is_occupied (entry_state (es ! i))} + occ_count es = length es"
proof -
  have "card {i. i < length es \<and> \<not> is_occupied (entry_state (es ! i))} =
        length (filter (\<lambda>e. \<not> is_occupied (entry_state e)) es)"
    by (simp add: length_filter_conv_card)
  then show ?thesis
    using sum_length_filter_compl [of "\<lambda>e. is_occupied (entry_state e)" es] by (simp add: occ_count_def)
qed

lemma free_list_length:
  "free_list_ok m fl \<Longrightarrow> length fl + num_entries m = length (entries m)"
  unfolding free_list_ok_def using occ_count_free [of "entries m"] by (metis distinct_card)

lemma occ_count_update:
  "i < length es \<Longrightarrow> occ_count (es[i := e]) + (if is_occupied (entry_state (es ! i)) then 1 else 0)
     = occ_count es + (if is_occupied (entry_state e) then 1 else 0)"
  unfolding occ_count_def by (rule filter_list_update_length)

lemma hm_inv_len_less: "hm_inv m \<Longrightarrow> num_entries m < length (entries m)"
  unfolding hm_inv_def
  by (metis chain_nonempty free_list_length free_list_ok_def length_greater_0_conv less_add_same_cancel2)

lemma unat_of_nat16 [simp]: "n \<le> 65535 \<Longrightarrow> unat (of_nat n :: u16) = n"
  by (simp add: unat_of_nat)

section \<open>Construction\<close>

definition fresh_entries :: "nat \<Rightarrow> 'a Entry list" where
  "fresh_entries n = map (\<lambda>i. \<lparr>entry_version = 1, entry_state = InFreeList (of_nat (i + 1))\<rparr>) [0..<n]
     @ [\<lparr>entry_version = 1, entry_state = EndOfFreeList\<rparr>]"

lemma fresh_entries_nth:
  "i \<le> n \<Longrightarrow> fresh_entries n ! i =
     \<lparr>entry_version = 1, entry_state = (if i < n then InFreeList (of_nat (Suc i)) else EndOfFreeList)\<rparr>"
  by (auto simp: fresh_entries_def nth_append)

lemma length_fresh_entries [simp]: "length (fresh_entries n) = Suc n"
  by (simp add: fresh_entries_def)

lemma chain_fresh:
  "k \<le> n \<Longrightarrow> n \<le> 65535 \<Longrightarrow> chain (fresh_entries n :: 'a Entry list) (of_nat k) [k..<Suc n]"
proof (induction "n - k" arbitrary: k)
  case 0
  then show ?case by (simp add: fresh_entries_nth)
next
  case (Suc d)
  then have "k < n" and "d = n - Suc k" by simp_all
  have "chain (fresh_entries n :: 'a Entry list) (of_nat (Suc k)) [Suc k..<Suc n]"
    by (rule Suc.hyps(1) [OF \<open>d = n - Suc k\<close>]) (use Suc.prems \<open>k < n\<close> in simp_all)
  moreover have "[k..<Suc n] = k # [Suc k..<Suc n]"
    using \<open>k < n\<close> by (simp add: upt_conv_Cons)
  ultimately show ?case using \<open>k < n\<close> Suc.prems by (simp add: fresh_entries_nth)
qed

lemma occ_count_fresh [simp]: "occ_count (fresh_entries n) = 0"
proof -
  have "\<forall>e \<in> set (fresh_entries n). \<not> is_occupied (entry_state e)" by (auto simp: fresh_entries_def)
  then show ?thesis unfolding occ_count_def by (metis filter_False list.size(3))
qed

lemma new_with_capacity_eq:
  assumes "request \<le> MAX_CAPACITY"
  shows "(new_with_capacity request :: (u64, HandleError, 'a HandleMap) action) c = (Ok \<lparr>hm_id = ucast (c + 1), first_free = 0, num_entries = 0,
      entries = fresh_entries (max request MIN_CAPACITY - 1)\<rparr>, c + 1)"
proof -
  have "omapM (\<lambda>i. omap (\<lambda>n. \<lparr>entry_version = 1, entry_state = InFreeList n\<rparr> :: 'a Entry) (to_u16 (i + 1)))
          [0..<max request MIN_CAPACITY - 1]
      = (Ok :: _ \<Rightarrow> (HandleError, _) outcome) (map (\<lambda>i. \<lparr>entry_version = 1, entry_state = InFreeList (of_nat (i + 1))\<rparr>)
          [0..<max request MIN_CAPACITY - 1])"
    by (rule omapM_Ok) (use assms in \<open>auto simp: to_u16_def MAX_CAPACITY_def MIN_CAPACITY_def\<close>)
  then show ?thesis
    using assms by (simp add: new_with_capacity_def abind_assert abind_lift abind_def [of next_handle_map_id]
        next_handle_map_id_def fresh_entries_def Let_def ret_def)
qed

lemma hm_inv_fresh:
  assumes "MIN_CAPACITY \<le> Suc n" "Suc n \<le> MAX_CAPACITY"
  shows "hm_inv \<lparr>hm_id = k, first_free = 0, num_entries = 0, entries = fresh_entries n\<rparr>"
proof -
  have "free_list_ok \<lparr>hm_id = k, first_free = 0, num_entries = 0, entries = fresh_entries n\<rparr> [0..<Suc n]"
    using chain_fresh [of 0 n] assms
    by (auto simp: free_list_ok_def fresh_entries_nth MAX_CAPACITY_def)
  moreover have "list_all entry_ok (fresh_entries n)"
    by (auto simp: fresh_entries_def list_all_iff entry_ok_def)
  ultimately show ?thesis using assms by (auto simp: hm_inv_def)
qed

section \<open>Growing\<close>

lemma double_until_1: "c < n \<Longrightarrow> double_until n c = Some n"
  by (subst double_until.simps) simp

lemma double_until_total: "0 < n \<Longrightarrow> \<exists>r. double_until n c = Some r \<and> c < r"
proof (induction "Suc c - n" arbitrary: n rule: less_induct)
  case less
  show ?case
  proof (cases "n \<le> c")
    case True
    then have "\<exists>r. double_until (n * 2) c = Some r \<and> c < r"
      using less by (intro less.hyps) auto
    then show ?thesis using True by (subst double_until.simps) simp
  qed (auto simp: double_until_1)
qed

lemma double_until_self: "0 < c \<Longrightarrow> double_until c c = Some (2 * c)"
  by (subst double_until.simps) (simp add: double_until_1)

lemma free_list_ok_push:
  assumes ok: "free_list_ok m fl" and cap: "Suc (length (entries m)) \<le> MAX_CAPACITY"
  shows "free_list_ok (m\<lparr>entries := entries m @ [\<lparr>entry_version = 1, entry_state = InFreeList (first_free m)\<rparr>],
            first_free := of_nat (length (entries m))\<rparr>) (length (entries m) # fl)"
proof -
  let ?es = "entries m @ [\<lparr>entry_version = 1, entry_state = InFreeList (first_free m)\<rparr>]"
  have set_fl: "set fl = {i. i < length (entries m) \<and> \<not> is_occupied (entry_state (entries m ! i))}"
    using ok by (simp add: free_list_ok_def)
  have "set (length (entries m) # fl) = {i. i < length ?es \<and> \<not> is_occupied (entry_state (?es ! i))}"
    unfolding list.set set_fl by (auto simp: nth_append less_Suc_eq)
  moreover have "distinct (length (entries m) # fl)"
    using ok set_fl by (simp add: free_list_ok_def)
  moreover have "chain ?es (of_nat (length (entries m))) (length (entries m) # fl)"
    using ok cap by (simp add: free_list_ok_def chain_append MAX_CAPACITY_def)
  ultimately show ?thesis
    using ok cap by (simp add: free_list_ok_def)
qed

lemma hm_inv_push:
  assumes "hm_inv m" "Suc (length (entries m)) \<le> MAX_CAPACITY"
  shows "hm_inv (m\<lparr>entries := entries m @ [\<lparr>entry_version = 1, entry_state = InFreeList (first_free m)\<rparr>],
            first_free := of_nat (length (entries m))\<rparr>)"
proof -
  obtain fl where "free_list_ok m fl" using assms(1) by (auto simp: hm_inv_def)
  from free_list_ok_push [OF this assms(2)] show ?thesis
    using assms(1) unfolding hm_inv_def by (auto simp: entry_ok_def)
qed

text \<open>A growth adds free entries behind the old ones and changes nothing else.\<close>

definition grown :: "'a HandleMap \<Rightarrow> 'a HandleMap \<Rightarrow> bool" where
  "grown m m' \<longleftrightarrow> hm_id m' = hm_id m \<and> num_entries m' = num_entries m \<and>
     (\<exists>es. entries m' = entries m @ es \<and>
        (\<forall>e \<in> set es. \<not> is_occupied (entry_state e) \<and> entry_version e = 1))"

lemma grown_refl [simp]: "grown m m"
  by (simp add: grown_def)

lemma grown_trans: "grown m m' \<Longrightarrow> grown m' m'' \<Longrightarrow> grown m m''"
  by (auto simp: grown_def)

declare push_free.simps [simp del]

lemma push_free_ok:
  assumes "hm_inv m" "n \<le> MAX_CAPACITY"
  shows "\<exists>m'. push_free n m = (Ok (), m') \<and> hm_inv m' \<and> grown m m' \<and>
     length (entries m') = max (length (entries m)) (n - 1)"
  using assms
proof (induction "n - 1 - length (entries m)" arbitrary: m rule: less_induct)
  case less
  show ?case
  proof (cases "length (entries m) < n - 1")
    case True
    then have u: "to_u16 (length (entries m)) = Ok (of_nat (length (entries m)))"
      using less.prems by (simp add: to_u16_def MAX_CAPACITY_def)
    let ?m = "m\<lparr>entries := entries m @ [\<lparr>entry_version = 1, entry_state = InFreeList (first_free m)\<rparr>],
            first_free := of_nat (length (entries m))\<rparr>"
    have "hm_inv ?m" using True less.prems by (intro hm_inv_push) auto
    moreover have "n - 1 - length (entries ?m) < n - 1 - length (entries m)" using True by simp
    ultimately obtain m' where "push_free n ?m = (Ok (), m')" "hm_inv m'" "grown ?m m'"
      "length (entries m') = max (Suc (length (entries m))) (n - 1)"
      using less.hyps [of ?m, OF _ _ less.prems(2)] by auto
    moreover have "grown m ?m" by (simp add: grown_def)
    ultimately show ?thesis using True u grown_trans
      by (subst push_free.simps) (auto simp: max_def)
  next
    case False
    then show ?thesis using less.prems by (subst push_free.simps) auto
  qed
qed


section \<open>The debug check accepts exactly the well-formed maps\<close>

declare walk_free.simps [simp del]

definition mark :: "(bool \<times> bool) list \<Rightarrow> nat list \<Rightarrow> (bool \<times> bool) list" where
  "mark fi is = fold (\<lambda>i fi. fi[i := (True, True)]) is fi"

lemma mark_simps [simp]: "mark fi [] = fi" "mark fi (i # is) = mark (fi[i := (True, True)]) is"
  by (simp_all add: mark_def)

lemma length_mark [simp]: "length (mark fi is) = length fi"
  by (induction "is" arbitrary: fi) auto

lemma mark_nth: "i < length fi \<Longrightarrow> mark fi is ! i = (if i \<in> set is then (True, True) else fi ! i)"
proof (induction "is" arbitrary: fi)
  case (Cons j js)
  then show ?case by (cases "i = j") auto
qed simp

lemma walk_free_chain:
  assumes "chain es nxt fl" "distinct fl" "length fi = length es"
    "\<forall>i \<in> set fl. fi ! i = (True, False)"
  shows "walk_free es fi nxt = Ok (mark fi fl)"
  using assms
proof (induction fl arbitrary: fi nxt)
  case (Cons i fl)
  have i: "i = unat nxt" "i < length es" "fi ! i = (True, False)" using Cons.prems by auto
  show ?case
  proof (cases "entry_state (es ! i)")
    case (InFreeList j)
    have "walk_free es (fi[i := (True, True)]) j = Ok (mark (fi[i := (True, True)]) fl)"
    proof (rule Cons.IH)
      show "chain es j fl" using Cons.prems(1) InFreeList by simp
      show "\<forall>k\<in>set fl. fi[i := (True, True)] ! k = (True, False)"
        using Cons.prems(2,4) by (metis distinct.simps(2) list.set_intros(2) nth_list_update_neq)
    qed (use Cons.prems in auto)
    then show ?thesis using i InFreeList Cons.prems(3) by (subst walk_free.simps) simp
  qed (use i Cons.prems in \<open>auto simp: walk_free.simps [of es fi nxt]\<close>)
qed simp

lemma chain_ends: "chain es nxt fl \<Longrightarrow> i \<in> set fl \<Longrightarrow>
    is_end_of_list (entry_state (es ! i)) \<longleftrightarrow> i = last fl"
proof (induction fl arbitrary: nxt i)
  case (Cons j fl)
  show ?case
  proof (cases "entry_state (es ! j)")
    case (InFreeList k)
    then have c: "chain es k fl" using Cons.prems by simp
    then have ne: "fl \<noteq> []" using chain_nonempty by blast
    have "j \<noteq> last fl"
    proof
      assume "j = last fl"
      then have "is_end_of_list (entry_state (es ! j))"
        using Cons.IH [OF c] ne by (metis last_in_set)
      then show False using InFreeList by simp
    qed
    then show ?thesis using Cons InFreeList c ne by auto
  qed (use Cons in auto)
qed simp

lemma card_ends:
  assumes "free_list_ok m fl"
  shows "length (filter (\<lambda>e. is_end_of_list (entry_state e)) (entries m)) = 1"
proof -
  let ?es = "entries m"
  have c: "chain ?es (first_free m) fl" and s: "set fl = {i. i < length ?es \<and> \<not> is_occupied (entry_state (?es ! i))}"
    using assms by (auto simp: free_list_ok_def)
  have ne: "fl \<noteq> []" using chain_nonempty [OF c] by simp
  have "i = last fl" if "i < length ?es" "is_end_of_list (entry_state (?es ! i))" for i
  proof -
    have "i \<in> set fl" using that s by (cases "entry_state (?es ! i)") auto
    then show ?thesis using chain_ends [OF c] that by blast
  qed
  moreover have "last fl < length ?es" "is_end_of_list (entry_state (?es ! last fl))"
    using chain_ends [OF c] chain_bound [OF c] ne by auto
  ultimately have "{i. i < length ?es \<and> is_end_of_list (entry_state (?es ! i))} = {last fl}" by blast
  then show ?thesis by (simp add: length_filter_conv_card)
qed

lemma assert_valid_complete:
  assumes "free_list_ok m fl" shows "assert_valid m = Ok ()"
proof -
  let ?es = "entries m"
  let ?fi = "map (\<lambda>e. (\<not> is_occupied (entry_state e), False)) ?es"
  have c: "chain ?es (first_free m) fl" and d: "distinct fl"
    and s: "set fl = {i. i < length ?es \<and> \<not> is_occupied (entry_state (?es ! i))}"
    using assms by (auto simp: free_list_ok_def)
  have w: "walk_free ?es ?fi (first_free m) = Ok (mark ?fi fl)"
    by (rule walk_free_chain [OF c d]) (auto simp: s)
  have n: "mark ?fi fl = map (\<lambda>e. (\<not> is_occupied (entry_state e), \<not> is_occupied (entry_state e))) ?es"
    by (rule nth_equalityI) (auto simp: mark_nth s)
  have "length fl > 0" using chain_nonempty [OF c] by simp
  then have "len m \<noteq> capacity m"
    using free_list_length [OF assms] by (cases fl) (simp_all add: len_def capacity_def)
  then show ?thesis
    using assms card_ends [OF assms]
    by (simp add: assert_valid_def w n list_ex_iff free_list_ok_def capacity_def occ_count_def
        filter_map o_def)
qed

lemma walk_free_sound:
  assumes "walk_free es fi nxt = Ok fi'" "length fi = length es"
  shows "\<exists>fl. chain es nxt fl \<and> distinct fl \<and> fi' = mark fi fl \<and> (\<forall>i \<in> set fl. fi ! i = (True, False))"
  using assms
proof (induction es fi nxt rule: walk_free.induct)
  case (1 es fi nxt)
  let ?i = "unat nxt"
  have g: "?i < length fi" "fi ! ?i = (True, False)"
    using "1.prems" by (auto simp: walk_free.simps [of es fi nxt] prod_eq_iff split: if_splits)
  show ?case
  proof (cases "entry_state (es ! ?i)")
    case (Active v)
    then show ?thesis using "1.prems" by (simp add: walk_free.simps [of es fi nxt] split: if_splits)
  next
    case (InFreeList j)
    then have "walk_free es (fi[?i := (True, True)]) j = Ok fi'"
      using "1.prems" g by (simp add: walk_free.simps [of es fi nxt])
    from "1.IH" [OF _ _ _ _ _ InFreeList this] g "1.prems"(2) obtain fl where
      fl: "chain es j fl" "distinct fl" "fi' = mark (fi[?i := (True, True)]) fl"
        "\<forall>i \<in> set fl. fi[?i := (True, True)] ! i = (True, False)" by auto
    then have "?i \<notin> set fl" using g by auto
    then have "\<forall>i \<in> set fl. fi ! i = (True, False)"
      using fl(4) by (metis nth_list_update_neq)
    then show ?thesis using fl g InFreeList "1.prems"(2) \<open>?i \<notin> set fl\<close>
      by (intro exI [of _ "?i # fl"]) auto
  next
    case EndOfFreeList
    then have "fi' = fi[?i := (True, True)]"
      using "1.prems" g by (simp add: walk_free.simps [of es fi nxt])
    then show ?thesis using g EndOfFreeList "1.prems"(2) by (intro exI [of _ "[?i]"]) auto
  qed
qed

lemma assert_valid_sound:
  assumes "assert_valid m = Ok ()" shows "\<exists>fl. free_list_ok m fl"
proof -
  let ?es = "entries m"
  let ?fi = "map (\<lambda>e. (\<not> is_occupied (entry_state e), False)) ?es"
  obtain fi where w: "walk_free ?es ?fi (first_free m) = Ok fi"
    and f: "\<forall>p \<in> set fi. fst p = snd p" and n: "num_entries m = length (filter (\<lambda>p. \<not> fst p) fi)"
    and cap: "length ?es \<le> MAX_CAPACITY"
    using assms by (auto simp: assert_valid_def obind_Ok_iff list_ex_iff capacity_def split: if_splits)
  obtain fl where fl: "chain ?es (first_free m) fl" "distinct fl" "fi = mark ?fi fl"
    "\<forall>i \<in> set fl. ?fi ! i = (True, False)"
    using walk_free_sound [OF w] by auto
  have nth: "fi ! i = (if i \<in> set fl then (True, True) else (\<not> is_occupied (entry_state (?es ! i)), False))"
    if "i < length ?es" for i using that fl(3) by (simp add: mark_nth)
  have s: "i \<in> set fl \<longleftrightarrow> \<not> is_occupied (entry_state (?es ! i))" if i: "i < length ?es" for i
  proof -
    have "fst (fi ! i) = snd (fi ! i)" using f i fl(3) by simp
    then show ?thesis using nth [OF i] fl(4) i by (auto split: if_splits)
  qed
  have "fi = map (\<lambda>e. (\<not> is_occupied (entry_state e), \<not> is_occupied (entry_state e))) ?es"
    by (rule nth_equalityI) (use nth s fl(3) in auto)
  then have "num_entries m = occ_count ?es"
    using n by (simp add: occ_count_def filter_map o_def)
  then show ?thesis
    using fl(1,2) s cap chain_bound [OF fl(1)] unfolding free_list_ok_def by blast
qed

lemma assert_valid_iff: "assert_valid m = Ok () \<longleftrightarrow> (\<exists>fl. free_list_ok m fl)"
  using assert_valid_sound assert_valid_complete by blast

section \<open>Lookup\<close>

text \<open>The finite map that a handle map stands for.\<close>

definition lookup :: "'a HandleMap \<Rightarrow> Handle \<Rightarrow> 'a option" where
  "lookup m h = (case get m h of Ok v \<Rightarrow> Some v | _ \<Rightarrow> None)"

lemma word_mod2_unat: "(w :: u16) mod 2 = 0 \<longleftrightarrow> even (unat w)"
proof -
  have "w mod 2 = 0 \<longleftrightarrow> unat (w mod 2) = 0" by (simp add: unat_eq_0)
  also have "unat (w mod 2) = unat w mod 2" by (simp add: unat_mod)
  finally show ?thesis by (simp add: even_iff_mod_2_eq_zero)
qed

lemma get_item_Some_iff [simp]: "get_item s = Some v \<longleftrightarrow> s = Active v"
  by (cases s) auto

lemma get_item_None_iff [simp]: "get_item s = None \<longleftrightarrow> \<not> is_occupied s"
  by (cases s) auto

lemma hm_inv_entry:
  "hm_inv m \<Longrightarrow> i < length (entries m) \<Longrightarrow> entry_ok (entries m ! i)"
  by (simp add: hm_inv_def list_all_length)

lemma get_Ok_iff:
  assumes "hm_inv m"
  shows "get m h = Ok v \<longleftrightarrow> map_id h = hm_id m \<and> unat (index h) < length (entries m) \<and>
     entry_version (entries m ! unat (index h)) = version h \<and>
     entry_state (entries m ! unat (index h)) = Active v"
proof (cases "map_id h = hm_id m \<and> unat (index h) < length (entries m)")
  case True
  then have "entry_ok (entries m ! unat (index h))" using assms hm_inv_entry by blast
  then show ?thesis using True
    by (cases "entry_state (entries m ! unat (index h))")
      (auto simp: get_def check_handle_def word_mod2_unat entry_ok_def)
qed (auto simp: get_def check_handle_def)

lemma lookup_Some_iff:
  assumes "hm_inv m"
  shows "lookup m h = Some v \<longleftrightarrow> map_id h = hm_id m \<and> unat (index h) < length (entries m) \<and>
     entry_version (entries m ! unat (index h)) = version h \<and>
     entry_state (entries m ! unat (index h)) = Active v"
  using get_Ok_iff [OF assms, of h v] by (auto simp: lookup_def split: outcome.splits)

lemma get_errors:
  assumes "hm_inv m"
  shows "get m h =
     (if map_id h \<noteq> hm_id m then Err WrongMap
      else if unat (index h) \<ge> length (entries m) then Err IndexPastEnd
      else case lookup m h of None \<Rightarrow> Err StaleVersion | Some v \<Rightarrow> Ok v)"
proof (cases "map_id h = hm_id m \<and> unat (index h) < length (entries m)")
  case True
  then have "entry_ok (entries m ! unat (index h))" using assms hm_inv_entry by blast
  then show ?thesis using True
    by (cases "entry_state (entries m ! unat (index h))")
      (auto simp: lookup_def get_def check_handle_def word_mod2_unat entry_ok_def)
qed (auto simp: get_def check_handle_def)

lemma check_handle_lookup:
  assumes "hm_inv m"
  shows "check_handle m h = Ok i \<longleftrightarrow> (\<exists>v. lookup m h = Some v) \<and> i = unat (index h)"
proof (cases "map_id h = hm_id m \<and> unat (index h) < length (entries m)")
  case True
  then have "entry_ok (entries m ! unat (index h))" using assms hm_inv_entry by blast
  then show ?thesis using True
    by (cases "entry_state (entries m ! unat (index h))")
      (auto simp: lookup_def get_def check_handle_def word_mod2_unat entry_ok_def)
qed (auto simp: lookup_def get_def check_handle_def)

lemma check_handle_no_panic: "check_handle m h \<noteq> Panic p"
  by (simp add: check_handle_def)

lemma lookup_grown:
  assumes "hm_inv m" "hm_inv m'" "grown m m'" shows "lookup m' = lookup m"
proof
  fix h
  obtain es where es: "entries m' = entries m @ es" "\<forall>e \<in> set es. \<not> is_occupied (entry_state e)"
    and id: "hm_id m' = hm_id m" using assms(3) by (auto simp: grown_def)
  have "lookup m' h = Some v \<longleftrightarrow> lookup m h = Some v" for v
  proof (cases "unat (index h) < length (entries m)")
    case True
    then show ?thesis
      by (simp add: lookup_Some_iff [OF assms(1)] lookup_Some_iff [OF assms(2)] es id nth_append)
  next
    case False
    have "entry_state (es ! (unat (index h) - length (entries m))) \<noteq> Active v"
      if "unat (index h) < length (entries m')"
    proof -
      have "es ! (unat (index h) - length (entries m)) \<in> set es"
        using that es(1) False by (intro nth_mem) auto
      then show ?thesis using es(2) by fastforce
    qed
    then show ?thesis using False
      by (auto simp: lookup_Some_iff [OF assms(1)] lookup_Some_iff [OF assms(2)] es(1) id nth_append)
  qed
  then show "lookup m' h = lookup m h" by (metis option.exhaust)
qed

section \<open>Insertion\<close>

definition has_room :: "'a HandleMap \<Rightarrow> bool" where
  "has_room m \<longleftrightarrow> len m + 1 < capacity m \<or> capacity m < MAX_CAPACITY - 1"

definition next_version :: "u16 \<Rightarrow> u16" where
  "next_version v = (if v + 1 = 0 then 2 else v + 1)"

lemma hm_inv_first_free:
  assumes "hm_inv m"
  shows "unat (first_free m) < length (entries m)"
    "\<not> is_occupied (entry_state (entries m ! unat (first_free m)))"
proof -
  obtain fl where fl: "free_list_ok m fl" using assms by (auto simp: hm_inv_def)
  then have "unat (first_free m) \<in> set fl"
    using chain_nonempty by (metis free_list_ok_def hd_in_set)
  then show "unat (first_free m) < length (entries m)"
    "\<not> is_occupied (entry_state (entries m ! unat (first_free m)))"
    using fl by (auto simp: free_list_ok_def)
qed

lemma hm_inv_assert_valid: "hm_inv m \<Longrightarrow> assert_valid m = Ok ()"
  using assert_valid_complete by (auto simp: hm_inv_def)

lemma debug_check_ok: "hm_inv m \<Longrightarrow> debug_check_valid dbg m = (Ok (), m)"
  by (simp add: debug_check_valid_def hm_inv_assert_valid)

lemma hm_inv_capacity: "hm_inv m \<Longrightarrow> MIN_CAPACITY \<le> capacity m \<and> capacity m \<le> MAX_CAPACITY"
  by (auto simp: hm_inv_def free_list_ok_def capacity_def)

lemma ensure_capacity_ok:
  assumes "hm_inv m"
  shows "\<exists>m'. ensure_capacity dbg (len m + 1) m = (Ok (), m') \<and> hm_inv m' \<and> grown m m' \<and>
     capacity m' = (if len m + 1 < capacity m then capacity m
                    else max (capacity m) (min (2 * capacity m) MAX_CAPACITY - 1))"
proof -
  have l: "len m < capacity m" using hm_inv_len_less [OF assms] by (simp add: len_def capacity_def)
  have cap: "0 < capacity m" "capacity m \<le> MAX_CAPACITY"
    using hm_inv_capacity [OF assms] by (auto simp: MIN_CAPACITY_def)
  show ?thesis
  proof (cases "len m + 1 < capacity m")
    case True
    then have "ensure_capacity dbg (len m + 1) m = (Ok (), m)"
      using l cap by (simp add: ensure_capacity_def abind_assert ret_def)
    then show ?thesis using True assms by simp
  next
    case False
    then have e: "len m + 1 = capacity m" using l by simp
    obtain m' where m': "push_free (min (2 * capacity m) MAX_CAPACITY) m = (Ok (), m')" "hm_inv m'"
      "grown m m'" "length (entries m') = max (length (entries m)) (min (2 * capacity m) MAX_CAPACITY - 1)"
      using push_free_ok [OF assms, of "min (2 * capacity m) MAX_CAPACITY"] by auto
    then have "ensure_capacity dbg (len m + 1) m = (Ok (), m')"
      using e l cap hm_inv_first_free [OF assms] debug_check_ok [OF m'(2)]
      by (simp add: ensure_capacity_def abind_assert double_until_self abind_simps(1))
    then show ?thesis using m' False by (simp add: capacity_def)
  qed
qed

lemma has_room_after_ensure:
  assumes "hm_inv m" "ensure_capacity dbg (len m + 1) m = (Ok (), m')"
  shows "len m' + 1 < capacity m' \<longleftrightarrow> has_room m"
proof -
  have "len m < capacity m" using hm_inv_len_less [OF assms(1)] by (simp add: len_def capacity_def)
  moreover have "MIN_CAPACITY \<le> capacity m" "capacity m \<le> MAX_CAPACITY"
    using hm_inv_capacity [OF assms(1)] by auto
  moreover have "len m' = len m" "capacity m' = (if len m + 1 < capacity m then capacity m
                    else max (capacity m) (min (2 * capacity m) MAX_CAPACITY - 1))"
    using ensure_capacity_ok [OF assms(1), of dbg] assms(2) by (auto simp: grown_def len_def)
  ultimately show ?thesis
    by (auto simp: has_room_def MIN_CAPACITY_def MAX_CAPACITY_def min_def max_def split: if_splits)
qed

lemma first_free_state:
  assumes "hm_inv m"
  shows "entry_state (entries m ! unat (first_free m)) = EndOfFreeList \<longleftrightarrow> len m + 1 = capacity m"
proof -
  obtain fl where fl: "free_list_ok m fl" using assms by (auto simp: hm_inv_def)
  then have c: "chain (entries m) (first_free m) fl" by (simp add: free_list_ok_def)
  obtain i fl' where e: "fl = i # fl'" using c by (cases fl) auto
  have "entry_state (entries m ! unat (first_free m)) = EndOfFreeList \<longleftrightarrow> fl' = []"
    using c unfolding e by (auto dest: chain_nonempty split: EntryState.splits)
  moreover have "fl' = [] \<longleftrightarrow> len m + 1 = capacity m"
    using free_list_length [OF fl] unfolding e by (cases fl') (auto simp: len_def capacity_def)
  ultimately show ?thesis by simp
qed

lemma next_version_even: "odd (unat v) \<Longrightarrow> even (unat (next_version v)) \<and> next_version v \<noteq> 0"
proof -
  assume o: "odd (unat v)"
  show ?thesis
  proof (cases "v + 1 = 0")
    case True
    then show ?thesis by (simp add: next_version_def)
  next
    case False
    then have "unat (v + 1) = unat v + 1" by (metis unatSuc Suc_eq_plus1 add.commute)
    then show ?thesis using o False by (simp add: next_version_def)
  qed
qed

lemma hm_inv_occupy:
  assumes inv: "hm_inv m" and st: "entry_state (entries m ! unat (first_free m)) = InFreeList j"
    and v2: "even (unat v2)" "v2 \<noteq> 0"
  shows "hm_inv (m\<lparr>entries := (entries m)[unat (first_free m) := \<lparr>entry_version = v2, entry_state = Active v\<rparr>],
            first_free := j, num_entries := num_entries m + 1\<rparr>)"
proof -
  let ?i = "unat (first_free m)" and ?es = "entries m"
  let ?es' = "?es[?i := \<lparr>entry_version = v2, entry_state = Active v\<rparr>]"
  obtain fl where fl: "free_list_ok m fl" using inv by (auto simp: hm_inv_def)
  have i: "?i < length ?es" using hm_inv_first_free(1) [OF inv] .
  have c: "chain ?es (first_free m) fl" "distinct fl"
    and s: "set fl = {i. i < length ?es \<and> \<not> is_occupied (entry_state (?es ! i))}"
    and n: "num_entries m = occ_count ?es" "length ?es \<le> MAX_CAPACITY"
    using fl by (auto simp: free_list_ok_def)
  obtain fl' where e: "fl = ?i # fl'" using c(1) by (cases fl) auto
  have "chain ?es' j fl'" using c st unfolding e by simp
  moreover have "set fl' = {i. i < length ?es' \<and> \<not> is_occupied (entry_state (?es' ! i))}"
  proof -
    have "set fl' = set fl - {?i}" using c(2) e by auto
    then show ?thesis unfolding s using i by (auto simp: nth_list_update)
  qed
  moreover have "num_entries m + 1 = occ_count ?es'"
    using occ_count_update [OF i, of "\<lparr>entry_version = v2, entry_state = Active v\<rparr>"] st n by simp
  ultimately have "free_list_ok (m\<lparr>entries := ?es', first_free := j, num_entries := num_entries m + 1\<rparr>) fl'"
    using c(2) n unfolding e by (simp add: free_list_ok_def)
  moreover have "list_all entry_ok ?es'"
    using inv v2 set_update_subset_insert [of ?es ?i]
    by (fastforce simp: hm_inv_def list_all_iff entry_ok_def)
  ultimately show ?thesis using inv by (auto simp: hm_inv_def)
qed

lemma hm_inv_release:
  assumes inv: "hm_inv m" and i: "unat k < length (entries m)"
    and occ: "is_occupied (entry_state (entries m ! unat k))"
  shows "hm_inv (m\<lparr>entries := (entries m)[unat k :=
               \<lparr>entry_version = entry_version (entries m ! unat k) + 1, entry_state = InFreeList (first_free m)\<rparr>],
            num_entries := num_entries m - 1, first_free := k\<rparr>)"
    and "1 \<le> num_entries m" and "unat (entry_version (entries m ! unat k)) + 1 < 65536"
proof -
  let ?es = "entries m"
  let ?e = "\<lparr>entry_version = entry_version (?es ! unat k) + 1, entry_state = InFreeList (first_free m)\<rparr>"
  let ?es' = "?es[unat k := ?e]"
  obtain fl where fl: "free_list_ok m fl" using inv by (auto simp: hm_inv_def)
  have c: "chain ?es (first_free m) fl" "distinct fl"
    and s: "set fl = {i. i < length ?es \<and> \<not> is_occupied (entry_state (?es ! i))}"
    and n: "num_entries m = occ_count ?es" "length ?es \<le> MAX_CAPACITY"
    using fl by (auto simp: free_list_ok_def)
  have k: "unat k \<notin> set fl" using s occ by simp
  have u: "occ_count ?es' + 1 = num_entries m"
    using occ_count_update [OF i, of ?e] occ n by simp
  then show "1 \<le> num_entries m" by simp
  have ok: "entry_ok (?es ! unat k)" using hm_inv_entry [OF inv i] .
  have "unat (entry_version (?es ! unat k)) < 65536"
    using unsigned_less [of "entry_version (?es ! unat k)"] by simp
  moreover have "unat (entry_version (?es ! unat k)) \<noteq> 65535" using ok occ by (auto simp: entry_ok_def)
  ultimately show v: "unat (entry_version (?es ! unat k)) + 1 < 65536" by simp
  then have v': "unat (entry_version (?es ! unat k) + 1) = unat (entry_version (?es ! unat k)) + 1"
    by (simp add: unat_word_ariths)
  have "entry_ok ?e" using ok occ v' by (auto simp: entry_ok_def)
  then have "list_all entry_ok ?es'"
    using inv set_update_subset_insert [of ?es "unat k"] by (fastforce simp: hm_inv_def list_all_iff)
  moreover have "set (unat k # fl) = {i. i < length ?es' \<and> \<not> is_occupied (entry_state (?es' ! i))}"
    unfolding list.set s using i by (auto simp: nth_list_update)
  then have "free_list_ok (m\<lparr>entries := ?es', num_entries := num_entries m - 1, first_free := k\<rparr>) (unat k # fl)"
    using c k i n u by (simp add: free_list_ok_def)
  ultimately show "hm_inv (m\<lparr>entries := ?es', num_entries := num_entries m - 1, first_free := k\<rparr>)"
    using inv by (auto simp: hm_inv_def)
qed

text \<open>\<open>add_u16\<close> on the versions that occur.\<close>

lemma add_u16_ok: "(dbg \<longrightarrow> unat a + unat b < 65536) \<Longrightarrow> add_u16 dbg a b = Ok (a + b)"
  by (auto simp: add_u16_def)

lemma version_bump:
  assumes "dbg \<longrightarrow> v \<noteq> 65535"
  shows "add_u16 dbg v 1 = (Ok (v + 1) :: (HandleError, u16) outcome)"
    "(if v + 1 = 0 then add_u16 dbg (v + 1) 2 else Ok (v + 1)) =
       (Ok (next_version v) :: (HandleError, u16) outcome)"
proof -
  have "unat v < 65536" using unsigned_less [of v] by simp
  moreover have "v \<noteq> 65535 \<Longrightarrow> unat v \<noteq> 65535"
    by (simp add: word_unat_eq_iff)
  ultimately have "v \<noteq> 65535 \<Longrightarrow> unat v + 1 < 65536" by fastforce
  then show "add_u16 dbg v 1 = (Ok (v + 1) :: (HandleError, u16) outcome)" using assms by (intro add_u16_ok) auto
  show "(if v + 1 = 0 then add_u16 dbg (v + 1) 2 else Ok (v + 1)) =
      (Ok (next_version v) :: (HandleError, u16) outcome)"
    by (auto simp: next_version_def add_u16_def)
qed

definition no_wrap :: "bool \<Rightarrow> 'a HandleMap \<Rightarrow> bool" where
  "no_wrap dbg m \<longleftrightarrow> (dbg \<longrightarrow> (\<forall>e \<in> set (entries m). entry_version e \<noteq> 65535))"

lemma no_wrap_grown: "no_wrap dbg m \<Longrightarrow> grown m m' \<Longrightarrow> no_wrap dbg m'"
  by (auto simp: no_wrap_def grown_def)

text \<open>The part of \<open>insert_hm\<close> after the growth.\<close>

lemma insert_hm_unfold:
  assumes "hm_inv m" "ensure_capacity dbg (len m + 1) m = (Ok (), m1)" "hm_inv m1"
  shows "insert_hm dbg v m =
    (case entry_state (entries m1 ! unat (first_free m1)) of
       InFreeList j \<Rightarrow>
         (let w = entry_version (entries m1 ! unat (first_free m1));
              m2 = m1\<lparr>entries := (entries m1)[unat (first_free m1) :=
                        \<lparr>entry_version = next_version w, entry_state = Active v\<rparr>],
                     first_free := j, num_entries := num_entries m1 + 1\<rparr>
          in if dbg \<and> w = 65535 then (Panic ''attempt to add with overflow'', m1)
             else (Ok \<lparr>map_id = hm_id m1, version = next_version w, index = first_free m1\<rparr>, m2))
     | _ \<Rightarrow> (Panic ''Bug: next_index pointed at non-free list entry (or end of list)'', m1))"
proof (cases "entry_state (entries m1 ! unat (first_free m1))")
  case (InFreeList j)
  let ?w = "entry_version (entries m1 ! unat (first_free m1))"
  have i: "unat (first_free m1) < length (entries m1)" using hm_inv_first_free(1) [OF assms(3)] .
  have "entry_ok (entries m1 ! unat (first_free m1))" using hm_inv_entry [OF assms(3) i] .
  then have v2: "even (unat (next_version ?w))" "next_version ?w \<noteq> 0"
    using next_version_even InFreeList by (auto simp: entry_ok_def)
  show ?thesis
  proof (cases "dbg \<and> ?w = 65535")
    case True
    then show ?thesis using assms(2) InFreeList i
      by (simp add: insert_hm_def abind_simps(1) abind_assert abind_lift add_u16_def Let_def)
  next
    case False
    then show ?thesis
      using assms(2) InFreeList i version_bump [of dbg ?w]
        debug_check_ok [OF hm_inv_occupy [OF assms(3) InFreeList v2, of v], of dbg]
      by (simp add: insert_hm_def abind_simps(1) abind_assert abind_lift Let_def ret_def)
  qed
qed (use assms(2) hm_inv_first_free(1) [OF assms(3)] in
      \<open>simp_all add: insert_hm_def abind_simps(1) abind_assert panic_def Let_def\<close>)

lemma lookup_occupy:
  assumes inv: "hm_inv m" and st: "entry_state (entries m ! unat (first_free m)) = InFreeList j"
    and v2: "even (unat v2)" "v2 \<noteq> 0"
    and m': "m' = m\<lparr>entries := (entries m)[unat (first_free m) := \<lparr>entry_version = v2, entry_state = Active v\<rparr>],
            first_free := j, num_entries := num_entries m + 1\<rparr>"
    and h: "h = \<lparr>map_id = hm_id m, version = v2, index = first_free m\<rparr>"
  shows "lookup m h = None" "lookup m' = (lookup m)(h \<mapsto> v)"
proof -
  have inv': "hm_inv m'" unfolding m' by (rule hm_inv_occupy [OF inv st v2])
  note i = hm_inv_first_free(1) [OF inv]
  show n: "lookup m h = None"
    using lookup_Some_iff [OF inv, of h] st unfolding h by (cases "lookup m h") (auto simp: h)
  show "lookup m' = (lookup m)(h \<mapsto> v)"
  proof
    fix k
    have "lookup m' k = Some u \<longleftrightarrow> ((lookup m)(h \<mapsto> v)) k = Some u" for u
    proof (cases "index k = first_free m")
      case True
      have "lookup m k \<noteq> Some u" using lookup_Some_iff [OF inv, of k u] st True by simp
      then show ?thesis
        unfolding lookup_Some_iff [OF inv'] using True i by (cases k) (auto simp: m' h)
    next
      case False
      then have "k \<noteq> h" "unat (index k) \<noteq> unat (first_free m)"
        by (auto simp: h word_unat_eq_iff)
      then show ?thesis using lookup_Some_iff [OF inv', of k u] lookup_Some_iff [OF inv, of k u]
        by (simp add: m')
    qed
    then show "lookup m' k = ((lookup m)(h \<mapsto> v)) k" by (metis option.exhaust)
  qed
qed

lemma insert_hm_cases:
  assumes "hm_inv m"
  obtains
    (inserted) h m' where "has_room m" "insert_hm dbg v m = (Ok h, m')" "hm_inv m'"
      "lookup m h = None" "lookup m' = (lookup m)(h \<mapsto> v)" "hm_id m' = hm_id m"
      "num_entries m' = num_entries m + 1" "map_id h = hm_id m" "even (unat (version h))"
  | (full) m' where "\<not> has_room m" "hm_inv m'" "lookup m' = lookup m"
      "insert_hm dbg v m = (Panic ''Bug: next_index pointed at non-free list entry (or end of list)'', m')"
  | (overflow) m' where "\<not> no_wrap dbg m" "has_room m" "hm_inv m'" "lookup m' = lookup m"
      "insert_hm dbg v m = (Panic ''attempt to add with overflow'', m')"
proof -
  obtain m1 where m1: "ensure_capacity dbg (len m + 1) m = (Ok (), m1)" "hm_inv m1" "grown m m1"
    using ensure_capacity_ok [OF assms, of dbg] by auto
  note l = lookup_grown [OF assms m1(2,3)] and u = insert_hm_unfold [OF assms m1(1,2), of v]
  note room = has_room_after_ensure [OF assms m1(1)]
  note i = hm_inv_first_free [OF m1(2)]
  show ?thesis
  proof (cases "entry_state (entries m1 ! unat (first_free m1))")
    case (Active x)
    then show ?thesis using i by simp
  next
    case EndOfFreeList
    then show ?thesis using full [of m1] u l m1 room first_free_state [OF m1(2)] by simp
  next
    case (InFreeList j)
    let ?w = "entry_version (entries m1 ! unat (first_free m1))"
    have r: "has_room m" using room first_free_state [OF m1(2)] InFreeList hm_inv_len_less [OF m1(2)]
      by (simp add: len_def capacity_def)
    have "odd (unat ?w)"
      using hm_inv_entry [OF m1(2) i(1)] InFreeList by (simp add: entry_ok_def)
    note v2 = next_version_even [OF this]
    show ?thesis
    proof (cases "dbg \<and> ?w = 65535")
      case True
      then have "\<not> no_wrap dbg m1" using i(1) by (auto simp: no_wrap_def)
      then have "\<not> no_wrap dbg m" using no_wrap_grown [OF _ m1(3)] by blast
      then show ?thesis using overflow [of m1] u l m1 r True InFreeList by (simp add: Let_def)
    next
      case False
      let ?m2 = "m1\<lparr>entries := (entries m1)[unat (first_free m1) :=
                        \<lparr>entry_version = next_version ?w, entry_state = Active v\<rparr>],
                     first_free := j, num_entries := num_entries m1 + 1\<rparr>"
      let ?h = "\<lparr>map_id = hm_id m1, version = next_version ?w, index = first_free m1\<rparr>"
      have g: "hm_id m1 = hm_id m" "num_entries m1 = num_entries m" using m1(3) by (auto simp: grown_def)
      have "hm_inv ?m2" using hm_inv_occupy [OF m1(2) InFreeList] v2 by blast
      moreover have "lookup m ?h = None" "lookup ?m2 = (lookup m)(?h \<mapsto> v)"
        using lookup_occupy [OF m1(2) InFreeList _ _ refl refl] v2 l by auto
      moreover have "insert_hm dbg v m = (Ok ?h, ?m2)"
        using u InFreeList False by (simp add: Let_def)
      ultimately show ?thesis using inserted [of ?h ?m2] r v2 g by simp
    qed
  qed
qed

section \<open>Removal\<close>

lemma remove_ok:
  assumes inv: "hm_inv m" and lk: "lookup m h = Some v"
  shows "\<exists>m'. remove dbg h m = (Ok v, m') \<and> hm_inv m' \<and> lookup m' = (lookup m)(h := None) \<and>
     num_entries m' = num_entries m - 1 \<and> hm_id m' = hm_id m \<and>
     entry_version (entries m' ! unat (index h)) = version h + 1 \<and> first_free m' = index h \<and>
     length (entries m') = length (entries m)"
proof -
  let ?i = "unat (index h)"
  have s: "map_id h = hm_id m" "?i < length (entries m)" "entry_version (entries m ! ?i) = version h"
    "entry_state (entries m ! ?i) = Active v"
    using lk lookup_Some_iff [OF inv] by auto
  define m' where m': "m' = m\<lparr>entries := (entries m)[?i := \<lparr>entry_version = entry_version (entries m ! ?i) + 1,
        entry_state = InFreeList (first_free m)\<rparr>], num_entries := num_entries m - 1, first_free := index h\<rparr>"
  have r: "hm_inv m'" "1 \<le> num_entries m" "unat (entry_version (entries m ! ?i)) + 1 < 65536"
    using hm_inv_release [OF inv s(2)] s(4) unfolding m' by auto
  have "check_handle m h = Ok ?i" using check_handle_lookup [OF inv, of h ?i] lk by simp
  then have "remove dbg h m = (Ok v, m')"
    using s(4) r(2,3) debug_check_ok [OF r(1), of dbg] unfolding m'
    by (simp add: remove_def add_u16_ok abind_lift Let_def abind_simps(1) ret_def)
  moreover have "lookup m' = (lookup m)(h := None)"
  proof
    fix k
    have "lookup m' k = Some u \<longleftrightarrow> ((lookup m)(h := None)) k = Some u" for u
    proof (cases "index k = index h")
      case True
      have "k = h" if "lookup m k = Some u"
        using that lookup_Some_iff [OF inv, of k u] s True by (cases k, cases h) auto
      moreover have "lookup m' k \<noteq> Some u"
        using lookup_Some_iff [OF r(1), of k u] True s(2) by (auto simp: m')
      ultimately show ?thesis by auto
    next
      case False
      then have "k \<noteq> h" "unat (index k) \<noteq> ?i" by (auto simp: word_unat_eq_iff)
      then show ?thesis using lookup_Some_iff [OF r(1), of k u] lookup_Some_iff [OF inv, of k u]
        by (simp add: m')
    qed
    then show "lookup m' k = ((lookup m)(h := None)) k" by (metis option.exhaust)
  qed
  ultimately show ?thesis using r(1) s by (auto simp: m')
qed

lemma remove_err:
  assumes inv: "hm_inv m" and lk: "lookup m h = None"
  shows "\<exists>e. remove dbg h m = (Err e, m) \<and> get m h = Err e"
proof -
  have "check_handle m h \<noteq> Ok i" for i using check_handle_lookup [OF inv] lk by simp
  then obtain e where "check_handle m h = Err e"
    using check_handle_no_panic by (cases "check_handle m h") auto
  then show ?thesis by (simp add: remove_def abind_lift get_def)
qed

section \<open>Handles as integers\<close>

unbundle bit_operations_syntax

lemma u16_bit_big: "16 \<le> n \<Longrightarrow> \<not> bit (w :: u16) n"
  using bit_imp_le_length [of w n] by auto

lemma into_u64_version: "ucast (into_u64 h) = version h"
  by (rule bit_word_eqI) (auto simp: into_u64_def bit_simps)

lemma into_u64_index: "ucast (drop_bit 16 (into_u64 h)) = index h"
  by (rule bit_word_eqI) (auto simp: into_u64_def bit_simps u16_bit_big)

lemma into_u64_map_id: "ucast (drop_bit 32 (into_u64 h)) = map_id h"
  by (rule bit_word_eqI) (auto simp: into_u64_def bit_simps u16_bit_big)

lemma into_u64_magic: "drop_bit 48 (into_u64 h) = ucast HANDLE_MAGIC"
  by (rule bit_word_eqI) (auto simp: into_u64_def bit_simps u16_bit_big dest: bit_imp_le_length)

lemma into_u64_low: "into_u64 h AND 1 = 0 \<longleftrightarrow> even (unat (version h))"
proof -
  have "into_u64 h AND 1 = 0 \<longleftrightarrow> \<not> bit (into_u64 h) 0"
    by (simp add: and_one_eq odd_iff_mod_2_eq_one bit_0 flip: even_iff_mod_2_eq_zero)
  also have "bit (into_u64 h) 0 \<longleftrightarrow> bit (version h) 0" by (simp add: into_u64_def bit_simps)
  also have "\<dots> \<longleftrightarrow> odd (unat (version h))" by (simp add: bit_0 even_iff_mod_2_eq_zero [of "version h"] word_mod2_unat)
  finally show ?thesis by simp
qed

lemma from_u64_into_u64:
  "from_u64 (into_u64 h) = (if even (unat (version h)) then Ok h else Err InvalidHandle)"
proof -
  have "is_valid (into_u64 h) \<longleftrightarrow> even (unat (version h))"
    by (simp add: is_valid_def into_u64_magic into_u64_low)
  moreover have "into_u64 h \<noteq> 0"
  proof
    assume "into_u64 h = 0"
    then have "(ucast HANDLE_MAGIC :: u64) = 0" using into_u64_magic [of h] by simp
    then show False by (simp add: HANDLE_MAGIC_def)
  qed
  ultimately show ?thesis
    by (simp add: from_u64_def into_u64_version into_u64_index into_u64_map_id)
qed

lemma into_u64_positive: "\<not> bit (into_u64 h) 63"
  by (simp add: into_u64_def bit_simps u16_bit_big HANDLE_MAGIC_def)

lemma from_u64_into:
  assumes "from_u64 v = Ok h" shows "into_u64 h = v \<and> even (unat (version h))"
proof -
  have valid: "is_valid v" and h: "map_id h = ucast (drop_bit 32 v)" "version h = ucast v"
    "index h = ucast (drop_bit 16 v)" using assms by (auto simp: from_u64_def split: if_splits)
  have m: "bit v (n + 48) \<longleftrightarrow> bit HANDLE_MAGIC n" for n
  proof -
    have "bit (drop_bit 48 v) n \<longleftrightarrow> bit (ucast HANDLE_MAGIC :: u64) n"
      using valid by (simp add: is_valid_def)
    then show ?thesis by (auto simp: bit_simps add.commute dest: bit_imp_le_length)
  qed
  have "into_u64 h = v"
  proof (rule bit_word_eqI)
    fix n assume "n < LENGTH(64)"
    then consider "n < 16" | "16 \<le> n" "n < 32" | "32 \<le> n" "n < 48" | "48 \<le> n" "n < 64"
      by fastforce
    then show "bit (into_u64 h) n = bit v n"
      using m [of "n - 48"]
      by cases (auto simp: into_u64_def h bit_simps u16_bit_big not_le dest: bit_imp_le_length)
  qed
  moreover from this have "even (unat (version h))"
    using valid into_u64_low [of h] by (simp add: is_valid_def)
  ultimately show ?thesis by simp
qed

end
