(* ===== verification/HandleMapClient.thy ===== *)
theory HandleMapClient
  imports HandleMapCorrect
begin

text \<open>
  What a client of the handle map may rely on. The contract of insertion and removal is a locale,
  its consequences for arbitrary histories of operations are proved once in it, and it is
  interpreted on \<open>insert_hm\<close> and \<open>remove\<close>. The last sections have the limits of the
  scheme: when a stale handle becomes valid again and how many values fit.
\<close>

section \<open>The contract as an interface\<close>

text \<open>
  What a client of the map relies on: insertion returns a handle that was not in use and adds
  exactly that binding, removal of a live handle returns its value and removes exactly that
  binding, removal of any other handle changes nothing.
\<close>

locale handle_store =
  fixes inv :: "'m \<Rightarrow> bool"
    and look :: "'m \<Rightarrow> 'h \<Rightarrow> 'a option"
    and ins :: "'a \<Rightarrow> ('m, 'e, 'h) action"
    and del :: "'h \<Rightarrow> ('m, 'e, 'a) action"
  assumes ins_ok: "inv m \<Longrightarrow> ins v m = (Ok h, m') \<Longrightarrow>
      inv m' \<and> look m h = None \<and> look m' = (look m)(h \<mapsto> v)"
    and ins_fail: "inv m \<Longrightarrow> ins v m = (r, m') \<Longrightarrow> \<not> is_Ok r \<Longrightarrow> inv m' \<and> look m' = look m"
    and del_ok: "inv m \<Longrightarrow> look m h = Some v \<Longrightarrow>
      \<exists>m'. del h m = (Ok v, m') \<and> inv m' \<and> look m' = (look m)(h := None)"
    and del_none: "inv m \<Longrightarrow> look m h = None \<Longrightarrow> \<exists>e. del h m = (Err e, m)"

text \<open>Histories: the operations of a client, in order; failed operations are skipped over.\<close>

datatype ('h, 'a) store_op = Ins 'a | Del 'h

fun run_store :: "('a \<Rightarrow> ('m, 'e, 'h) action) \<Rightarrow> ('h \<Rightarrow> ('m, 'e, 'a) action) \<Rightarrow>
    ('h, 'a) store_op list \<Rightarrow> 'm \<Rightarrow> 'm" where
  "run_store ins del [] m = m"
| "run_store ins del (Ins v # ops) m = run_store ins del ops (snd (ins v m))"
| "run_store ins del (Del h # ops) m = run_store ins del ops (snd (del h m))"

context handle_store
begin

lemma ins_inv: "inv m \<Longrightarrow> inv (snd (ins v m))"
  using ins_ok ins_fail by (metis is_Ok_iff prod.collapse)

lemma del_inv: "inv m \<Longrightarrow> inv (snd (del h m))"
  using del_ok del_none by (metis option.exhaust snd_conv)

lemma ins_keeps_binding: "inv m \<Longrightarrow> look m h = Some a \<Longrightarrow> look (snd (ins v m)) h = Some a"
proof -
  assume a: "inv m" "look m h = Some a"
  obtain r m' where i: "ins v m = (r, m')" by fastforce
  show ?thesis
  proof (cases r)
    case (Ok k)
    then have "look m k = None" "look m' = (look m)(k \<mapsto> v)" using ins_ok [OF a(1)] i by auto
    then show ?thesis using a(2) i by (cases "k = h") auto
  qed (use ins_fail [OF a(1) i] a(2) i in auto)
qed

lemma del_keeps_others: "inv m \<Longrightarrow> look m h = Some a \<Longrightarrow> k \<noteq> h \<Longrightarrow> look (snd (del k m)) h = Some a"
  using del_ok [of m k] del_none [of m k] by (cases "look m k") auto

lemma del_removes: "inv m \<Longrightarrow> look (snd (del k m)) k = None"
  using del_ok [of m k] del_none [of m k] by (cases "look m k") auto

lemma run_inv: "inv m \<Longrightarrow> inv (run_store ins del ops m)"
proof (induction ops arbitrary: m)
  case (Cons x ops)
  then show ?case by (cases x) (simp_all add: ins_inv del_inv)
qed simp

lemma run_keeps_binding:
  "inv m \<Longrightarrow> look m h = Some a \<Longrightarrow> Del h \<notin> set ops \<Longrightarrow> look (run_store ins del ops m) h = Some a"
proof (induction ops arbitrary: m)
  case (Cons x ops)
  show ?case
  proof (cases x)
    case (Ins v)
    then show ?thesis using Cons ins_inv ins_keeps_binding by simp
  next
    case (Del k)
    then show ?thesis using Cons del_inv del_keeps_others by auto
  qed
qed simp

lemma double_del: "inv m \<Longrightarrow> \<exists>e. fst (del h (snd (del h m))) = Err e"
  using del_none [of "snd (del h m)" h] del_inv del_removes by (metis fst_conv)

end

interpretation hm: handle_store hm_inv lookup "insert_hm dbg" "remove dbg" for dbg
proof (unfold_locales, goal_cases)
  case (1 m v h m')
  from 1(1) show ?case by (cases rule: insert_hm_cases [of m dbg v]) (use 1(2) in simp_all)
next
  case (2 m v r m')
  from 2(1) show ?case by (cases rule: insert_hm_cases [of m dbg v]) (use 2(2,3) in simp_all)
next
  case (3 m h v)
  from remove_ok [OF 3, of dbg] show ?case by (elim exE conjE) (intro exI conjI, assumption+)
next
  case (4 m h)
  from remove_err [OF 4, of dbg] show ?case by (elim exE conjE) (intro exI, assumption)
qed

section \<open>How long a stale handle is detected\<close>

definition bump2 :: "u16 \<Rightarrow> u16" where
  "bump2 v = next_version (v + 1)"

text \<open>A handle's entry is released and taken again, in a release build.\<close>

fun recycle :: "'a \<Rightarrow> 'a HandleMap \<times> Handle \<Rightarrow> 'a HandleMap \<times> Handle" where
  "recycle v (m, h) =
     (case remove False h m of
        (Ok _, m1) \<Rightarrow> (case insert_hm False v m1 of (Ok h', m2) \<Rightarrow> (m2, h') | _ \<Rightarrow> (m, h))
      | _ \<Rightarrow> (m, h))"

lemma bump2_step:
  assumes "k < 32767"
  shows "bump2 (of_nat (2 * (k + 1))) = of_nat (2 * ((k + 1) mod 32767 + 1))"
proof (cases "k = 32766")
  case True
  then show ?thesis by (simp add: bump2_def next_version_def)
next
  case False
  then have k: "k + 1 < 32767" using assms by simp
  have "of_nat (2 * (k + 1)) + 1 + 1 = (of_nat (2 * (k + 2)) :: u16)" by simp
  moreover have "(of_nat (2 * (k + 2)) :: u16) \<noteq> 0"
  proof -
    have "unat (of_nat (2 * (k + 2)) :: u16) = 2 * (k + 2)" using k by (simp only: unat_of_nat) simp
    then show ?thesis by (metis unat_0 add_is_0 mult_eq_0_iff zero_neq_numeral)
  qed
  ultimately show ?thesis using k by (simp add: bump2_def next_version_def)
qed

lemma unat_version: "j < 32767 \<Longrightarrow> unat (of_nat (2 * (j + 1)) :: u16) = 2 * (j + 1)"
  by (simp only: unat_of_nat) simp

lemma bump2_pow:
  assumes "k < 32767"
  shows "(bump2 ^^ n) (of_nat (2 * (k + 1))) = of_nat (2 * ((k + n) mod 32767 + 1))"
proof (induction n)
  case (Suc n)
  have "(k + n) mod 32767 < 32767" by simp
  then show ?case using Suc bump2_step [of "(k + n) mod 32767"] by (simp add: mod_Suc_eq)
qed (use assms in simp)

lemma bump2_cycle:
  assumes "even (unat v)" "v \<noteq> 0"
  shows "(bump2 ^^ n) v = v \<longleftrightarrow> 32767 dvd n"
proof -
  define k where "k = unat v div 2 - 1"
  have "unat v < 65536" using unsigned_less [of v] by simp
  moreover have "unat v \<noteq> 0" using assms(2) by (simp add: unat_eq_0)
  ultimately have k: "k < 32767" "unat v = 2 * (k + 1)" using assms(1) by (auto simp: k_def)
  have v: "v = of_nat (2 * (k + 1))" unfolding k(2) [symmetric] by simp
  have "(bump2 ^^ n) v = v \<longleftrightarrow> (k + n) mod 32767 = k"
    unfolding bump2_pow [OF k(1), of n, folded v] word_unat_eq_iff k(2)
    by (subst unat_version) simp_all
  also have "\<dots> \<longleftrightarrow> 32767 dvd n"
    using k(1) mod_eq_dvd_iff_nat [of k "k + n" 32767] by auto
  finally show ?thesis .
qed

lemma insert_hm_first:
  assumes "hm_inv m" "insert_hm False v m = (r, m')" "len m + 1 < capacity m"
  shows "r = Ok \<lparr>map_id = hm_id m, version = next_version (entry_version (entries m ! unat (first_free m))),
     index = first_free m\<rparr>"
proof -
  have "ensure_capacity False (len m + 1) m = (Ok (), m)"
    using assms(3) hm_inv_len_less [OF assms(1)] hm_inv_capacity [OF assms(1)]
    by (auto simp: ensure_capacity_def abind_assert ret_def len_def capacity_def)
  note u = insert_hm_unfold [OF assms(1) this assms(1), of v]
  have "entry_state (entries m ! unat (first_free m)) \<noteq> EndOfFreeList"
    using first_free_state [OF assms(1)] assms(3) by simp
  moreover note hm_inv_first_free(2) [OF assms(1)]
  ultimately show ?thesis using u assms(2)
    by (cases "entry_state (entries m ! unat (first_free m))") (auto simp: Let_def is_occupied_def)
qed

lemma recycle_step:
  assumes "hm_inv m" "lookup m h = Some a"
  shows "\<exists>m'. recycle v (m, h) = (m', h\<lparr>version := bump2 (version h)\<rparr>) \<and> hm_inv m' \<and>
     lookup m' (h\<lparr>version := bump2 (version h)\<rparr>) = Some v"
proof -
  obtain m1 where m1: "remove False h m = (Ok a, m1)" "hm_inv m1" "num_entries m1 = num_entries m - 1"
    "hm_id m1 = hm_id m" "entry_version (entries m1 ! unat (index h)) = version h + 1"
    "first_free m1 = index h" "length (entries m1) = length (entries m)"
    using remove_ok [OF assms, of False] by (elim exE conjE) rule
  have n: "num_entries m < length (entries m)" using hm_inv_len_less [OF assms(1)] .
  have "1 \<le> num_entries m"
    using hm_inv_release(2) [OF assms(1), of "index h"] assms(2) lookup_Some_iff [OF assms(1)] by auto
  then have room: "len m1 + 1 < capacity m1" using n m1 by (simp add: len_def capacity_def)
  have id: "map_id h = hm_id m" using assms(2) lookup_Some_iff [OF assms(1)] by simp
  obtain r m2 where i: "insert_hm False v m1 = (r, m2)" by fastforce
  have r: "r = Ok (h\<lparr>version := bump2 (version h)\<rparr>)"
    using insert_hm_first [OF m1(2) i room] m1 id by (cases h) (simp add: bump2_def)
  have "hm_inv m2" "lookup m2 (h\<lparr>version := bump2 (version h)\<rparr>) = Some v"
    using hm.ins_ok [OF m1(2) i [unfolded r]] by simp_all
  then show ?thesis using m1(1) i r by simp
qed

lemma recycle_pow:
  assumes "hm_inv m" "lookup m h = Some a"
  shows "\<exists>m'. (recycle v ^^ n) (m, h) = (m', h\<lparr>version := (bump2 ^^ n) (version h)\<rparr>) \<and> hm_inv m' \<and>
     lookup m' (h\<lparr>version := (bump2 ^^ n) (version h)\<rparr>) \<noteq> None"
proof (induction n)
  case 0
  then show ?case using assms by simp
next
  case (Suc n)
  then obtain m' a' where m': "(recycle v ^^ n) (m, h) = (m', h\<lparr>version := (bump2 ^^ n) (version h)\<rparr>)"
    "hm_inv m'" "lookup m' (h\<lparr>version := (bump2 ^^ n) (version h)\<rparr>) = Some a'" by auto
  from recycle_step [OF m'(2,3), of v] show ?case by (auto simp: m'(1))
qed

lemma lookup_version:
  assumes "hm_inv m" "lookup m h = Some a"
  shows "even (unat (version h)) \<and> version h \<noteq> 0"
    "lookup m (h\<lparr>version := w\<rparr>) \<noteq> None \<longleftrightarrow> w = version h"
proof -
  have s: "unat (index h) < length (entries m)" "entry_version (entries m ! unat (index h)) = version h"
    "entry_state (entries m ! unat (index h)) = Active a" "map_id h = hm_id m"
    using assms(2) lookup_Some_iff [OF assms(1)] by auto
  show "even (unat (version h)) \<and> version h \<noteq> 0"
    using hm_inv_entry [OF assms(1) s(1)] s by (auto simp: entry_ok_def)
  show "lookup m (h\<lparr>version := w\<rparr>) \<noteq> None \<longleftrightarrow> w = version h"
    using s by (auto simp: lookup_Some_iff [OF assms(1)])
qed

lemma recycle_stale:
  assumes "hm_inv m" "lookup m h = Some a"
  shows "lookup (fst ((recycle v ^^ n) (m, h))) h \<noteq> None \<longleftrightarrow> 32767 dvd n"
proof -
  obtain m' a' where m': "(recycle v ^^ n) (m, h) = (m', h\<lparr>version := (bump2 ^^ n) (version h)\<rparr>)"
    "hm_inv m'" "lookup m' (h\<lparr>version := (bump2 ^^ n) (version h)\<rparr>) = Some a'"
    using recycle_pow [OF assms, of n v] by auto
  have "lookup m' h \<noteq> None \<longleftrightarrow> version h = (bump2 ^^ n) (version h)"
    using lookup_version(2) [OF m'(2,3), of "version h"] by simp
  then show ?thesis using bump2_cycle [of "version h" n] lookup_version(1) [OF assms] m'(1) by auto
qed

section \<open>How many values fit\<close>

lemma insert_capacity:
  assumes "hm_inv m" "insert_hm dbg v m = (r, m')"
  shows "capacity m' = (if len m + 1 < capacity m then capacity m
                    else max (capacity m) (min (2 * capacity m) MAX_CAPACITY - 1))"
proof -
  obtain m1 where m1: "ensure_capacity dbg (len m + 1) m = (Ok (), m1)" "hm_inv m1"
     "capacity m1 = (if len m + 1 < capacity m then capacity m
                    else max (capacity m) (min (2 * capacity m) MAX_CAPACITY - 1))"
    using ensure_capacity_ok [OF assms(1), of dbg] by (elim exE conjE) rule
  from insert_hm_unfold [OF assms(1) m1(1,2), of v] assms(2) have "capacity m' = capacity m1"
    by (auto simp: Let_def capacity_def split: EntryState.splits if_splits)
  then show ?thesis using m1(3) by simp
qed

lemma remove_capacity: "hm_inv m \<Longrightarrow> capacity (snd (remove dbg h m)) = capacity m"
  using remove_ok [of m h _ dbg] remove_err [of m h dbg] by (cases "lookup m h") (auto simp: capacity_def)

abbreviation run_hm :: "bool \<Rightarrow> (Handle, 'a) store_op list \<Rightarrow> 'a HandleMap \<Rightarrow> 'a HandleMap" where
  "run_hm dbg \<equiv> run_store (insert_hm dbg) (remove dbg)"

lemma run_capacity:
  "hm_inv m \<Longrightarrow> capacity m < MAX_CAPACITY \<Longrightarrow> capacity (run_hm dbg ops m) < MAX_CAPACITY"
proof (induction ops arbitrary: m)
  case (Cons x ops)
  show ?case
  proof (cases x)
    case (Ins v)
    have "capacity (snd (insert_hm dbg v m)) < MAX_CAPACITY"
      using insert_capacity [OF Cons.prems(1), of dbg v] Cons.prems(2)
      by (cases "insert_hm dbg v m") (auto simp: MAX_CAPACITY_def)
    then show ?thesis using Cons Ins hm.ins_inv [OF Cons.prems(1)] by simp
  next
    case (Del h)
    then show ?thesis
      using Cons.IH [OF hm.del_inv [OF Cons.prems(1)], of dbg h] Cons.prems by (simp add: remove_capacity)
  qed
qed simp

lemma new_inv:
  assumes "new_with_capacity n c = (Ok m, c')"
  shows "hm_inv m" "hm_id m = ucast (c + 1)" "capacity m = max n MIN_CAPACITY" "n \<le> MAX_CAPACITY"
proof -
  show n: "n \<le> MAX_CAPACITY"
    using assms by (cases "n \<le> MAX_CAPACITY") (simp_all add: new_with_capacity_def abind_assert)
  have e: "m = \<lparr>hm_id = ucast (c + 1), first_free = 0, num_entries = 0,
      entries = fresh_entries (max n MIN_CAPACITY - 1)\<rparr>"
    using assms unfolding new_with_capacity_eq [OF n] by blast
  show "hm_inv m" unfolding e
    by (rule hm_inv_fresh) (use n in \<open>auto simp: MIN_CAPACITY_def MAX_CAPACITY_def\<close>)
  show "hm_id m = ucast (c + 1)" "capacity m = max n MIN_CAPACITY"
    by (auto simp: e capacity_def fresh_entries_def MIN_CAPACITY_def)
qed

lemma has_room_iff:
  assumes "hm_inv m" "capacity m < MAX_CAPACITY"
  shows "has_room m \<longleftrightarrow> len m < MAX_CAPACITY - 2"
  using hm_inv_len_less [OF assms(1)] assms(2)
  by (auto simp: has_room_def len_def capacity_def MAX_CAPACITY_def)

lemma get_lookup: "hm_inv m \<Longrightarrow> get m h = Ok v \<longleftrightarrow> lookup m h = Some v"
  using get_Ok_iff lookup_Some_iff by metis

lemma from_u64_zero: "from_u64 0 = Err NullHandle"
  by (simp add: from_u64_def is_valid_def HANDLE_MAGIC_def)

lemma from_u64_Ok_iff: "from_u64 x = Ok h \<longleftrightarrow> x = into_u64 h \<and> even (unat (version h))"
  using from_u64_into [of x h] from_u64_into_u64 [of h] by auto

lemma from_u64_Invalid_iff:
  "from_u64 x = Err InvalidHandle \<longleftrightarrow> x \<noteq> 0 \<and> (\<nexists>k. even (unat (version k)) \<and> x = into_u64 k)"
proof -
  have "(\<exists>k. from_u64 x = Ok k) \<longleftrightarrow> is_valid x" by (simp add: from_u64_def)
  then show ?thesis using from_u64_zero unfolding from_u64_Ok_iff by (auto simp: from_u64_def)
qed

section \<open>Properties\<close>

text \<open>A concrete map for the witnesses.\<close>

definition hm4 :: "nat HandleMap" where
  "hm4 = \<lparr>hm_id = 1, first_free = 0, num_entries = 0, entries = fresh_entries 3\<rparr>"

lemma new_hm4: "new_with_capacity 4 0 = (Ok hm4, 1)"
  using new_with_capacity_eq [of 4 0] by (simp add: MAX_CAPACITY_def MIN_CAPACITY_def hm4_def)

lemma fresh_entries_3: "fresh_entries 3 =
  [\<lparr>entry_version = 1, entry_state = InFreeList 1\<rparr>, \<lparr>entry_version = 1, entry_state = InFreeList 2\<rparr>,
   \<lparr>entry_version = 1, entry_state = InFreeList 3\<rparr>, \<lparr>entry_version = 1, entry_state = EndOfFreeList\<rparr>]"
  by (simp add: fresh_entries_def upt_rec)

lemmas hm_eval = insert_hm_def ensure_capacity_def hm4_def fresh_entries_3 len_def capacity_def
  MAX_CAPACITY_def add_u16_def action_defs abind_def debug_check_valid_def is_occupied_def
  get_def check_handle_def

lemma hm4_insert:
  "insert_hm False 7 (run_hm False [Ins 5] hm4) =
     (Ok \<lparr>map_id = 1, version = 2, index = 1\<rparr>, snd (insert_hm False 7 (run_hm False [Ins 5] hm4)))"
  by (simp add: hm_eval)

lemma hm4_get: "get (run_hm False [Ins 5, Ins 7] hm4) \<lparr>map_id = 1, version = 2, index = 1\<rparr> = Ok 7"
  by (simp add: hm_eval)

text \<open>
  C1. A handle is good for exactly what it was issued for: in a map that was built by
  \<open>new_with_capacity\<close> and went through any history of insertions and removals, the handle that
  an insertion returns keeps finding the inserted value, through any further history that does not
  remove that handle.
\<close>

theorem handle_valid_until_removed:
  assumes "new_with_capacity n c = (Ok m0, c')"
    and "insert_hm dbg v (run_hm dbg ops m0) = (Ok h, m)"
    and "Del h \<notin> set ops'"
  shows "get (run_hm dbg ops' m) h = Ok v"
proof -
  have i: "hm_inv (run_hm dbg ops m0)" using new_inv(1) [OF assms(1)] by (rule hm.run_inv)
  note m = hm.ins_ok [OF i assms(2)]
  then have "lookup (run_hm dbg ops' m) h = Some v"
    by (intro hm.run_keeps_binding [OF _ _ assms(3)]) simp_all
  moreover have "hm_inv (run_hm dbg ops' m)" using m by (intro hm.run_inv) simp
  ultimately show ?thesis by (simp add: get_lookup)
qed

theorem handle_valid_until_removed_witness:
  "get (run_hm False [Ins 9, Del \<lparr>map_id = 1, version = 2, index = 0\<rparr>]
      (snd (insert_hm False 7 (run_hm False [Ins 5] hm4)))) \<lparr>map_id = 1, version = 2, index = 1\<rparr> = Ok 7"
  by (rule handle_valid_until_removed [OF new_hm4 hm4_insert]) simp


text \<open>
  C10. Removal ends a handle's life and touches nothing else: in every reachable map, removing a
  handle that \<open>get\<close> accepts returns the value, afterwards the handle is refused as stale by
  \<open>get\<close> and by a second \<open>remove\<close> (which leaves the map alone), and every other handle is
  answered as before, errors included.
\<close>

theorem removed_handle_is_stale:
  assumes "new_with_capacity n c = (Ok m0, c')"
    and "m = run_hm dbg ops m0"
    and "get m h = Ok v"
  shows "\<exists>m'. remove dbg h m = (Ok v, m') \<and> get m' h = Err StaleVersion \<and>
    remove dbg h m' = (Err StaleVersion, m') \<and> (\<forall>k. k \<noteq> h \<longrightarrow> get m' k = get m k)"
proof -
  have i: "hm_inv m" unfolding assms(2) using new_inv(1) [OF assms(1)] by (rule hm.run_inv)
  have l: "lookup m h = Some v" using assms(3) get_lookup [OF i] by simp
  obtain m' where m': "remove dbg h m = (Ok v, m')" "hm_inv m'" "lookup m' = (lookup m)(h := None)"
    "hm_id m' = hm_id m" "length (entries m') = length (entries m)"
    using remove_ok [OF i l, of dbg] by (elim exE conjE) rule
  have g: "get m' h = Err StaleVersion"
    using l lookup_Some_iff [OF i, of h v] by (simp add: get_errors [OF m'(2)] m')
  moreover have "remove dbg h m' = (Err StaleVersion, m')"
    using remove_err [OF m'(2), of h dbg] g m'(3) by auto
  moreover have "get m' k = get m k" if "k \<noteq> h" for k
    using that by (simp add: get_errors [OF m'(2)] get_errors [OF i] m')
  ultimately show ?thesis using m'(1) by auto
qed

theorem removed_handle_is_stale_witness:
  "\<exists>m'. remove False \<lparr>map_id = 1, version = 2, index = 1\<rparr> (run_hm False [Ins 5, Ins 7] hm4) = (Ok 7, m') \<and>
     get m' \<lparr>map_id = 1, version = 2, index = 1\<rparr> = Err StaleVersion"
  using removed_handle_is_stale [OF new_hm4 refl hm4_get] by metis


text \<open>
  C16. A stale handle stays refused until its entry has been reused 32767 times: after the entry of
  a live handle has been released and taken again \<open>n\<close> times (in a release build), the original
  handle is accepted exactly when 32767 divides \<open>n\<close>.
\<close>

theorem stale_until_32767_reuses:
  fixes v :: 'a
  assumes "new_with_capacity k c = (Ok m0, c')"
    and "get (run_hm dbg ops m0) h = Ok a"
  shows "is_Ok (get (fst ((recycle v ^^ n) (run_hm dbg ops m0, h))) h) \<longleftrightarrow> 32767 dvd n"
proof -
  have i: "hm_inv (run_hm dbg ops m0)" using new_inv(1) [OF assms(1)] by (rule hm.run_inv)
  have l: "lookup (run_hm dbg ops m0) h = Some a" using assms(2) get_lookup [OF i] by simp
  have "hm_inv (fst ((recycle v ^^ n) (run_hm dbg ops m0, h)))" using recycle_pow [OF i l, of n v] by auto
  then show ?thesis using recycle_stale [OF i l, of n v] by (simp add: is_Ok_iff get_lookup)
qed

theorem stale_until_32767_reuses_witness:
  "\<not> is_Ok (get (fst ((recycle 8 ^^ 32766) (run_hm False [Ins 5, Ins 7] hm4, \<lparr>map_id = 1, version = 2, index = 1\<rparr>))) \<lparr>map_id = 1, version = 2, index = 1\<rparr>)"
  unfolding stale_until_32767_reuses [OF new_hm4 hm4_get] by simp


text \<open>
  C17. The capacity limit: a map created for fewer than \<open>MAX_CAPACITY\<close> entries accepts an
  insertion, whatever its history, exactly while it holds fewer than 32765 values; it never
  holds more, and at the limit the insertion panics without losing a binding.
\<close>

theorem insert_succeeds_iff_room:
  assumes "new_with_capacity n c = (Ok m0, c')" "n < MAX_CAPACITY"
    and "m = run_hm False ops m0"
  shows "(is_Ok (fst (insert_hm False v m)) \<longleftrightarrow> len m < 32765) \<and> len m \<le> 32765 \<and>
    (len m = 32765 \<longrightarrow> is_Panic (fst (insert_hm False v m)) \<and>
       (\<forall>h u. get (snd (insert_hm False v m)) h = Ok u \<longleftrightarrow> get m h = Ok u))"
proof -
  have i0: "hm_inv m0" using new_inv(1) [OF assms(1)] .
  have i: "hm_inv m" unfolding assms(3) using i0 by (rule hm.run_inv)
  have "capacity m0 < MAX_CAPACITY"
    using new_inv(3) [OF assms(1)] assms(2) by (simp add: MIN_CAPACITY_def MAX_CAPACITY_def)
  then have c: "capacity m < MAX_CAPACITY" unfolding assms(3) by (rule run_capacity [OF i0])
  have room: "has_room m \<longleftrightarrow> len m < 32765" using has_room_iff [OF i c] by (simp add: MAX_CAPACITY_def)
  have le: "len m \<le> 32765"
    using hm_inv_len_less [OF i] c by (simp add: len_def capacity_def MAX_CAPACITY_def)
  show ?thesis
  proof (cases rule: insert_hm_cases [OF i, of False v])
    case (1 h m')
    then show ?thesis using room le by simp
  next
    case (2 m')
    then show ?thesis using room le by (simp add: get_lookup [OF i] get_lookup [OF 2(2)])
  next
    case (3 m')
    then show ?thesis by (simp add: no_wrap_def)
  qed
qed

theorem insert_succeeds_iff_room_witness:
  "is_Ok (fst (insert_hm False 7 (run_hm False [Ins 5] hm4))) \<and> len (run_hm False [Ins 5] hm4) \<le> 32765"
proof -
  have "(4 :: nat) < MAX_CAPACITY" by (simp add: MAX_CAPACITY_def)
  from insert_succeeds_iff_room [OF new_hm4 this refl, where v = 7 and ops = "[Ins 5]"]
  show ?thesis using hm4_insert by (metis fst_conv is_Ok.simps(1))
qed


text \<open>
  C18. The run-time check of debug builds is exact: \<open>assert_valid\<close> passes exactly when the free
  entries form one list from \<open>first_free\<close> to the only \<open>EndOfFreeList\<close> entry, without
  repetition, and \<open>num_entries\<close> counts the others.
\<close>

theorem assert_valid_exact:
  "assert_valid m = Ok () \<longleftrightarrow>
     (\<exists>fl. chain (entries m) (first_free m) fl \<and> distinct fl \<and>
        set fl = {i. i < length (entries m) \<and> \<not> is_occupied (entry_state (entries m ! i))} \<and>
        num_entries m = occ_count (entries m) \<and> length (entries m) \<le> MAX_CAPACITY)"
  unfolding assert_valid_iff free_list_ok_def ..

text \<open>
  C19. Handles cross the FFI as 64-bit integers without loss: an integer is read as the handle
  \<open>h\<close> exactly when it is the encoding of \<open>h\<close> and the version of \<open>h\<close> is even, as it is
  for every handle that is handed out. Zero is reported as a null handle, every other integer as
  an invalid one; the encodings are positive when read as signed integers.
\<close>

theorem handle_integers:
  "(from_u64 x = Ok h \<longleftrightarrow> x = into_u64 h \<and> even (unat (version h))) \<and>
   from_u64 0 = Err NullHandle \<and>
   (from_u64 x = Err InvalidHandle \<longleftrightarrow> x \<noteq> 0 \<and> (\<nexists>k. even (unat (version k)) \<and> x = into_u64 k)) \<and>
   \<not> bit (into_u64 h) 63"
  using from_u64_Ok_iff from_u64_zero from_u64_Invalid_iff into_u64_positive by simp

end
