(* ===== verification/FfiCalls.thy ===== *)
theory FfiCalls
  imports HandleMapClient
begin

text \<open>
  The call boundary of \<^verbatim>\<open>components/support/ffi\<close>: error codes and \<^verbatim>\<open>ExternError\<close>
  (\<^verbatim>\<open>error.rs\<close>), the panic-catching wrappers (\<^verbatim>\<open>lib.rs\<close>) and the
  \<^verbatim>\<open>ConcurrentHandleMap\<close> (\<^verbatim>\<open>handle_map.rs\<close>). A C string is an optional string,
  \<open>None\<close> the null pointer. The map is behind a read-write lock and each value behind a mutex;
  a lock is poisoned when a panic unwinds through the holder of its write guard. Each call holds
  the locks it takes until it returns, so a history of calls is a sequence of atomic actions on
  the locked state.
\<close>

section \<open>Error codes and external errors\<close>

definition SUCCESS :: int where "SUCCESS = 0"

definition PANIC :: int where "PANIC = -1"

definition INVALID_HANDLE :: int where "INVALID_HANDLE = -1000"

definition error_code_new :: "int \<Rightarrow> ('e, int) outcome" where
  "error_code_new code =
     (if code > INVALID_HANDLE \<and> code \<noteq> PANIC \<and> code \<noteq> SUCCESS then Ok code
      else Panic ''Error: The ErrorCodes are reserved'')"

definition is_success :: "int \<Rightarrow> bool" where
  "is_success code \<longleftrightarrow> code = 0"

record ExternError =
  ext_code :: int
  ext_message :: "string option"

definition NUL :: char where
  "NUL = CHR 0x00"

definition rust_string_to_c :: "string \<Rightarrow> ('e, string option) outcome" where
  "rust_string_to_c s =
     (if NUL \<in> set s then Panic ''Error: Rust string contained an interior null byte.'' else Ok (Some s))"

fun opt_rust_string_to_c :: "string option \<Rightarrow> ('e, string option) outcome" where
  "opt_rust_string_to_c (Some s) = rust_string_to_c s"
| "opt_rust_string_to_c None = Ok None"

definition new_error :: "int \<Rightarrow> string \<Rightarrow> ('e, ExternError) outcome" where
  "new_error code message =
     (if is_success code then Panic ''Attempted to construct a success ExternError with a message''
      else omap (\<lambda>m. \<lparr>ext_code = code, ext_message = m\<rparr>) (rust_string_to_c message))"

definition success :: ExternError where
  "success = \<lparr>ext_code = SUCCESS, ext_message = None\<rparr>"

fun handle_error_display :: "HandleError \<Rightarrow> string" where
  "handle_error_display NullHandle =
     ''Tried to use a null handle (this object has probably been closed)''"
| "handle_error_display InvalidHandle = ''u64 could not encode a valid Handle''"
| "handle_error_display StaleVersion = ''Handle has stale version number''"
| "handle_error_display IndexPastEnd = ''Handle references a index past the end of this HandleMap''"
| "handle_error_display WrongMap = ''Handle is from a different map''"

definition handle_error_into :: "HandleError \<Rightarrow> ('e, ExternError) outcome" where
  "handle_error_into e = new_error INVALID_HANDLE (handle_error_display e)"

section \<open>Calls that catch panics\<close>

text \<open>
  A call comes back to C with the contents of the out parameter and a value, it lets a panic
  through, or it aborts the process.
\<close>

datatype 'v ffi_return = Returned ExternError 'v | Unwinds string | Aborts

definition call_with_result_impl ::
    "bool \<Rightarrow> ('e \<Rightarrow> (unit, ExternError) outcome) \<Rightarrow> ('r \<Rightarrow> (unit, 'v) outcome) \<Rightarrow> 'v \<Rightarrow>
     ('s, 'e, 'r) action \<Rightarrow> 's \<Rightarrow> 'v ffi_return \<times> 's" where
  "call_with_result_impl abort_on_panic into into_ffi_value ffi_default callback s =
     (case callback s of (r, s') \<Rightarrow>
        let res = (case r of
              Ok v \<Rightarrow> omap (\<lambda>out. (success, out)) (into_ffi_value v)
            | Err e \<Rightarrow> omap (\<lambda>x. (x, ffi_default)) (into e)
            | Panic p \<Rightarrow> Panic p)
        in (case res of
              Ok (err, out) \<Rightarrow> Returned err out
            | Err _ \<Rightarrow> Aborts
            | Panic p \<Rightarrow>
                (if abort_on_panic then Aborts
                 else (case (new_error PANIC p :: (unit, ExternError) outcome) of
                         Ok x \<Rightarrow> Returned x ffi_default
                       | Err _ \<Rightarrow> Aborts
                       | Panic q \<Rightarrow> Unwinds q)), s'))"

definition call_with_result ::
    "('e \<Rightarrow> (unit, ExternError) outcome) \<Rightarrow> ('r \<Rightarrow> (unit, 'v) outcome) \<Rightarrow> 'v \<Rightarrow>
     ('s, 'e, 'r) action \<Rightarrow> 's \<Rightarrow> 'v ffi_return \<times> 's" where
  "call_with_result = call_with_result_impl False"

text \<open>The callback of \<open>call_with_output\<close> has no error to return; it may panic.\<close>

definition call_with_output ::
    "('r \<Rightarrow> (unit, 'v) outcome) \<Rightarrow> 'v \<Rightarrow> ('s, ExternError, 'r) action \<Rightarrow> 's \<Rightarrow> 'v ffi_return \<times> 's" where
  "call_with_output into_ffi_value ffi_default callback =
     call_with_result Ok into_ffi_value ffi_default callback"

section \<open>The concurrent handle map\<close>

record 'a Mutex =
  mtx_value :: 'a
  mtx_poisoned :: bool

record 'a ConcurrentHandleMap =
  chm_map :: "'a Mutex HandleMap"
  chm_poisoned :: bool

definition chm_new :: "(u64, HandleError, 'a ConcurrentHandleMap) action" where
  "chm_new = abind new (\<lambda>m. ret \<lparr>chm_map = m, chm_poisoned = False\<rparr>)"

text \<open>\<^verbatim>\<open>self.map.write().unwrap()\<close> and what runs while its guard lives.\<close>

definition with_write ::
    "('a Mutex HandleMap, 'e, 'r) action \<Rightarrow> ('a ConcurrentHandleMap, 'e, 'r) action" where
  "with_write f s =
     (if chm_poisoned s then (Panic ''called Result::unwrap() on an Err value: PoisonError'', s)
      else (case f (chm_map s) of (r, m') \<Rightarrow> (r, s\<lparr>chm_map := m', chm_poisoned := is_Panic r\<rparr>)))"

definition chm_insert :: "bool \<Rightarrow> 'a \<Rightarrow> ('a ConcurrentHandleMap, HandleError, Handle) action" where
  "chm_insert dbg v = with_write (insert_hm dbg \<lparr>mtx_value = v, mtx_poisoned = False\<rparr>)"

definition chm_delete :: "bool \<Rightarrow> Handle \<Rightarrow> ('a ConcurrentHandleMap, HandleError, unit) action" where
  "chm_delete dbg h = with_write (delete dbg h)"

definition chm_delete_u64 :: "bool \<Rightarrow> u64 \<Rightarrow> ('a ConcurrentHandleMap, HandleError, unit) action" where
  "chm_delete_u64 dbg u = abind (lift (from_u64 u)) (chm_delete dbg)"

definition chm_remove :: "bool \<Rightarrow> Handle \<Rightarrow> ('a ConcurrentHandleMap, HandleError, 'a option) action" where
  "chm_remove dbg h = with_write (abind (remove dbg h) (\<lambda>mutex.
     ret (if mtx_poisoned mutex then None else Some (mtx_value mutex))))"

definition chm_remove_u64 :: "bool \<Rightarrow> u64 \<Rightarrow> ('a ConcurrentHandleMap, HandleError, 'a option) action" where
  "chm_remove_u64 dbg u = abind (lift (from_u64 u)) (chm_remove dbg)"

text \<open>
  \<open>chm_get_mut\<close> takes the read lock, finds the mutex, locks it and runs the callback on the
  value. A panic of the callback poisons the mutex (the read guard poisons nothing).
\<close>

definition chm_get_mut ::
    "(HandleError \<Rightarrow> ('e, 'r) outcome) \<Rightarrow> Handle \<Rightarrow> ('a, 'e, 'r) action \<Rightarrow>
     ('a ConcurrentHandleMap, 'e, 'r) action" where
  "chm_get_mut into h callback s =
     (if chm_poisoned s then (Panic ''called Result::unwrap() on an Err value: PoisonError'', s)
      else (case get (chm_map s) h of
         Err e \<Rightarrow> (into e, s)
       | Panic p \<Rightarrow> (Panic p, s)
       | Ok mtx \<Rightarrow>
           if mtx_poisoned mtx then (Panic ''called Result::unwrap() on an Err value: PoisonError'', s)
           else (case callback (mtx_value mtx) of (r, v') \<Rightarrow>
             (r, s\<lparr>chm_map := snd (get_mut h
                      (\<lambda>_. \<lparr>mtx_value = v', mtx_poisoned = is_Panic r\<rparr>) (chm_map s))\<rparr>))))"

definition chm_get_mut_u64 ::
    "(HandleError \<Rightarrow> ('e, 'r) outcome) \<Rightarrow> u64 \<Rightarrow> ('a, 'e, 'r) action \<Rightarrow>
     ('a ConcurrentHandleMap, 'e, 'r) action" where
  "chm_get_mut_u64 into u callback s =
     (case from_u64 u of
        Ok h \<Rightarrow> chm_get_mut into h callback s
      | Err e \<Rightarrow> (into e, s)
      | Panic p \<Rightarrow> (Panic p, s))"

text \<open>A callback on a shared reference cannot change the value.\<close>

definition shared :: "('a \<Rightarrow> ('e, 'r) outcome) \<Rightarrow> ('a, 'e, 'r) action" where
  "shared callback v = (callback v, v)"

definition chm_get ::
    "(HandleError \<Rightarrow> ('e, 'r) outcome) \<Rightarrow> Handle \<Rightarrow> ('a \<Rightarrow> ('e, 'r) outcome) \<Rightarrow>
     ('a ConcurrentHandleMap, 'e, 'r) action" where
  "chm_get into h callback = chm_get_mut into h (shared callback)"

definition chm_get_u64 ::
    "(HandleError \<Rightarrow> ('e, 'r) outcome) \<Rightarrow> u64 \<Rightarrow> ('a \<Rightarrow> ('e, 'r) outcome) \<Rightarrow>
     ('a ConcurrentHandleMap, 'e, 'r) action" where
  "chm_get_u64 into u callback s =
     (case from_u64 u of
        Ok h \<Rightarrow> chm_get into h callback s
      | Err e \<Rightarrow> (into e, s)
      | Panic p \<Rightarrow> (Panic p, s))"

text \<open>\<open>?\<close> on an error that converts to \<open>ExternError\<close>: the conversion itself may panic.\<close>

fun raise_into :: "(unit, ExternError) outcome \<Rightarrow> (ExternError, 'r) outcome" where
  "raise_into (Ok x) = Err x"
| "raise_into (Err _) = Panic ''unreachable''"
| "raise_into (Panic p) = Panic p"

definition convert_err ::
    "('e \<Rightarrow> (unit, ExternError) outcome) \<Rightarrow> ('s, 'e, 'r) action \<Rightarrow> ('s, ExternError, 'r) action" where
  "convert_err into f s = (case f s of
       (Ok v, s') \<Rightarrow> (Ok v, s') | (Err e, s') \<Rightarrow> (raise_into (into e), s') | (Panic p, s') \<Rightarrow> (Panic p, s'))"

definition chm_call_with_result_mut ::
    "('e \<Rightarrow> (unit, ExternError) outcome) \<Rightarrow> ('r \<Rightarrow> (unit, 'v) outcome) \<Rightarrow> 'v \<Rightarrow> u64 \<Rightarrow>
     ('a, 'e, 'r) action \<Rightarrow> 'a ConcurrentHandleMap \<Rightarrow> 'v ffi_return \<times> 'a ConcurrentHandleMap" where
  "chm_call_with_result_mut into into_ffi_value ffi_default h callback =
     call_with_result Ok into_ffi_value ffi_default
       (chm_get_mut_u64 (\<lambda>e. raise_into (handle_error_into e)) h (convert_err into callback))"

definition chm_call_with_result ::
    "('e \<Rightarrow> (unit, ExternError) outcome) \<Rightarrow> ('r \<Rightarrow> (unit, 'v) outcome) \<Rightarrow> 'v \<Rightarrow> u64 \<Rightarrow>
     ('a \<Rightarrow> ('e, 'r) outcome) \<Rightarrow> 'a ConcurrentHandleMap \<Rightarrow> 'v ffi_return \<times> 'a ConcurrentHandleMap" where
  "chm_call_with_result into into_ffi_value ffi_default h callback =
     chm_call_with_result_mut into into_ffi_value ffi_default h (shared callback)"

text \<open>The callbacks of the next two may panic but have no error to return.\<close>

definition chm_call_with_output ::
    "('r \<Rightarrow> (unit, 'v) outcome) \<Rightarrow> 'v \<Rightarrow> u64 \<Rightarrow> ('a \<Rightarrow> (HandleError, 'r) outcome) \<Rightarrow>
     'a ConcurrentHandleMap \<Rightarrow> 'v ffi_return \<times> 'a ConcurrentHandleMap" where
  "chm_call_with_output into_ffi_value ffi_default h callback =
     chm_call_with_result handle_error_into into_ffi_value ffi_default h callback"

definition chm_call_with_output_mut ::
    "('r \<Rightarrow> (unit, 'v) outcome) \<Rightarrow> 'v \<Rightarrow> u64 \<Rightarrow> ('a, HandleError, 'r) action \<Rightarrow>
     'a ConcurrentHandleMap \<Rightarrow> 'v ffi_return \<times> 'a ConcurrentHandleMap" where
  "chm_call_with_output_mut into_ffi_value ffi_default h callback =
     chm_call_with_result_mut handle_error_into into_ffi_value ffi_default h callback"

definition chm_insert_with_result ::
    "bool \<Rightarrow> ('e \<Rightarrow> (unit, ExternError) outcome) \<Rightarrow> (unit, 'e, 'a) action \<Rightarrow>
     'a ConcurrentHandleMap \<Rightarrow> u64 ffi_return \<times> 'a ConcurrentHandleMap" where
  "chm_insert_with_result dbg into constructor =
     call_with_result Ok (\<lambda>h. Ok (into_u64 h)) 0
       (abind (lift (fst (convert_err into constructor ())))
          (\<lambda>v. convert_err handle_error_into (chm_insert dbg v)))"

definition chm_insert_with_output ::
    "bool \<Rightarrow> (unit, HandleError, 'a) action \<Rightarrow>
     'a ConcurrentHandleMap \<Rightarrow> u64 ffi_return \<times> 'a ConcurrentHandleMap" where
  "chm_insert_with_output dbg constructor = chm_insert_with_result dbg handle_error_into constructor"

text \<open>The deleter that \<^verbatim>\<open>define_handle_map_deleter!\<close> expands to.\<close>

definition chm_destroy :: "bool \<Rightarrow> u64 \<Rightarrow> 'a ConcurrentHandleMap \<Rightarrow> unit ffi_return \<times> 'a ConcurrentHandleMap" where
  "chm_destroy dbg u = call_with_result handle_error_into Ok () (chm_delete_u64 dbg u)"

end
