(* ===== verification/FfiCallsCorrect.thy ===== *)
theory FfiCallsCorrect
  imports FfiCalls
begin

text \<open>
  Properties of the call boundary: what a caught call reports, that a panicking callback or
  constructor damages nothing but the value it ran on, and that a released handle is reported as
  such.
\<close>

section \<open>Updating a value in place\<close>

lemma get_mut_ok:
  assumes inv: "hm_inv m" and lk: "lookup m h = Some a"
  shows "\<exists>m'. get_mut h f m = (Ok (), m') \<and> hm_inv m' \<and> lookup m' = (lookup m)(h \<mapsto> f a) \<and>
     len m' = len m \<and> capacity m' = capacity m \<and> hm_id m' = hm_id m"
proof -
  let ?i = "unat (index h)"
  have s: "map_id h = hm_id m" "?i < length (entries m)" "entry_version (entries m ! ?i) = version h"
    "entry_state (entries m ! ?i) = Active a"
    using lk lookup_Some_iff [OF inv] by auto
  define e where "e = (entries m ! ?i)\<lparr>entry_state := Active (f a)\<rparr>"
  define m' where m': "m' = m\<lparr>entries := (entries m)[?i := e]\<rparr>"
  obtain fl where fl: "free_list_ok m fl" using inv by (auto simp: hm_inv_def)
  have "?i \<notin> set fl" using fl s(4) by (auto simp: free_list_ok_def)
  moreover have "occ_count ((entries m)[?i := e]) = occ_count (entries m)"
    using occ_count_update [OF s(2), of e] s(4) by (simp add: e_def)
  moreover have "{i. i < length (entries m) \<and> \<not> is_occupied (entry_state ((entries m)[?i := e] ! i))} =
      {i. i < length (entries m) \<and> \<not> is_occupied (entry_state (entries m ! i))}"
    using s by (auto simp: nth_list_update e_def)
  ultimately have "free_list_ok m' fl" using fl by (simp add: free_list_ok_def m')
  moreover have "entry_ok e" using hm_inv_entry [OF inv s(2)] s(4) by (simp add: entry_ok_def e_def)
  then have "list_all entry_ok (entries m')"
    using inv set_update_subset_insert [of "entries m" ?i e] by (fastforce simp: m' hm_inv_def list_all_iff)
  ultimately have inv': "hm_inv m'" using inv by (auto simp: hm_inv_def m')
  have "lookup m' = (lookup m)(h \<mapsto> f a)"
  proof
    fix k
    have "lookup m' k = Some u \<longleftrightarrow> ((lookup m)(h \<mapsto> f a)) k = Some u" for u
    proof (cases "index k = index h")
      case True
      then show ?thesis
        unfolding lookup_Some_iff [OF inv'] using s lookup_Some_iff [OF inv, of k u]
        by (cases k; cases h) (auto simp: m' e_def)
    next
      case False
      then have "k \<noteq> h" "unat (index k) \<noteq> ?i" by (auto simp: word_unat_eq_iff)
      then show ?thesis using lookup_Some_iff [OF inv', of k u] lookup_Some_iff [OF inv, of k u]
        by (simp add: m')
    qed
    then show "lookup m' k = ((lookup m)(h \<mapsto> f a)) k" by (metis option.exhaust)
  qed
  moreover have "check_handle m h = Ok ?i" using check_handle_lookup [OF inv, of h ?i] lk by simp
  then have "get_mut h f m = (Ok (), m')"
    using s(4) by (simp add: get_mut_def abind_lift put_st_def m' e_def)
  ultimately show ?thesis using inv' by (auto simp: m' len_def capacity_def)
qed

section \<open>Calls\<close>

lemma new_error_PANIC: "NUL \<notin> set p \<Longrightarrow> new_error PANIC p = Ok \<lparr>ext_code = PANIC, ext_message = Some p\<rparr>"
  by (simp add: new_error_def is_success_def PANIC_def rust_string_to_c_def)

lemma handle_error_into_Ok:
  "handle_error_into e = Ok \<lparr>ext_code = INVALID_HANDLE, ext_message = Some (handle_error_display e)\<rparr>"
  by (cases e) (simp_all add: handle_error_into_def new_error_def is_success_def INVALID_HANDLE_def
      rust_string_to_c_def NUL_def)

lemma snd_call_with_result [simp]: "snd (call_with_result into ffi dflt cb s) = snd (cb s)"
  by (simp add: call_with_result_def call_with_result_impl_def split: prod.splits)

section \<open>Histories of calls\<close>

text \<open>
  The calls a foreign client makes: insertions with a constructor that may fail or panic, calls
  with a callback that may fail or panic, and deletions.
\<close>

datatype 'a ffi_op =
    OpInsert "(ExternError, 'a) outcome"
  | OpCall u64 "('a, ExternError, u64) action"
  | OpDestroy u64

fun ffi_step :: "bool \<Rightarrow> 'a ffi_op \<Rightarrow> 'a ConcurrentHandleMap \<Rightarrow> 'a ConcurrentHandleMap" where
  "ffi_step dbg (OpInsert c) s = snd (chm_insert_with_result dbg Ok (lift c) s)"
| "ffi_step dbg (OpCall u f) s = snd (chm_call_with_result_mut Ok Ok 0 u f s)"
| "ffi_step dbg (OpDestroy u) s = snd (chm_destroy dbg u s)"

definition ffi_run :: "bool \<Rightarrow> 'a ffi_op list \<Rightarrow> 'a ConcurrentHandleMap \<Rightarrow> 'a ConcurrentHandleMap" where
  "ffi_run dbg ops s = fold (ffi_step dbg) ops s"

fun is_OpInsert :: "'a ffi_op \<Rightarrow> bool" where
  "is_OpInsert (OpInsert _) = True"
| "is_OpInsert _ = False"

definition inserts :: "'a ffi_op list \<Rightarrow> nat" where
  "inserts ops = length (filter is_OpInsert ops)"

fun op_target :: "'a ffi_op \<Rightarrow> u64 option" where
  "op_target (OpInsert _) = None"
| "op_target (OpCall u _) = Some u"
| "op_target (OpDestroy u) = Some u"

lemma convert_Ok [simp]: "convert_err Ok f = f"
  by (auto simp: convert_err_def fun_eq_iff split: prod.splits outcome.splits)

lemma step_insert: "ffi_step dbg (OpInsert c) s =
    (case c of Ok v \<Rightarrow> snd (chm_insert dbg v s) | _ \<Rightarrow> s)"
  by (auto simp: chm_insert_with_result_def abind_lift lift_def convert_err_def split: outcome.splits prod.splits)

lemma step_call: "ffi_step dbg (OpCall u f) s =
    (case from_u64 u of Ok h \<Rightarrow> snd (chm_get_mut (\<lambda>e. raise_into (handle_error_into e)) h f s) | _ \<Rightarrow> s)"
  by (auto simp: chm_call_with_result_mut_def chm_get_mut_u64_def split: outcome.splits)

lemma step_destroy: "ffi_step dbg (OpDestroy u) s =
    (case from_u64 u of Ok h \<Rightarrow> snd (chm_delete dbg h s) | _ \<Rightarrow> s)"
  by (auto simp: chm_destroy_def chm_delete_u64_def abind_lift split: outcome.splits)

lemma delete_simps:
  "hm_inv m \<Longrightarrow> lookup m h = Some v \<Longrightarrow>
     \<exists>m'. delete dbg h m = (Ok (), m') \<and> hm_inv m' \<and> lookup m' = (lookup m)(h := None) \<and>
       len m' \<le> len m \<and> capacity m' = capacity m"
  "hm_inv m \<Longrightarrow> lookup m h = None \<Longrightarrow> \<exists>e. delete dbg h m = (Err e, m) \<and> get m h = Err e"
   apply (drule (1) remove_ok [where dbg = dbg])
   apply (auto simp: delete_def abind_def ret_def len_def capacity_def) [1]
  apply (drule (1) remove_err [where dbg = dbg])
  apply (auto simp: delete_def abind_def)
  done

text \<open>What every step keeps, in a release build.\<close>

definition chm_ok :: "nat \<Rightarrow> 'a ConcurrentHandleMap \<Rightarrow> bool" where
  "chm_ok n s \<longleftrightarrow> hm_inv (chm_map s) \<and> capacity (chm_map s) < MAX_CAPACITY \<and> len (chm_map s) \<le> n \<and>
     \<not> chm_poisoned s"

lemma chm_ok_mono: "chm_ok n s \<Longrightarrow> n \<le> k \<Longrightarrow> chm_ok k s"
  by (simp add: chm_ok_def)

lemma chm_insert_ok:
  assumes "chm_ok n s" "n < 32765"
  shows "\<exists>h s'. chm_insert False v s = (Ok h, s') \<and> chm_ok (Suc n) s' \<and> lookup (chm_map s) h = None \<and>
     lookup (chm_map s') = (lookup (chm_map s))(h \<mapsto> \<lparr>mtx_value = v, mtx_poisoned = False\<rparr>)"
proof -
  let ?m = "chm_map s" and ?x = "\<lparr>mtx_value = v, mtx_poisoned = False\<rparr>"
  have i: "hm_inv ?m" and c: "capacity ?m < MAX_CAPACITY" and l: "len ?m \<le> n" and p: "\<not> chm_poisoned s"
    using assms(1) by (auto simp: chm_ok_def)
  have room: "has_room ?m" using has_room_iff [OF i c] l assms(2) by (simp add: MAX_CAPACITY_def)
  show ?thesis
  proof (cases rule: insert_hm_cases [OF i, of False ?x])
    case (1 h m')
    have "capacity m' < MAX_CAPACITY"
      using insert_capacity [OF i 1(2)] c by (auto simp: MAX_CAPACITY_def)
    then have "chm_ok (Suc n) (s\<lparr>chm_map := m', chm_poisoned := False\<rparr>)"
      using 1(3,7) l by (simp add: chm_ok_def len_def)
    then show ?thesis using 1 p by (auto simp: chm_insert_def with_write_def)
  next
    case 2
    then show ?thesis using room by simp
  next
    case 3
    then show ?thesis by (simp add: no_wrap_def)
  qed
qed

lemma chm_get_mut_live:
  assumes "chm_ok n s" "lookup (chm_map s) h = Some \<lparr>mtx_value = v, mtx_poisoned = False\<rparr>"
    "cb v = (r, v')"
  shows "\<exists>s'. chm_get_mut into h cb s = (r, s') \<and> chm_ok n s' \<and>
     lookup (chm_map s') = (lookup (chm_map s))(h \<mapsto> \<lparr>mtx_value = v', mtx_poisoned = is_Panic r\<rparr>)"
proof -
  have i: "hm_inv (chm_map s)" using assms(1) by (simp add: chm_ok_def)
  obtain m' where m': "get_mut h (\<lambda>_. \<lparr>mtx_value = v', mtx_poisoned = is_Panic r\<rparr>) (chm_map s) = (Ok (), m')"
    "hm_inv m'" "lookup m' = (lookup (chm_map s))(h \<mapsto> \<lparr>mtx_value = v', mtx_poisoned = is_Panic r\<rparr>)"
    "len m' = len (chm_map s)" "capacity m' = capacity (chm_map s)"
    using get_mut_ok [OF i assms(2), of "\<lambda>_. \<lparr>mtx_value = v', mtx_poisoned = is_Panic r\<rparr>"]
    by (elim exE conjE) rule
  have "get (chm_map s) h = Ok \<lparr>mtx_value = v, mtx_poisoned = False\<rparr>"
    using assms(2) by (simp add: get_lookup [OF i])
  then have "chm_get_mut into h cb s = (r, s\<lparr>chm_map := m'\<rparr>)"
    using assms(1,3) m'(1) by (simp add: chm_get_mut_def chm_ok_def)
  then show ?thesis using m' assms(1) by (auto simp: chm_ok_def)
qed

lemma chm_get_mut_poisoned:
  assumes "chm_ok n s" "lookup (chm_map s) h = Some x" "mtx_poisoned x"
  shows "chm_get_mut into h cb s = (Panic ''called Result::unwrap() on an Err value: PoisonError'', s)"
proof -
  have i: "hm_inv (chm_map s)" using assms(1) by (simp add: chm_ok_def)
  have "get (chm_map s) h = Ok x" using assms(2) by (simp add: get_lookup [OF i])
  then show ?thesis using assms(1,3) by (simp add: chm_get_mut_def chm_ok_def)
qed

lemma chm_get_mut_dead:
  assumes "chm_ok n s" "lookup (chm_map s) h = None"
  obtains e where "get (chm_map s) h = Err e" "chm_get_mut into h cb s = (into e, s)"
proof -
  have i: "hm_inv (chm_map s)" using assms(1) by (simp add: chm_ok_def)
  obtain e where e: "get (chm_map s) h = Err e"
    using get_errors [OF i, of h] assms(2) by (simp split: if_splits)
  then show ?thesis using that assms(1) by (simp add: chm_get_mut_def chm_ok_def)
qed

lemma chm_delete_live:
  assumes "chm_ok n s" "lookup (chm_map s) h = Some x"
  obtains s' where "chm_delete dbg h s = (Ok (), s')" "chm_ok n s'"
    "lookup (chm_map s') = (lookup (chm_map s))(h := None)"
proof -
  have i: "hm_inv (chm_map s)" using assms(1) by (simp add: chm_ok_def)
  obtain m' where m': "delete dbg h (chm_map s) = (Ok (), m')" "hm_inv m'"
    "lookup m' = (lookup (chm_map s))(h := None)" "len m' \<le> len (chm_map s)"
    "capacity m' = capacity (chm_map s)"
    using delete_simps(1) [OF i assms(2), of dbg] by (elim exE conjE) rule
  show ?thesis
    by (rule that [of "s\<lparr>chm_map := m'\<rparr>"])
      (use m' assms(1) in \<open>auto simp: chm_ok_def chm_delete_def with_write_def\<close>)
qed

lemma chm_delete_dead:
  assumes "chm_ok n s" "lookup (chm_map s) h = None"
  obtains e where "chm_delete dbg h s = (Err e, s)" "get (chm_map s) h = Err e"
proof -
  have i: "hm_inv (chm_map s)" using assms(1) by (simp add: chm_ok_def)
  obtain e where e: "delete dbg h (chm_map s) = (Err e, chm_map s)" "get (chm_map s) h = Err e"
    using delete_simps(2) [OF i assms(2), of dbg] by (elim exE conjE) rule
  show ?thesis
    by (rule that [of e]) (use e assms(1) in \<open>auto simp: chm_ok_def chm_delete_def with_write_def\<close>)
qed

lemma chm_get_mut_frame:
  assumes "chm_ok n s"
  shows "chm_ok n (snd (chm_get_mut into k f s)) \<and>
     (k \<noteq> h \<longrightarrow> lookup (chm_map (snd (chm_get_mut into k f s))) h = lookup (chm_map s) h)"
proof (cases "lookup (chm_map s) k")
  case None
  then show ?thesis by (rule chm_get_mut_dead [OF assms, of _ into f]) (simp add: assms)
next
  case (Some y)
  show ?thesis
  proof (cases "mtx_poisoned y")
    case True
    then show ?thesis using chm_get_mut_poisoned [OF assms Some True, of into f] assms by simp
  next
    case False
    obtain r v' where f: "f (mtx_value y) = (r, v')" by fastforce
    have "lookup (chm_map s) k = Some \<lparr>mtx_value = mtx_value y, mtx_poisoned = False\<rparr>"
      using Some False by simp
    from chm_get_mut_live [where cb = f and v = "mtx_value y", OF assms this f, where into = into]
    show ?thesis by (elim exE conjE) simp
  qed
qed

lemma chm_delete_frame:
  assumes "chm_ok n s"
  shows "chm_ok n (snd (chm_delete dbg k s)) \<and>
     (k \<noteq> h \<longrightarrow> lookup (chm_map (snd (chm_delete dbg k s))) h = lookup (chm_map s) h)"
proof (cases "lookup (chm_map s) k")
  case None
  then show ?thesis by (rule chm_delete_dead [OF assms, of _ dbg]) (simp add: assms)
next
  case (Some y)
  then show ?thesis by (rule chm_delete_live [OF assms, of _ _ dbg]) simp
qed

lemma ffi_step_ok:
  assumes ok: "chm_ok n s" and room: "is_OpInsert op \<longrightarrow> n < 32765"
  shows "chm_ok (n + (if is_OpInsert op then 1 else 0)) (ffi_step False op s) \<and>
    (op_target op \<noteq> Some (into_u64 h) \<longrightarrow> lookup (chm_map s) h = Some x \<longrightarrow>
       lookup (chm_map (ffi_step False op s)) h = Some x)"
proof (cases op)
  case (OpInsert c)
  then have n: "n < 32765" using room by simp
  show ?thesis
  proof (cases c)
    case (Ok v)
    from chm_insert_ok [OF ok n, of v] show ?thesis unfolding OpInsert Ok step_insert
      by (elim exE conjE) auto
  qed (use chm_ok_mono [OF ok, of "Suc n"] OpInsert in \<open>auto simp: step_insert simp del: ffi_step.simps\<close>)
next
  case (OpCall u f)
  show ?thesis
  proof (cases "from_u64 u")
    case (Ok k)
    then have "u = into_u64 k" by (simp add: from_u64_Ok_iff)
    then show ?thesis using chm_get_mut_frame [OF ok, where k = k and h = h and f = f and
        into = "\<lambda>e. raise_into (handle_error_into e)"] OpCall Ok
      by (auto simp: step_call simp del: ffi_step.simps)
  qed (use ok OpCall in \<open>auto simp: step_call simp del: ffi_step.simps\<close>)
next
  case (OpDestroy u)
  show ?thesis
  proof (cases "from_u64 u")
    case (Ok k)
    then have "u = into_u64 k" by (simp add: from_u64_Ok_iff)
    then show ?thesis using chm_delete_frame [OF ok, where k = k and h = h and dbg = False] OpDestroy Ok
      by (auto simp: step_destroy simp del: ffi_step.simps)
  qed (use ok OpDestroy in \<open>auto simp: step_destroy simp del: ffi_step.simps\<close>)
qed

lemma ffi_run_ok:
  assumes "chm_ok n s" "n + inserts ops \<le> 32765"
  shows "chm_ok (n + inserts ops) (ffi_run False ops s) \<and>
    ((\<forall>op \<in> set ops. op_target op \<noteq> Some (into_u64 h)) \<longrightarrow> lookup (chm_map s) h = Some x \<longrightarrow>
       lookup (chm_map (ffi_run False ops s)) h = Some x)"
  using assms
proof (induction ops arbitrary: n s)
  case (Cons op ops)
  let ?k = "n + (if is_OpInsert op then 1 else 0)"
  have "is_OpInsert op \<longrightarrow> n < 32765" "?k + inserts ops \<le> 32765" "?k + inserts ops = n + inserts (op # ops)"
    using Cons.prems(2) by (auto simp: inserts_def)
  with ffi_step_ok [OF Cons.prems(1), of op h x] Cons.IH [of ?k "ffi_step False op s"]
  show ?case by (auto simp: ffi_run_def simp del: ffi_step.simps)
qed (simp add: ffi_run_def inserts_def)

lemma chm_new_ok:
  assumes "chm_new c = (Ok s, c')" shows "chm_ok 0 s"
proof -
  obtain m where m: "new_with_capacity MIN_CAPACITY c = (Ok m, c')" "s = \<lparr>chm_map = m, chm_poisoned = False\<rparr>"
    using assms by (auto simp: chm_new_def new_def ret_def elim!: abind_OkE)
  have "m = \<lparr>hm_id = ucast (c + 1), first_free = 0, num_entries = 0, entries = fresh_entries 3\<rparr>"
    using m(1) by (subst (asm) new_with_capacity_eq) (auto simp: MIN_CAPACITY_def MAX_CAPACITY_def)
  then show ?thesis using new_inv(1) [OF m(1)] m(2)
    by (simp add: chm_ok_def len_def capacity_def MAX_CAPACITY_def)
qed

lemma ffi_reach_ok:
  "chm_new c = (Ok s, c') \<Longrightarrow> inserts ops \<le> 32765 \<Longrightarrow> chm_ok (inserts ops) (ffi_run False ops s)"
  using ffi_run_ok [OF chm_new_ok, of c s c' ops] by simp

lemma chm_ok_get: "chm_ok n s \<Longrightarrow> get (chm_map s) h = Ok v \<longleftrightarrow> lookup (chm_map s) h = Some v"
  by (simp add: chm_ok_def get_lookup)

lemma chm_live_decodes:
  "chm_ok n s \<Longrightarrow> lookup (chm_map s) h = Some x \<Longrightarrow> from_u64 (into_u64 h) = Ok h"
  using lookup_version(1) [of "chm_map s" h x] by (simp add: chm_ok_def from_u64_into_u64)

section \<open>Properties\<close>

text \<open>A concrete map and handle for the witnesses.\<close>

definition chm4 :: "nat ConcurrentHandleMap" where
  "chm4 = \<lparr>chm_map = \<lparr>hm_id = 1, first_free = 0, num_entries = 0, entries = fresh_entries 3\<rparr>,
     chm_poisoned = False\<rparr>"

definition handle0 :: Handle where
  "handle0 = \<lparr>map_id = 1, version = 2, index = 0\<rparr>"

lemma new_chm4: "chm_new 0 = (Ok chm4, 1)"
  by (simp add: chm_new_def new_def abind_def [of "new_with_capacity _"] new_with_capacity_eq
      MIN_CAPACITY_def MAX_CAPACITY_def ret_def chm4_def)

lemma inserts_chm4: "inserts [OpInsert (Ok (5 :: nat))] \<le> 32765"
  by (simp add: inserts_def)

lemma get_chm4: "get (chm_map (ffi_run False [OpInsert (Ok 5)] chm4)) handle0 =
    Ok \<lparr>mtx_value = 5, mtx_poisoned = False\<rparr>"
  by (simp add: ffi_run_def step_insert chm_insert_def with_write_def chm4_def handle0_def hm_eval
      del: ffi_step.simps)



text \<open>
  A callback that panics costs its own value only: the call reports the panic with its message
  and the default value, every later call on that handle reports a panic as well without running
  its callback, and the handle can still be destroyed.
\<close>

theorem panicking_callback:
  fixes into :: "'e \<Rightarrow> (unit, ExternError) outcome"
  assumes "chm_new c = (Ok s0, c')" "inserts ops \<le> 32765" "s = ffi_run False ops s0"
    and "get (chm_map s) h = Ok \<lparr>mtx_value = v, mtx_poisoned = False\<rparr>"
    and "cb v = (Panic p, v')" "NUL \<notin> set p"
  shows "\<exists>s'. chm_call_with_result_mut into ffi d (into_u64 h) cb s =
      (Returned \<lparr>ext_code = PANIC, ext_message = Some p\<rparr> d, s') \<and>
    (\<exists>m. \<forall>cb'. chm_call_with_result_mut into ffi d (into_u64 h) cb' s' =
      (Returned \<lparr>ext_code = PANIC, ext_message = m\<rparr> d, s')) \<and>
    fst (chm_destroy False (into_u64 h) s') = Returned success ()"
proof -
  have ok: "chm_ok (inserts ops) s" unfolding assms(3) by (rule ffi_reach_ok [OF assms(1,2)])
  have l: "lookup (chm_map s) h = Some \<lparr>mtx_value = v, mtx_poisoned = False\<rparr>"
    using assms(4) chm_ok_get [OF ok] by simp
  have cb: "convert_err into cb v = (Panic p, v')" by (simp add: convert_err_def assms(5))
  obtain s' where s': "chm_get_mut (\<lambda>e. raise_into (handle_error_into e)) h (convert_err into cb) s = (Panic p, s')"
    "chm_ok (inserts ops) s'" "lookup (chm_map s') h = Some \<lparr>mtx_value = v', mtx_poisoned = True\<rparr>"
    using chm_get_mut_live [where cb = "convert_err into cb" and v = v, OF ok l cb] by fastforce
  note dec = chm_live_decodes [OF ok l]
  have p: "NUL \<notin> set ''called Result::unwrap() on an Err value: PoisonError''" by (simp add: NUL_def)
  have 1: "chm_call_with_result_mut into ffi d (into_u64 h) cb s =
      (Returned \<lparr>ext_code = PANIC, ext_message = Some p\<rparr> d, s')"
    using s'(1) dec assms(6)
    by (simp add: new_error_PANIC chm_call_with_result_mut_def call_with_result_def call_with_result_impl_def chm_get_mut_u64_def)
  have 2: "chm_call_with_result_mut into ffi d (into_u64 h) cb' s' =
      (Returned \<lparr>ext_code = PANIC, ext_message = Some ''called Result::unwrap() on an Err value: PoisonError''\<rparr> d, s')" for cb'
    using dec p by (simp add: chm_get_mut_poisoned [OF s'(2,3)] new_error_PANIC chm_call_with_result_mut_def call_with_result_def call_with_result_impl_def chm_get_mut_u64_def)
  obtain s2 where "chm_delete False h s' = (Ok (), s2)"
    by (rule chm_delete_live [OF s'(2,3), where dbg = False])
  then have 3: "fst (chm_destroy False (into_u64 h) s') = Returned success ()"
    using dec by (simp add: chm_destroy_def chm_delete_u64_def abind_lift call_with_result_def call_with_result_impl_def)
  show ?thesis using 1 2 3 by blast
qed

theorem panicking_callback_witness:
  "\<exists>s'. chm_call_with_result_mut Ok Ok 0 (into_u64 handle0) (panic ''x'') (ffi_run False [OpInsert (Ok 5)] chm4) =
      (Returned \<lparr>ext_code = PANIC, ext_message = Some ''x''\<rparr> (0 :: u64), s') \<and>
     fst (chm_destroy False (into_u64 handle0) s') = Returned success ()"
proof -
  have "panic ''x'' (5 :: nat) = ((Panic ''x'', 5) :: (ExternError, u64) outcome \<times> nat)" "NUL \<notin> set ''x''"
    by (simp_all add: panic_def NUL_def)
  from panicking_callback [where v = 5 and cb = "panic ''x''", OF new_chm4 inserts_chm4 refl get_chm4 this,
      where into = Ok and ffi = Ok and d = "0 :: u64"]
  show ?thesis by metis
qed

text \<open>
  Use after destruction is reported and harmless: destroying a live handle succeeds, and then
  every call on the handle and a second destruction report an invalid handle (code -1000), return
  the default value, run no callback and leave the map as it is.
\<close>

theorem use_after_destroy:
  fixes into :: "'e \<Rightarrow> (unit, ExternError) outcome" and ffi :: "'r \<Rightarrow> (unit, 'v) outcome"
  assumes "chm_new c = (Ok s0, c')" "inserts ops \<le> 32765" "s = ffi_run False ops s0"
    and "get (chm_map s) h = Ok x"
  shows "\<exists>s' m. chm_destroy False (into_u64 h) s = (Returned success (), s') \<and>
    (\<forall>cb. chm_call_with_result_mut into ffi d (into_u64 h) cb s' =
        (Returned \<lparr>ext_code = -1000, ext_message = m\<rparr> d, s')) \<and>
    chm_destroy False (into_u64 h) s' = (Returned \<lparr>ext_code = -1000, ext_message = m\<rparr> (), s')"
proof -
  have ok: "chm_ok (inserts ops) s" unfolding assms(3) by (rule ffi_reach_ok [OF assms(1,2)])
  have l: "lookup (chm_map s) h = Some x" using assms(4) chm_ok_get [OF ok] by simp
  note dec = chm_live_decodes [OF ok l]
  obtain s' where s': "chm_delete False h s = (Ok (), s')" "chm_ok (inserts ops) s'" "lookup (chm_map s') h = None"
    by (rule chm_delete_live [OF ok l, where dbg = False]) simp
  obtain e where e: "chm_delete False h s' = (Err e, s')" "get (chm_map s') h = Err e"
    by (rule chm_delete_dead [OF s'(2,3), where dbg = False])
  have g: "chm_get_mut (\<lambda>e. raise_into (handle_error_into e)) h cb s' = (raise_into (handle_error_into e), s')"
    for cb :: "('a, ExternError, 'r) action"
    using e(2) s'(2) by (simp add: chm_get_mut_def chm_ok_def)
  show ?thesis
    using s'(1) e(1) g dec
    by (intro exI [of _ s'] exI [of _ "Some (handle_error_display e)"])
      (simp add: chm_destroy_def chm_delete_u64_def abind_lift call_with_result_def call_with_result_impl_def
        chm_call_with_result_mut_def chm_get_mut_u64_def handle_error_into_Ok INVALID_HANDLE_def)
qed

theorem use_after_destroy_witness:
  "\<exists>s' m. chm_destroy False (into_u64 handle0) (ffi_run False [OpInsert (Ok 5)] chm4) = (Returned success (), s') \<and>
     chm_call_with_result_mut (Ok :: ExternError \<Rightarrow> _) Ok (0 :: u64) (into_u64 handle0) (\<lambda>n. (Ok 1, n)) s' =
       (Returned \<lparr>ext_code = -1000, ext_message = m\<rparr> 0, s')"
  using use_after_destroy [OF new_chm4 inserts_chm4 refl get_chm4,
      where into = "Ok :: ExternError \<Rightarrow> _" and ffi = Ok and d = "0 :: u64"] by metis

end
