(* ===== verification/SyncTypes.thy ===== *)
theory SyncTypes
  imports Prelude
begin

text \<open>
  The types the parts of \<^verbatim>\<open>components/sync15\<close> share: server timestamps
  (\<^verbatim>\<open>util.rs\<close>), errors (\<^verbatim>\<open>error.rs\<close>), HTTP status codes
  (\<^verbatim>\<open>viaduct/src/lib.rs\<close>), the server's configuration and collection info
  (\<^verbatim>\<open>request.rs\<close>) and the records of \<^verbatim>\<open>meta/global\<close> and
  \<^verbatim>\<open>crypto/keys\<close> (\<^verbatim>\<open>record_types.rs\<close>).

  A Rust string is the list of its UTF-8 bytes and a byte vector is a string as well, so that
  \<^verbatim>\<open>len()\<close> is \<open>length\<close>. A \<^verbatim>\<open>ServerTimestamp\<close> wraps a 64-bit float; the server
  sends decimals with two places, and the model computes with the rational number.
\<close>

type_synonym bytes = string

section \<open>Server timestamps\<close>

type_synonym ServerTimestamp = rat

definition SERVER_EPOCH :: ServerTimestamp where
  "SERVER_EPOCH = 0"

definition timestamp_from :: "rat \<Rightarrow> ('e, ServerTimestamp) outcome" where
  "timestamp_from ts = (if ts \<ge> 0 then Ok ts else Panic ''assertion failed: ts >= 0.0'')"

text \<open>A \<^verbatim>\<open>Duration\<close> is its seconds and its nanoseconds within the second.\<close>

record Duration =
  dur_secs :: nat
  dur_nanos :: nat

definition duration_since :: "ServerTimestamp \<Rightarrow> ServerTimestamp \<Rightarrow> Duration option" where
  "duration_since self other =
     (let delta = self - other in
      if delta < 0 then None
      else let secs = \<lfloor>delta\<rfloor>; nanos = \<lfloor>(delta - of_int secs) * 1000000000\<rfloor>
           in Some \<lparr>dur_secs = nat secs, dur_nanos = nat nanos\<rparr>)"

text \<open>\<^verbatim>\<open>as u64\<close> of a float saturates.\<close>

definition as_u64 :: "rat \<Rightarrow> nat" where
  "as_u64 f = min (2 ^ 64 - 1) (nat \<lfloor>f\<rfloor>)"

definition as_millis :: "ServerTimestamp \<Rightarrow> nat" where
  "as_millis ts = as_u64 (ts * 1000)"

section \<open>Errors\<close>

text \<open>
  The variants that wrap an error of another crate carry a description of it.
\<close>

datatype ErrorKind =
    BadKeyLength string usize usize
  | HmacMismatch
  | TokenserverHttpError nat
  | StorageHttpError nat string
  | BackoffError nat
  | RecordTooLargeError
  | BatchInterrupted
  | RecordUploadFailed
  | StorageResetError
  | UnacceptableUrl string
  | MissingServerTimestamp
  | ServerBatchProblem string
  | SetupRace
  | ClientUpgradeRequired
  | SetupRequired
  | StoreError string
  | CryptoError string
  | OpensslError string
  | Base64Decode string
  | JsonError string
  | BadCleartextUtf8 string
  | RequestError string
  | UnexpectedStatus nat
  | HawkError string
  | MalformedUrl string
  | Interrupted

fun is_not_found :: "ErrorKind \<Rightarrow> bool" where
  "is_not_found (StorageHttpError code _) = (code = 404)"
| "is_not_found _ = False"

section \<open>Status codes\<close>

definition is_success_code :: "nat \<Rightarrow> bool" where
  "is_success_code c \<longleftrightarrow> 200 \<le> c \<and> c < 300"

definition is_client_error_code :: "nat \<Rightarrow> bool" where
  "is_client_error_code c \<longleftrightarrow> 400 \<le> c \<and> c < 500"

definition is_server_error_code :: "nat \<Rightarrow> bool" where
  "is_server_error_code c \<longleftrightarrow> 500 \<le> c \<and> c < 600"

abbreviation "ACCEPTED \<equiv> (202 :: nat)"
abbreviation "UNAUTHORIZED \<equiv> (401 :: nat)"
abbreviation "NOT_FOUND \<equiv> (404 :: nat)"
abbreviation "PRECONDITION_FAILED \<equiv> (412 :: nat)"

section \<open>Server configuration and collection info\<close>

record InfoConfiguration =
  max_request_bytes :: usize
  max_post_records :: usize
  max_post_bytes :: usize
  max_total_records :: usize
  max_total_bytes :: usize
  max_record_payload_bytes :: usize

definition default_max_request_bytes :: usize where
  "default_max_request_bytes = 260 * 1024"

definition default_max_record_payload_bytes :: usize where
  "default_max_record_payload_bytes = 256 * 1024"

definition info_configuration_default :: InfoConfiguration where
  "info_configuration_default =
     \<lparr>max_request_bytes = default_max_request_bytes,
      max_post_records = 2 ^ 64 - 1,
      max_post_bytes = 2 ^ 64 - 1,
      max_total_records = 2 ^ 64 - 1,
      max_total_bytes = 2 ^ 64 - 1,
      max_record_payload_bytes = default_max_record_payload_bytes\<rparr>"

type_synonym InfoCollections = "string \<rightharpoonup> ServerTimestamp"

section \<open>Known records\<close>

text \<open>
  A \<^verbatim>\<open>HashMap\<close> that the code only looks up is a map; one that it iterates over is an
  association list with distinct keys, in the order of the iteration.
\<close>

record MetaGlobalEngine =
  eng_version :: usize
  eng_sync_id :: string

record MetaGlobalRecord =
  mg_sync_id :: string
  mg_storage_version :: usize
  mg_engines :: "string \<rightharpoonup> MetaGlobalEngine"
  mg_declined :: "string list"

record CryptoKeysRecord =
  ck_id :: string
  ck_collection :: string
  ck_default :: "string \<times> string"
  ck_collections :: "(string \<times> (string \<times> string)) list"

section \<open>Lemmas on timestamps\<close>

lemma as_millis_mono: "a \<le> b \<Longrightarrow> as_millis a \<le> as_millis b"
  unfolding as_millis_def as_u64_def by (intro min.mono nat_mono floor_mono mult_right_mono) auto

lemma duration_since_None_iff: "duration_since a b = None \<longleftrightarrow> a < b"
  by (simp add: duration_since_def Let_def)

end
