(* ===== verification/KeyBundle.thy ===== *)
theory KeyBundle
  imports SyncTypes
begin

text \<open>
  Key bundles (\<^verbatim>\<open>components/sync15/src/key_bundle.rs\<close>). The cryptographic primitives,
  base64, base16, UTF-8 validation and the random generator come from other crates and from the
  standard library; they are the fields of a record \<open>Crypto\<close> that the operations take as an
  argument. \<open>crypto_laws\<close> is what the code relies on: the encodings and the cipher can be
  undone and a signature made with a key verifies with it.
\<close>

record 'w Crypto =
  b64_encode :: "bytes \<Rightarrow> string"
  b64_decode :: "string \<Rightarrow> bytes option"
  b64url_decode :: "string \<Rightarrow> bytes option"
  b16_encode :: "bytes \<Rightarrow> string"
  b16_decode_slice :: "string \<Rightarrow> (unit, bytes) outcome"
  hmac_sign :: "bytes \<Rightarrow> bytes \<Rightarrow> (string, bytes) outcome"
  hmac_verify :: "bytes \<Rightarrow> bytes \<Rightarrow> bytes \<Rightarrow> (string, unit) outcome"
  aes_encrypt :: "bytes \<Rightarrow> bytes \<Rightarrow> bytes \<Rightarrow> (string, bytes) outcome"
  aes_decrypt :: "bytes \<Rightarrow> bytes \<Rightarrow> bytes \<Rightarrow> (string, bytes) outcome"
  utf8_valid :: "bytes \<Rightarrow> bool"
  rand_fill :: "usize \<Rightarrow> ('w, string, bytes) action"

definition crypto_laws :: "'w Crypto \<Rightarrow> bool" where
  "crypto_laws c \<longleftrightarrow>
     (\<forall>b. b64_decode c (b64_encode c b) = Some b) \<and>
     (\<forall>b. length b = 32 \<longrightarrow> b16_decode_slice c (b16_encode c b) = Ok b) \<and>
     (\<forall>k d s. hmac_sign c k d = Ok s \<longrightarrow> length s = 32 \<and> hmac_verify c k d s = Ok ()) \<and>
     (\<forall>k iv d e. aes_encrypt c k iv d = Ok e \<longrightarrow> aes_decrypt c k iv e = Ok d)"

record KeyBundle =
  enc_key :: bytes
  mac_key :: bytes

definition key_bundle_new :: "bytes \<Rightarrow> bytes \<Rightarrow> (ErrorKind, KeyBundle) outcome" where
  "key_bundle_new enc mac =
     (if length enc \<noteq> 32 then Err (BadKeyLength ''enc_key'' (length enc) 32)
      else if length mac \<noteq> 32 then Err (BadKeyLength ''mac_key'' (length mac) 32)
      else Ok \<lparr>enc_key = enc, mac_key = mac\<rparr>)"

definition from_ksync_bytes :: "bytes \<Rightarrow> (ErrorKind, KeyBundle) outcome" where
  "from_ksync_bytes ksync =
     (if length ksync \<noteq> 64 then Err (BadKeyLength ''kSync'' (length ksync) 64)
      else Ok \<lparr>enc_key = take 32 ksync, mac_key = take 32 (drop 32 ksync)\<rparr>)"

text \<open>\<open>?\<close> on an action of another crate, its error wrapped in one of ours.\<close>

definition try_as :: "('e \<Rightarrow> 'f) \<Rightarrow> ('w, 'e, 'a) action \<Rightarrow> ('w, 'f, 'a) action" where
  "try_as f m w = (case m w of (r, w') \<Rightarrow> (omap_err f r, w'))"

definition key_bundle_new_random :: "'w Crypto \<Rightarrow> ('w, ErrorKind, KeyBundle) action" where
  "key_bundle_new_random c =
     abind (try_as CryptoError (rand_fill c 64)) (\<lambda>buffer. lift (from_ksync_bytes buffer))"

definition from_ksync_base64 :: "'w Crypto \<Rightarrow> string \<Rightarrow> (ErrorKind, KeyBundle) outcome" where
  "from_ksync_base64 c ksync =
     obind (ok_or (Base64Decode ksync) (b64url_decode c ksync)) from_ksync_bytes"

definition from_base64 :: "'w Crypto \<Rightarrow> string \<Rightarrow> string \<Rightarrow> (ErrorKind, KeyBundle) outcome" where
  "from_base64 c enc mac =
     obind (ok_or (Base64Decode enc) (b64_decode c enc)) (\<lambda>enc_bytes.
     obind (ok_or (Base64Decode mac) (b64_decode c mac)) (\<lambda>mac_bytes.
     key_bundle_new enc_bytes mac_bytes))"

definition encryption_key :: "KeyBundle \<Rightarrow> bytes" where
  "encryption_key k = enc_key k"

definition hmac_key :: "KeyBundle \<Rightarrow> bytes" where
  "hmac_key k = mac_key k"

definition to_b64_array :: "'w Crypto \<Rightarrow> KeyBundle \<Rightarrow> string \<times> string" where
  "to_b64_array c k = (b64_encode c (enc_key k), b64_encode c (mac_key k))"

definition hmac :: "'w Crypto \<Rightarrow> KeyBundle \<Rightarrow> bytes \<Rightarrow> (ErrorKind, bytes) outcome" where
  "hmac c k ciphertext = omap_err CryptoError (hmac_sign c (hmac_key k) ciphertext)"

definition hmac_string :: "'w Crypto \<Rightarrow> KeyBundle \<Rightarrow> bytes \<Rightarrow> (ErrorKind, string) outcome" where
  "hmac_string c k ciphertext = omap (b16_encode c) (hmac c k ciphertext)"

definition verify_hmac :: "'w Crypto \<Rightarrow> KeyBundle \<Rightarrow> bytes \<Rightarrow> string \<Rightarrow> (ErrorKind, unit) outcome" where
  "verify_hmac c k expected_hmac ciphertext_base64 =
     omap_err CryptoError (hmac_verify c (hmac_key k) ciphertext_base64 expected_hmac)"

definition verify_hmac_string ::
    "'w Crypto \<Rightarrow> KeyBundle \<Rightarrow> string \<Rightarrow> string \<Rightarrow> (ErrorKind, unit) outcome" where
  "verify_hmac_string c k expected_hmac ciphertext_base64 =
     (case b16_decode_slice c expected_hmac of
        Ok decoded_hmac \<Rightarrow> verify_hmac c k decoded_hmac ciphertext_base64
      | Err _ \<Rightarrow> Err HmacMismatch
      | Panic p \<Rightarrow> Panic p)"

definition kb_decrypt :: "'w Crypto \<Rightarrow> KeyBundle \<Rightarrow> bytes \<Rightarrow> bytes \<Rightarrow> (ErrorKind, string) outcome" where
  "kb_decrypt c k ciphertext iv =
     obind (omap_err OpensslError (aes_decrypt c (encryption_key k) iv ciphertext)) (\<lambda>cleartext_bytes.
     if utf8_valid c cleartext_bytes then Ok cleartext_bytes
     else Err (BadCleartextUtf8 cleartext_bytes))"

definition encrypt_bytes_with_iv ::
    "'w Crypto \<Rightarrow> KeyBundle \<Rightarrow> bytes \<Rightarrow> bytes \<Rightarrow> (ErrorKind, bytes) outcome" where
  "encrypt_bytes_with_iv c k cleartext_bytes iv =
     omap_err OpensslError (aes_encrypt c (encryption_key k) iv cleartext_bytes)"

definition encrypt_bytes_rand_iv ::
    "'w Crypto \<Rightarrow> KeyBundle \<Rightarrow> bytes \<Rightarrow> ('w, ErrorKind, bytes \<times> bytes) action" where
  "encrypt_bytes_rand_iv c k cleartext_bytes =
     abind (try_as CryptoError (rand_fill c 16)) (\<lambda>iv.
     abind (lift (encrypt_bytes_with_iv c k cleartext_bytes iv)) (\<lambda>ciphertext.
     ret (ciphertext, iv)))"

section \<open>Lemmas\<close>

definition kb_ok :: "KeyBundle \<Rightarrow> bool" where
  "kb_ok k \<longleftrightarrow> length (enc_key k) = 32 \<and> length (mac_key k) = 32"

lemma key_bundle_new_Ok: "key_bundle_new e m = Ok k \<Longrightarrow> kb_ok k"
  by (auto simp: key_bundle_new_def kb_ok_def split: if_splits)

lemma from_ksync_Ok: "from_ksync_bytes b = Ok k \<Longrightarrow> kb_ok k"
  by (auto simp: from_ksync_bytes_def kb_ok_def split: if_splits)

lemma try_as_Ok_iff: "try_as f m w = (Ok a, w') \<longleftrightarrow> m w = (Ok a, w')"
  by (cases "m w"; cases "fst (m w)") (auto simp: try_as_def)

lemma new_random_ok: "key_bundle_new_random c w = (Ok k, w') \<Longrightarrow> kb_ok k"
  by (auto simp: key_bundle_new_random_def lift_def elim!: abind_OkE dest: from_ksync_Ok)

lemma crypto_lawsD:
  assumes "crypto_laws c"
  shows "b64_decode c (b64_encode c b) = Some b"
    "length b = 32 \<Longrightarrow> b16_decode_slice c (b16_encode c b) = Ok b"
    "hmac_sign c k d = Ok s \<Longrightarrow> length s = 32 \<and> hmac_verify c k d s = Ok ()"
    "aes_encrypt c k iv d = Ok e \<Longrightarrow> aes_decrypt c k iv e = Ok d"
  using assms by (auto simp: crypto_laws_def)

lemma b64_roundtrip:
  assumes "crypto_laws c" "kb_ok k" "to_b64_array c k = (e, m)"
  shows "from_base64 c e m = Ok k"
  using assms(2,3)
  by (auto simp: to_b64_array_def from_base64_def crypto_lawsD(1) [OF assms(1)] key_bundle_new_def kb_ok_def)

lemma hmac_roundtrip:
  assumes "crypto_laws c" "hmac_string c k d = Ok s" shows "verify_hmac_string c k s d = Ok ()"
proof -
  obtain g where g: "hmac_sign c (hmac_key k) d = Ok g" "s = b16_encode c g"
    using assms(2) by (cases "hmac_sign c (hmac_key k) d") (auto simp: hmac_string_def hmac_def)
  then show ?thesis using crypto_lawsD(2,3) [OF assms(1)]
    by (simp add: verify_hmac_string_def verify_hmac_def)
qed

lemma cipher_roundtrip:
  assumes "crypto_laws c" "encrypt_bytes_with_iv c k d iv = Ok e" "utf8_valid c d"
  shows "kb_decrypt c k e iv = Ok d"
proof -
  have "aes_encrypt c (encryption_key k) iv d = Ok e"
    using assms(2) by (cases "aes_encrypt c (encryption_key k) iv d") (auto simp: encrypt_bytes_with_iv_def)
  then show ?thesis using crypto_lawsD(4) [OF assms(1)] assms(3) by (simp add: kb_decrypt_def)
qed

end
