(* ===== verification/BsoRecord.thy ===== *)
theory BsoRecord
  imports KeyBundle
begin

text \<open>
  Basic storage objects (\<^verbatim>\<open>components/sync15/src/bso_record.rs\<close>): the envelope, the
  cleartext payload with its automatic fields, encryption and decryption. The JSON text of a
  payload is made by \<^verbatim>\<open>serde_json\<close>, so its printer and parser are arguments.
\<close>

section \<open>Envelopes\<close>

record 'a BsoRecord =
  bso_id :: string
  bso_collection :: string
  bso_modified :: ServerTimestamp
  bso_sortindex :: "int option"
  bso_ttl :: "int option"
  bso_payload :: 'a

definition map_payload :: "('a \<Rightarrow> 'b) \<Rightarrow> 'a BsoRecord \<Rightarrow> 'b BsoRecord" where
  "map_payload mapper r =
     \<lparr>bso_id = bso_id r, bso_collection = bso_collection r, bso_modified = bso_modified r,
      bso_sortindex = bso_sortindex r, bso_ttl = bso_ttl r, bso_payload = mapper (bso_payload r)\<rparr>"

definition with_payload :: "'b \<Rightarrow> 'a BsoRecord \<Rightarrow> 'b BsoRecord" where
  "with_payload p r = map_payload (\<lambda>_. p) r"

definition new_record :: "string \<Rightarrow> string \<Rightarrow> 'a \<Rightarrow> 'a BsoRecord" where
  "new_record i coll p =
     \<lparr>bso_id = i, bso_collection = coll, bso_modified = 0, bso_sortindex = None, bso_ttl = None,
      bso_payload = p\<rparr>"

definition transpose_opt :: "'a option BsoRecord \<Rightarrow> 'a BsoRecord option" where
  "transpose_opt r = (case bso_payload r of Some p \<Rightarrow> Some (with_payload p r) | None \<Rightarrow> None)"

definition transpose_res :: "('e, 'a) outcome BsoRecord \<Rightarrow> ('e, 'a BsoRecord) outcome" where
  "transpose_res r = (case bso_payload r of
       Ok p \<Rightarrow> Ok (with_payload p r) | Err e \<Rightarrow> Err e | Panic p \<Rightarrow> Panic p)"

definition try_map_payload :: "('a \<Rightarrow> ('e, 'b) outcome) \<Rightarrow> 'a BsoRecord \<Rightarrow> ('e, 'b BsoRecord) outcome" where
  "try_map_payload mapper r = transpose_res (map_payload mapper r)"

definition map_payload_or :: "('a \<Rightarrow> 'b option) \<Rightarrow> 'a BsoRecord \<Rightarrow> 'b BsoRecord option" where
  "map_payload_or mapper r = transpose_opt (map_payload mapper r)"

definition into_timestamped_payload :: "'a BsoRecord \<Rightarrow> 'a \<times> ServerTimestamp" where
  "into_timestamped_payload r = (bso_payload r, bso_modified r)"

section \<open>Cleartext payloads\<close>

datatype JsonValue =
    JNull | JBool bool | JInt int | JFloat rat | JString string
  | JArray "JsonValue list" | JObject "(string \<times> JsonValue) list"

record Payload =
  pl_id :: string
  pl_deleted :: bool
  pl_data :: "string \<rightharpoonup> JsonValue"

type_synonym CleartextBso = "Payload BsoRecord"

definition new_tombstone :: "string \<Rightarrow> Payload" where
  "new_tombstone i = \<lparr>pl_id = i, pl_deleted = True, pl_data = Map.empty\<rparr>"

definition new_tombstone_with_ttl :: "string \<Rightarrow> int \<Rightarrow> Payload" where
  "new_tombstone_with_ttl i ttl = (new_tombstone i)\<lparr>pl_data := [''ttl'' \<mapsto> JInt ttl]\<rparr>"

definition with_sortindex :: "int \<Rightarrow> Payload \<Rightarrow> Payload" where
  "with_sortindex i p = p\<lparr>pl_data := (pl_data p)(''sortindex'' \<mapsto> JInt i)\<rparr>"

definition is_tombstone :: "Payload \<Rightarrow> bool" where
  "is_tombstone p = pl_deleted p"

definition add_auto_field :: "string \<Rightarrow> int option \<Rightarrow> Payload \<Rightarrow> Payload" where
  "add_auto_field name v p = p\<lparr>pl_data := (pl_data p)(name := map_option JInt v)\<rparr>"

text \<open>
  Reading an integer field: a number that fits the type. \<open>lo\<close> and \<open>hi\<close> are the bounds of
  \<^verbatim>\<open>i32\<close> or \<^verbatim>\<open>u32\<close>.
\<close>

fun int_from_value :: "int \<Rightarrow> int \<Rightarrow> JsonValue \<Rightarrow> int option" where
  "int_from_value lo hi (JInt i) = (if lo \<le> i \<and> i \<le> hi then Some i else None)"
| "int_from_value lo hi _ = None"

definition take_auto_field :: "int \<Rightarrow> int \<Rightarrow> string \<Rightarrow> Payload \<Rightarrow> int option \<times> Payload" where
  "take_auto_field lo hi name p =
     (case pl_data p name of
        None \<Rightarrow> (None, p)
      | Some v \<Rightarrow> (int_from_value lo hi v, p\<lparr>pl_data := (pl_data p)(name := None)\<rparr>))"

abbreviation "take_i32 \<equiv> take_auto_field (- (2 ^ 31)) (2 ^ 31 - 1)"
abbreviation "take_u32 \<equiv> take_auto_field 0 (2 ^ 32 - 1)"

definition into_bso :: "string \<Rightarrow> Payload \<Rightarrow> CleartextBso" where
  "into_bso collection p =
     (let (sortindex, p1) = take_i32 ''sortindex'' p;
          (ttl, p2) = take_u32 ''ttl'' p1
      in \<lparr>bso_id = pl_id p, bso_collection = collection, bso_modified = 0,
          bso_sortindex = sortindex, bso_ttl = ttl, bso_payload = p2\<rparr>)"

definition payload_into_json :: "Payload \<Rightarrow> string \<rightharpoonup> JsonValue" where
  "payload_into_json p =
     (let d = (pl_data p)(''id'' \<mapsto> JString (pl_id p))
      in if pl_deleted p then d(''deleted'' \<mapsto> JBool True) else d)"

section \<open>Encrypted payloads\<close>

record EncryptedPayload =
  ep_iv :: string
  ep_hmac :: string
  ep_ciphertext :: string

type_synonym EncryptedBso = "EncryptedPayload BsoRecord"

text \<open>The length of the text of an empty payload, by the JSON printer for encrypted payloads.\<close>

definition EMPTY_ENCRYPTED_PAYLOAD_SIZE :: "(EncryptedPayload \<Rightarrow> string) \<Rightarrow> usize" where
  "EMPTY_ENCRYPTED_PAYLOAD_SIZE to_json =
     length (to_json \<lparr>ep_iv = [], ep_hmac = [], ep_ciphertext = []\<rparr>)"

definition serialized_len :: "(EncryptedPayload \<Rightarrow> string) \<Rightarrow> EncryptedPayload \<Rightarrow> usize" where
  "serialized_len to_json p =
     EMPTY_ENCRYPTED_PAYLOAD_SIZE to_json + length (ep_ciphertext p) + length (ep_hmac p) + length (ep_iv p)"

definition decrypt_and_parse_payload ::
    "'w Crypto \<Rightarrow> (string \<Rightarrow> (string, 't) outcome) \<Rightarrow> KeyBundle \<Rightarrow> EncryptedPayload \<Rightarrow>
     (ErrorKind, 't) outcome" where
  "decrypt_and_parse_payload c from_str key p =
     obind (omap_err (\<lambda>_. HmacMismatch) (verify_hmac_string c key (ep_hmac p) (ep_ciphertext p))) (\<lambda>_.
     obind (ok_or (Base64Decode (ep_iv p)) (b64_decode c (ep_iv p))) (\<lambda>iv.
     obind (ok_or (Base64Decode (ep_ciphertext p)) (b64_decode c (ep_ciphertext p))) (\<lambda>ciphertext.
     obind (kb_decrypt c key ciphertext iv) (\<lambda>cleartext.
     omap_err JsonError (from_str cleartext)))))"

definition from_cleartext_payload ::
    "'w Crypto \<Rightarrow> ('t \<Rightarrow> (string, string) outcome) \<Rightarrow> KeyBundle \<Rightarrow> 't \<Rightarrow>
     ('w, ErrorKind, EncryptedPayload) action" where
  "from_cleartext_payload c to_str key cleartext_payload =
     abind (lift (omap_err JsonError (to_str cleartext_payload))) (\<lambda>cleartext.
     abind (encrypt_bytes_rand_iv c key cleartext) (\<lambda>(enc_bytes, iv).
     let iv_base64 = b64_encode c iv; enc_base64 = b64_encode c enc_bytes in
     abind (lift (hmac_string c key enc_base64)) (\<lambda>h.
     ret \<lparr>ep_iv = iv_base64, ep_hmac = h, ep_ciphertext = enc_base64\<rparr>)))"

definition bso_decrypt ::
    "'w Crypto \<Rightarrow> (string \<Rightarrow> (string, Payload) outcome) \<Rightarrow> KeyBundle \<Rightarrow> EncryptedBso \<Rightarrow>
     (ErrorKind, CleartextBso) outcome" where
  "bso_decrypt c from_str key r =
     obind (decrypt_and_parse_payload c from_str key (bso_payload r)) (\<lambda>p.
     Ok (with_payload (add_auto_field ''ttl'' (bso_ttl r)
           (add_auto_field ''sortindex'' (bso_sortindex r) p)) r))"

definition bso_encrypt ::
    "'w Crypto \<Rightarrow> (Payload \<Rightarrow> (string, string) outcome) \<Rightarrow> KeyBundle \<Rightarrow> CleartextBso \<Rightarrow>
     ('w, ErrorKind, EncryptedBso) action" where
  "bso_encrypt c to_str key r =
     abind (from_cleartext_payload c to_str key (bso_payload r)) (\<lambda>e. ret (with_payload e r))"

text \<open>
  \<open>from_value\<close> is the typed reader that \<^verbatim>\<open>serde\<close> derives for the record type.
\<close>

definition into_record ::
    "((string \<rightharpoonup> JsonValue) \<Rightarrow> (string, 't) outcome) \<Rightarrow> CleartextBso \<Rightarrow> (ErrorKind, 't BsoRecord) outcome" where
  "into_record from_value r =
     try_map_payload (\<lambda>p. omap_err JsonError (from_value (payload_into_json p))) r"

definition decrypt_as ::
    "'w Crypto \<Rightarrow> (string \<Rightarrow> (string, Payload) outcome) \<Rightarrow>
     ((string \<rightharpoonup> JsonValue) \<Rightarrow> (string, 't) outcome) \<Rightarrow> KeyBundle \<Rightarrow> EncryptedBso \<Rightarrow>
     (ErrorKind, 't BsoRecord) outcome" where
  "decrypt_as c from_str from_value key r =
     obind (bso_decrypt c from_str key r) (into_record from_value)"

section \<open>Round trips\<close>

text \<open>What the code relies on of the JSON printer and parser for cleartext payloads.\<close>

definition json_laws ::
    "'w Crypto \<Rightarrow> (Payload \<Rightarrow> (string, string) outcome) \<Rightarrow> (string \<Rightarrow> (string, Payload) outcome) \<Rightarrow> bool" where
  "json_laws c to_str from_str \<longleftrightarrow>
     (\<forall>p s. ''id'' \<notin> dom (pl_data p) \<longrightarrow> ''deleted'' \<notin> dom (pl_data p) \<longrightarrow> to_str p = Ok s \<longrightarrow>
        from_str s = Ok p \<and> utf8_valid c s)"

definition auto_field_ok :: "int \<Rightarrow> int \<Rightarrow> JsonValue option \<Rightarrow> bool" where
  "auto_field_ok lo hi v \<longleftrightarrow> (\<forall>x. v = Some x \<longrightarrow> (\<exists>i. x = JInt i \<and> lo \<le> i \<and> i \<le> hi))"

definition payload_ok :: "Payload \<Rightarrow> bool" where
  "payload_ok p \<longleftrightarrow> ''id'' \<notin> dom (pl_data p) \<and> ''deleted'' \<notin> dom (pl_data p) \<and>
     auto_field_ok (- (2 ^ 31)) (2 ^ 31 - 1) (pl_data p ''sortindex'') \<and>
     auto_field_ok 0 (2 ^ 32 - 1) (pl_data p ''ttl'')"

lemma take_auto_field_eq:
  "take_auto_field lo hi name p =
     (Option.bind (pl_data p name) (int_from_value lo hi), p\<lparr>pl_data := (pl_data p)(name := None)\<rparr>)"
  by (auto simp: take_auto_field_def fun_upd_idem split: option.splits)

lemma auto_field_restore:
  "auto_field_ok lo hi v \<Longrightarrow> map_option JInt (Option.bind v (int_from_value lo hi)) = v"
  by (cases v) (auto simp: auto_field_ok_def)

lemma payload_roundtrip:
  assumes laws: "crypto_laws c" and js: "to_str p = Ok s" "from_str s = Ok p" "utf8_valid c s"
    and enc: "from_cleartext_payload c to_str key p w = (Ok e, w')"
  shows "decrypt_and_parse_payload c from_str key e = Ok p"
proof -
  obtain iv ct h where ct: "encrypt_bytes_with_iv c key s iv = Ok ct"
    and h: "hmac_string c key (b64_encode c ct) = Ok h"
    and e: "e = \<lparr>ep_iv = b64_encode c iv, ep_hmac = h, ep_ciphertext = b64_encode c ct\<rparr>"
    using enc js(1)
    by (auto simp: from_cleartext_payload_def encrypt_bytes_rand_iv_def lift_def ret_def Let_def elim!: abind_OkE)
  show ?thesis
    using hmac_roundtrip [OF laws h] cipher_roundtrip [OF laws ct js(3)] js(2)
    by (simp add: e decrypt_and_parse_payload_def crypto_lawsD(1) [OF laws])
qed

lemma bso_roundtrip:
  assumes laws: "crypto_laws c" "json_laws c to_str from_str" and p: "payload_ok p"
    and enc: "bso_encrypt c to_str key (into_bso coll p) w = (Ok e, w')"
  shows "bso_decrypt c from_str key e = Ok (with_payload p (into_bso coll p))"
proof -
  let ?b = "into_bso coll p" and ?d = "(pl_data p)(''sortindex'' := None, ''ttl'' := None)"
  have b: "?b = \<lparr>bso_id = pl_id p, bso_collection = coll, bso_modified = 0,
      bso_sortindex = Option.bind (pl_data p ''sortindex'') (int_from_value (- (2 ^ 31)) (2 ^ 31 - 1)),
      bso_ttl = Option.bind (pl_data p ''ttl'') (int_from_value 0 (2 ^ 32 - 1)),
      bso_payload = p\<lparr>pl_data := ?d\<rparr>\<rparr>"
    by (simp add: into_bso_def take_auto_field_eq fun_upd_twist)
  obtain q where q: "from_cleartext_payload c to_str key (bso_payload ?b) w = (Ok q, w')" "e = with_payload q ?b"
    using enc by (auto simp: bso_encrypt_def ret_def elim!: abind_OkE)
  then obtain s where s: "to_str (bso_payload ?b) = Ok s"
    by (cases "to_str (bso_payload ?b)") (auto simp: from_cleartext_payload_def lift_def elim!: abind_OkE)
  have "from_str s = Ok (bso_payload ?b) \<and> utf8_valid c s"
    using laws(2) [unfolded json_laws_def, rule_format, of "bso_payload ?b" s] s p
    by (simp add: payload_ok_def b domIff)
  then have "decrypt_and_parse_payload c from_str key q = Ok (bso_payload ?b)"
    using payload_roundtrip [OF laws(1) s _ _ q(1)] by blast
  moreover have "add_auto_field ''ttl'' (bso_ttl ?b) (add_auto_field ''sortindex'' (bso_sortindex ?b) (bso_payload ?b)) = p"
  proof -
    have "?d(''sortindex'' := pl_data p ''sortindex'', ''ttl'' := pl_data p ''ttl'') = pl_data p" by auto
    then show ?thesis using p by (simp add: add_auto_field_def b payload_ok_def auto_field_restore)
  qed
  ultimately show ?thesis unfolding q(2) by (simp add: bso_decrypt_def with_payload_def map_payload_def)
qed

lemma decrypt_needs_hmac:
  assumes "decrypt_and_parse_payload c from_str key e = Ok x"
  shows "verify_hmac_string c key (ep_hmac e) (ep_ciphertext e) = Ok ()"
  using assms
  by (cases "verify_hmac_string c key (ep_hmac e) (ep_ciphertext e)")
    (auto simp: decrypt_and_parse_payload_def)

end
