(* ===== verification/CollectionKeys.thy ===== *)
theory CollectionKeys
  imports BsoRecord
begin

text \<open>
  The collection keys (\<^verbatim>\<open>components/sync15/src/collection_keys.rs\<close>): the default key bundle
  and the bundles of single collections, and how they travel as the encrypted record
  \<^verbatim>\<open>crypto/keys\<close>. The typed JSON conversions of \<^verbatim>\<open>CryptoKeysRecord\<close> are arguments.
\<close>

record CollectionKeys =
  keys_timestamp :: ServerTimestamp
  keys_default :: KeyBundle
  keys_collections :: "(string \<times> KeyBundle) list"

definition keys_new_random :: "'w Crypto \<Rightarrow> ('w, ErrorKind, CollectionKeys) action" where
  "keys_new_random c =
     abind (key_bundle_new_random c) (\<lambda>d.
     ret \<lparr>keys_timestamp = 0, keys_default = d, keys_collections = []\<rparr>)"

definition from_encrypted_bso ::
    "'w Crypto \<Rightarrow> (string \<Rightarrow> (string, Payload) outcome) \<Rightarrow>
     ((string \<rightharpoonup> JsonValue) \<Rightarrow> (string, CryptoKeysRecord) outcome) \<Rightarrow>
     EncryptedBso \<Rightarrow> KeyBundle \<Rightarrow> (ErrorKind, CollectionKeys) outcome" where
  "from_encrypted_bso c from_str from_value record root_key =
     obind (decrypt_as c from_str from_value root_key record) (\<lambda>keys.
     obind (from_base64 c (fst (ck_default (bso_payload keys))) (snd (ck_default (bso_payload keys)))) (\<lambda>d.
     obind (omapM (\<lambda>kv. omap (\<lambda>b. (fst kv, b)) (from_base64 c (fst (snd kv)) (snd (snd kv))))
              (ck_collections (bso_payload keys))) (\<lambda>cs.
     Ok \<lparr>keys_timestamp = bso_modified keys, keys_default = d, keys_collections = cs\<rparr>)))"

definition to_encrypted_bso ::
    "'w Crypto \<Rightarrow> (Payload \<Rightarrow> (string, string) outcome) \<Rightarrow>
     (CryptoKeysRecord \<Rightarrow> (string, Payload) outcome) \<Rightarrow>
     CollectionKeys \<Rightarrow> KeyBundle \<Rightarrow> ('w, ErrorKind, EncryptedBso) action" where
  "to_encrypted_bso c to_str from_record keys root_key =
     (let record = \<lparr>ck_id = ''keys'', ck_collection = ''crypto'',
            ck_default = to_b64_array c (keys_default keys),
            ck_collections = map (\<lambda>kv. (fst kv, to_b64_array c (snd kv))) (keys_collections keys)\<rparr>
      in abind (lift (omap_err JsonError (from_record record))) (\<lambda>p.
         bso_encrypt c to_str root_key (into_bso ''crypto'' p)))"

definition key_for_collection :: "CollectionKeys \<Rightarrow> string \<Rightarrow> KeyBundle" where
  "key_for_collection k collection =
     (case map_of (keys_collections k) collection of Some b \<Rightarrow> b | None \<Rightarrow> keys_default k)"

section \<open>Lemmas\<close>

definition keys_ok :: "CollectionKeys \<Rightarrow> bool" where
  "keys_ok k \<longleftrightarrow> kb_ok (keys_default k) \<and> (\<forall>kv \<in> set (keys_collections k). kb_ok (snd kv))"

text \<open>
  What the code relies on of the typed conversions: reading what was written gives it back, and
  the JSON object has no automatic fields.
\<close>

definition keys_json_laws ::
    "(CryptoKeysRecord \<Rightarrow> (string, Payload) outcome) \<Rightarrow>
     ((string \<rightharpoonup> JsonValue) \<Rightarrow> (string, CryptoKeysRecord) outcome) \<Rightarrow> bool" where
  "keys_json_laws from_record from_value \<longleftrightarrow>
     (\<forall>r p. from_record r = Ok p \<longrightarrow> payload_ok p \<and> from_value (payload_into_json p) = Ok r)"

lemma keys_new_random_ok: "keys_new_random c w = (Ok k, w') \<Longrightarrow> keys_ok k"
  using new_random_ok [of c w _ w'] by (auto simp: keys_new_random_def ret_def keys_ok_def elim!: abind_OkE)

lemma collections_roundtrip:
  assumes "crypto_laws c" "\<forall>kv \<in> set cs. kb_ok (snd kv)"
  shows "omapM (\<lambda>kv. omap (\<lambda>b. (fst kv, b)) (from_base64 c (fst (snd kv)) (snd (snd kv))))
      (map (\<lambda>kv. (fst kv, to_b64_array c (snd kv))) cs) = (Ok cs :: (ErrorKind, _) outcome)"
  using assms(2)
proof (induction cs)
  case (Cons kv cs)
  then have "from_base64 c (fst (to_b64_array c (snd kv))) (snd (to_b64_array c (snd kv))) = Ok (snd kv)"
    using b64_roundtrip [OF assms(1), of "snd kv"] by simp
  then show ?case using Cons by simp
qed simp

section \<open>Properties\<close>

text \<open>
  C22. Encrypting an outgoing record and decrypting it with the same key gives back the record:
  the id, the collection, the automatic fields \<^verbatim>\<open>sortindex\<close> and \<^verbatim>\<open>ttl\<close> and the payload,
  with the automatic fields back in place, for every payload whose automatic fields fit their
  types and that does not use the reserved names.
\<close>

theorem record_encryption_roundtrip:
  assumes "crypto_laws c" "json_laws c to_str from_str" "payload_ok p"
    and "bso_encrypt c to_str key (into_bso coll p) w = (Ok e, w')"
  shows "bso_decrypt c from_str key e = Ok (with_payload p (into_bso coll p)) \<and>
    bso_id e = pl_id p \<and> bso_collection e = coll"
proof -
  have "bso_id e = pl_id p" "bso_collection e = coll"
    using assms(4)
    by (auto simp: bso_encrypt_def ret_def with_payload_def map_payload_def into_bso_def Let_def
        split: prod.splits elim!: abind_OkE)
  then show ?thesis using bso_roundtrip [OF assms] by simp
qed

text \<open>A cipher for the witnesses that leaves everything as it is, and a JSON text of ids only.\<close>

definition plain :: "unit Crypto" where
  "plain = \<lparr>b64_encode = \<lambda>b. b, b64_decode = Some, b64url_decode = Some, b16_encode = \<lambda>b. b,
     b16_decode_slice = Ok, hmac_sign = \<lambda>k d. Ok (replicate 32 (CHR ''h'')),
     hmac_verify = \<lambda>k d s. if s = replicate 32 (CHR ''h'') then Ok () else Err ''bad'',
     aes_encrypt = \<lambda>k iv d. Ok d, aes_decrypt = \<lambda>k iv d. Ok d, utf8_valid = \<lambda>b. True,
     rand_fill = \<lambda>n w. (Ok (replicate n (CHR ''r'')), w)\<rparr>"

definition plain_to_str :: "Payload \<Rightarrow> (string, string) outcome" where
  "plain_to_str p = (if pl_data p = Map.empty \<and> \<not> pl_deleted p then Ok (pl_id p) else Err ''not an id'')"

definition plain_from_str :: "string \<Rightarrow> (string, Payload) outcome" where
  "plain_from_str s = Ok \<lparr>pl_id = s, pl_deleted = False, pl_data = Map.empty\<rparr>"

lemma plain_laws: "crypto_laws plain" "json_laws plain plain_to_str plain_from_str"
  by (auto simp: plain_def crypto_laws_def json_laws_def plain_to_str_def plain_from_str_def split: if_splits)

definition payload1 :: Payload where
  "payload1 = \<lparr>pl_id = ''abc'', pl_deleted = False, pl_data = [''sortindex'' \<mapsto> JInt 5]\<rparr>"

definition key1 :: KeyBundle where
  "key1 = \<lparr>enc_key = replicate 32 (CHR ''e''), mac_key = replicate 32 (CHR ''m'')\<rparr>"

lemmas plain_eval = plain_def plain_to_str_def abind_def lift_def ret_def bso_encrypt_def
  from_cleartext_payload_def encrypt_bytes_rand_iv_def try_as_def encrypt_bytes_with_iv_def
  hmac_string_def hmac_def with_payload_def map_payload_def into_bso_def take_auto_field_def

lemma payload1_encrypt:
  "bso_encrypt plain plain_to_str key1 (into_bso ''passwords'' payload1) () =
     (Ok \<lparr>bso_id = ''abc'', bso_collection = ''passwords'', bso_modified = 0, bso_sortindex = Some 5,
        bso_ttl = None, bso_payload = \<lparr>ep_iv = replicate 16 (CHR ''r''), ep_hmac = replicate 32 (CHR ''h''),
        ep_ciphertext = ''abc''\<rparr>\<rparr>, ())"
  by (simp add: plain_eval payload1_def)

theorem record_encryption_roundtrip_witness:
  "\<exists>e. bso_encrypt plain plain_to_str key1 (into_bso ''passwords'' payload1) () = (Ok e, ()) \<and>
     bso_decrypt plain plain_from_str key1 e = Ok (with_payload payload1 (into_bso ''passwords'' payload1))"
  using record_encryption_roundtrip [OF plain_laws _ payload1_encrypt] payload1_encrypt
  by (auto simp: payload_ok_def payload1_def auto_field_ok_def)

text \<open>
  The keys survive the trip through \<^verbatim>\<open>crypto/keys\<close>: what \<open>to_encrypted_bso\<close> writes,
  \<open>from_encrypted_bso\<close> reads back as the same default and collection keys under the timestamp of
  the record, for every set of keys of the right lengths.
\<close>

theorem collection_keys_roundtrip:
  assumes laws: "crypto_laws c" "json_laws c to_str from_str" "keys_json_laws from_record from_value"
    and k: "keys_ok keys"
    and enc: "to_encrypted_bso c to_str from_record keys root_key w = (Ok e, w')"
  shows "from_encrypted_bso c from_str from_value e root_key = Ok (keys\<lparr>keys_timestamp := bso_modified e\<rparr>)"
proof -
  define r where "r = \<lparr>ck_id = ''keys'', ck_collection = ''crypto'',
            ck_default = to_b64_array c (keys_default keys),
            ck_collections = map (\<lambda>kv. (fst kv, to_b64_array c (snd kv))) (keys_collections keys)\<rparr>"
  obtain p where p: "from_record r = Ok p" "bso_encrypt c to_str root_key (into_bso ''crypto'' p) w = (Ok e, w')"
    using enc by (cases "from_record r") (auto simp: to_encrypted_bso_def r_def [symmetric] lift_def elim!: abind_OkE)
  have po: "payload_ok p" "from_value (payload_into_json p) = Ok r"
    using laws(3) p(1) by (auto simp: keys_json_laws_def)
  have d: "bso_decrypt c from_str root_key e = Ok (with_payload p (into_bso ''crypto'' p))"
    by (rule bso_roundtrip [OF laws(1,2) po(1) p(2)])
  have "bso_modified e = bso_modified (into_bso ''crypto'' p)"
    using p(2) by (auto simp: bso_encrypt_def ret_def with_payload_def map_payload_def elim!: abind_OkE)
  then have a: "decrypt_as c from_str from_value root_key e = Ok (with_payload r (with_payload p (into_bso ''crypto'' p)))"
    using po(2) by (simp add: decrypt_as_def d into_record_def try_map_payload_def transpose_res_def
        map_payload_def with_payload_def)
  have "from_base64 c (fst (ck_default r)) (snd (ck_default r)) = Ok (keys_default keys)"
    using b64_roundtrip [OF laws(1)] k by (simp add: r_def keys_ok_def)
  moreover have "omapM (\<lambda>kv. omap (\<lambda>b. (fst kv, b)) (from_base64 c (fst (snd kv)) (snd (snd kv))))
      (ck_collections r) = Ok (keys_collections keys)"
    unfolding r_def using collections_roundtrip [OF laws(1), of "keys_collections keys"] k
    by (simp add: keys_ok_def)
  ultimately show ?thesis
    using \<open>bso_modified e = _\<close> by (simp add: from_encrypted_bso_def a with_payload_def map_payload_def)
qed

definition plain_record :: CryptoKeysRecord where
  "plain_record = \<lparr>ck_id = ''keys'', ck_collection = ''crypto'', ck_default = to_b64_array plain key1,
     ck_collections = []\<rparr>"

definition plain_from_record :: "CryptoKeysRecord \<Rightarrow> (string, Payload) outcome" where
  "plain_from_record r = (if r = plain_record then Ok \<lparr>pl_id = ''keys'', pl_deleted = False, pl_data = Map.empty\<rparr>
     else Err ''other keys'')"

lemma plain_keys_laws: "keys_json_laws plain_from_record (\<lambda>_. Ok plain_record)"
  by (auto simp: keys_json_laws_def plain_from_record_def payload_ok_def auto_field_ok_def split: if_splits)

theorem collection_keys_roundtrip_witness:
  "\<exists>e. to_encrypted_bso plain plain_to_str plain_from_record
        \<lparr>keys_timestamp = 7, keys_default = key1, keys_collections = []\<rparr> key1 () = (Ok e, ()) \<and>
     from_encrypted_bso plain plain_from_str (\<lambda>_. Ok plain_record) e key1 =
       Ok \<lparr>keys_timestamp = 0, keys_default = key1, keys_collections = []\<rparr>"
proof -
  let ?k = "\<lparr>keys_timestamp = 7, keys_default = key1, keys_collections = []\<rparr>"
  let ?e = "\<lparr>bso_id = ''keys'', bso_collection = ''crypto'', bso_modified = 0, bso_sortindex = None,
        bso_ttl = None, bso_payload = \<lparr>ep_iv = replicate 16 (CHR ''r''), ep_hmac = replicate 32 (CHR ''h''),
        ep_ciphertext = ''keys''\<rparr>\<rparr>"
  have e: "to_encrypted_bso plain plain_to_str plain_from_record ?k key1 () = (Ok ?e, ())"
    by (simp add: to_encrypted_bso_def plain_from_record_def plain_record_def plain_eval)
  have "keys_ok ?k" by (simp add: keys_ok_def kb_ok_def key1_def)
  from collection_keys_roundtrip [OF plain_laws plain_keys_laws this e] e show ?thesis by auto
qed



end
