(* ===== verification/LoginTypes.thy ===== *)
theory LoginTypes
  imports BsoRecord
begin

text \<open>
  Logins and their three-way merge (\<^verbatim>\<open>components/logins/src/login.rs\<close>, \<^verbatim>\<open>error.rs\<close>).
  An \<^verbatim>\<open>i64\<close> is an integer; the three places that add or subtract usage counts check or wrap.
\<close>

section \<open>64-bit signed integers\<close>

definition in_i64 :: "int \<Rightarrow> bool" where
  "in_i64 x \<longleftrightarrow> - (2 ^ 63) \<le> x \<and> x < 2 ^ 63"

definition wrap_i64 :: "int \<Rightarrow> int" where
  "wrap_i64 x = (x + 2 ^ 63) mod 2 ^ 64 - 2 ^ 63"

definition add_i64 :: "bool \<Rightarrow> int \<Rightarrow> int \<Rightarrow> ('e, int) outcome" where
  "add_i64 dbg a b =
     (if in_i64 (a + b) then Ok (a + b)
      else if dbg then Panic ''attempt to add with overflow'' else Ok (wrap_i64 (a + b)))"

definition sub_i64 :: "bool \<Rightarrow> int \<Rightarrow> int \<Rightarrow> ('e, int) outcome" where
  "sub_i64 dbg a b =
     (if in_i64 (a - b) then Ok (a - b)
      else if dbg then Panic ''attempt to subtract with overflow'' else Ok (wrap_i64 (a - b)))"

lemma wrap_i64_id: "in_i64 x \<Longrightarrow> wrap_i64 x = x"
  by (simp add: in_i64_def wrap_i64_def)

lemma wrap_i64_in: "in_i64 (wrap_i64 x)"
  by (simp add: in_i64_def wrap_i64_def)

section \<open>Logins\<close>

datatype InvalidLogin = EmptyHostname | EmptyPassword | BothTargets | NoTarget

datatype LoginError =
    InvalidLoginError InvalidLogin
  | BadSyncStatus nat
  | DuplicateGuid string
  | NoSuchRecord string
  | SyncAdapterError ErrorKind
  | LoginJsonError string
  | SqlError string
  | LoginInterrupted

record Login =
  login_id :: string
  hostname :: string
  form_submit_url :: "string option"
  http_realm :: "string option"
  username :: string
  password :: string
  username_field :: string
  password_field :: string
  time_created :: int
  time_password_changed :: int
  time_last_used :: int
  times_used :: int

definition check_valid :: "Login \<Rightarrow> (LoginError, unit) outcome" where
  "check_valid l =
     (if hostname l = [] then Err (InvalidLoginError EmptyHostname)
      else if password l = [] then Err (InvalidLoginError EmptyPassword)
      else if form_submit_url l \<noteq> None \<and> http_realm l \<noteq> None then Err (InvalidLoginError BothTargets)
      else if form_submit_url l = None \<and> http_realm l = None then Err (InvalidLoginError NoTarget)
      else Ok ())"

record MirrorLogin =
  ml_login :: Login
  ml_is_overridden :: bool
  ml_server_modified :: ServerTimestamp

datatype SyncStatus = Synced | Changed | New

fun sync_status_from_u8 :: "nat \<Rightarrow> (LoginError, SyncStatus) outcome" where
  "sync_status_from_u8 v =
     (if v = 0 then Ok Synced else if v = 1 then Ok Changed else if v = 2 then Ok New else Err (BadSyncStatus v))"

fun sync_status_u8 :: "SyncStatus \<Rightarrow> nat" where
  "sync_status_u8 Synced = 0"
| "sync_status_u8 Changed = 1"
| "sync_status_u8 New = 2"

text \<open>A local modification time is a number of milliseconds since the epoch.\<close>

record LocalLogin =
  ll_login :: Login
  ll_sync_status :: SyncStatus
  ll_is_deleted :: bool
  ll_local_modified :: nat

record SyncLoginData =
  sd_guid :: string
  sd_local :: "LocalLogin option"
  sd_mirror :: "MirrorLogin option"
  sd_inbound :: "Login option \<times> ServerTimestamp"

definition set_local :: "LocalLogin \<Rightarrow> SyncLoginData \<Rightarrow> (LoginError, SyncLoginData) outcome" where
  "set_local record d =
     (if sd_local d \<noteq> None then Panic ''SyncLoginData::set_local called on object that already has local data''
      else if sd_guid d \<noteq> login_id (ll_login record) then Panic ''Wrong guid on login in set_local''
      else Ok (d\<lparr>sd_local := Some record\<rparr>))"

definition set_mirror :: "MirrorLogin \<Rightarrow> SyncLoginData \<Rightarrow> (LoginError, SyncLoginData) outcome" where
  "set_mirror record d =
     (if sd_mirror d \<noteq> None then Panic ''SyncLoginData::set_mirror called on object that already has mirror data''
      else if sd_guid d \<noteq> login_id (ml_login record) then Panic ''Wrong guid on login in set_mirror''
      else Ok (d\<lparr>sd_mirror := Some record\<rparr>))"

section \<open>Differences between logins\<close>

record LoginDelta =
  d_hostname :: "string option"
  d_password :: "string option"
  d_username :: "string option"
  d_http_realm :: "string option"
  d_form_submit_url :: "string option"
  d_time_created :: "int option"
  d_time_last_used :: "int option"
  d_time_password_changed :: "int option"
  d_password_field :: "string option"
  d_username_field :: "string option"
  d_times_used :: int

text \<open>The macro \<^verbatim>\<open>merge_field!\<close> for one field.\<close>

fun merge_field :: "bool \<Rightarrow> 'a option \<Rightarrow> 'a option \<Rightarrow> 'a option" where
  "merge_field prefer_b merged None = merged"
| "merge_field prefer_b (Some m) (Some b) = (if prefer_b then Some b else Some m)"
| "merge_field prefer_b None (Some b) = Some b"

definition delta_merge :: "bool \<Rightarrow> LoginDelta \<Rightarrow> LoginDelta \<Rightarrow> bool \<Rightarrow> (LoginError, LoginDelta) outcome" where
  "delta_merge dbg a b b_is_newer =
     omap (\<lambda>n.
       \<lparr>d_hostname = merge_field b_is_newer (d_hostname a) (d_hostname b),
        d_password = merge_field b_is_newer (d_password a) (d_password b),
        d_username = merge_field b_is_newer (d_username a) (d_username b),
        d_http_realm = merge_field b_is_newer (d_http_realm a) (d_http_realm b),
        d_form_submit_url = merge_field b_is_newer (d_form_submit_url a) (d_form_submit_url b),
        d_time_created = merge_field b_is_newer (d_time_created a) (d_time_created b),
        d_time_last_used = merge_field b_is_newer (d_time_last_used a) (d_time_last_used b),
        d_time_password_changed = merge_field b_is_newer (d_time_password_changed a) (d_time_password_changed b),
        d_password_field = merge_field b_is_newer (d_password_field a) (d_password_field b),
        d_username_field = merge_field b_is_newer (d_username_field a) (d_username_field b),
        d_times_used = n\<rparr>)
     (add_i64 dbg (d_times_used a) (d_times_used b))"

text \<open>\<open>Some []\<close> for a realm or a form URL means that it is to be removed.\<close>

definition apply_target :: "string option \<Rightarrow> string option \<Rightarrow> string option" where
  "apply_target d old = (case d of Some s \<Rightarrow> if s = [] then None else Some s | None \<Rightarrow> old)"

definition apply_delta :: "bool \<Rightarrow> LoginDelta \<Rightarrow> Login \<Rightarrow> (LoginError, Login) outcome" where
  "apply_delta dbg d l =
     omap (\<lambda>n.
       \<lparr>login_id = login_id l,
        hostname = (case d_hostname d of Some x \<Rightarrow> x | None \<Rightarrow> hostname l),
        form_submit_url = apply_target (d_form_submit_url d) (form_submit_url l),
        http_realm = apply_target (d_http_realm d) (http_realm l),
        username = (case d_username d of Some x \<Rightarrow> x | None \<Rightarrow> username l),
        password = (case d_password d of Some x \<Rightarrow> x | None \<Rightarrow> password l),
        username_field = (case d_username_field d of Some x \<Rightarrow> x | None \<Rightarrow> username_field l),
        password_field = (case d_password_field d of Some x \<Rightarrow> x | None \<Rightarrow> password_field l),
        time_created = (case d_time_created d of Some x \<Rightarrow> x | None \<Rightarrow> time_created l),
        time_password_changed = (case d_time_password_changed d of Some x \<Rightarrow> x | None \<Rightarrow> time_password_changed l),
        time_last_used = (case d_time_last_used d of Some x \<Rightarrow> x | None \<Rightarrow> time_last_used l),
        times_used = n\<rparr>)
     (add_i64 dbg (times_used l) (d_times_used d))"

definition changed :: "'a \<Rightarrow> 'a \<Rightarrow> 'a option" where
  "changed new old = (if new \<noteq> old then Some new else None)"

definition or_empty :: "string option \<Rightarrow> string" where
  "or_empty x = (case x of Some s \<Rightarrow> s | None \<Rightarrow> [])"

definition changed_target :: "string option \<Rightarrow> string option \<Rightarrow> string option" where
  "changed_target new old = (if new \<noteq> old then Some (or_empty new) else None)"

definition changed_time :: "int \<Rightarrow> int \<Rightarrow> int option" where
  "changed_time new old = (if new > 0 \<and> new \<noteq> old then Some new else None)"

definition delta :: "bool \<Rightarrow> Login \<Rightarrow> Login \<Rightarrow> (LoginError, LoginDelta) outcome" where
  "delta dbg self older =
     omap (\<lambda>n.
       \<lparr>d_hostname = changed (hostname self) (hostname older),
        d_password = changed (password self) (password older),
        d_username = changed (username self) (username older),
        d_http_realm = changed_target (http_realm self) (http_realm older),
        d_form_submit_url = changed_target (form_submit_url self) (form_submit_url older),
        d_time_created = changed_time (time_created self) (time_created older),
        d_time_last_used = changed_time (time_last_used self) (time_last_used older),
        d_time_password_changed = changed_time (time_password_changed self) (time_password_changed older),
        d_password_field = changed (password_field self) (password_field older),
        d_username_field = changed (username_field self) (username_field older),
        d_times_used = n\<rparr>)
     (if times_used self > 0 \<and> times_used self \<noteq> times_used older
      then sub_i64 dbg (times_used self) (times_used older) else Ok 0)"

section \<open>Logins as JSON\<close>

text \<open>
  What \<^verbatim>\<open>serde\<close> derives from the declaration of \<^verbatim>\<open>Login\<close>: field names in camel case
  except \<^verbatim>\<open>formSubmitURL\<close>, absent targets and empty strings skipped where the attributes say
  so, and their defaults put back by the reader. A reader's error names the field.
\<close>

definition put_if :: "bool \<Rightarrow> string \<Rightarrow> JsonValue \<Rightarrow> (string \<rightharpoonup> JsonValue) \<Rightarrow> (string \<rightharpoonup> JsonValue)" where
  "put_if b k v m = (if b then m(k \<mapsto> v) else m)"

definition login_to_value :: "Login \<Rightarrow> string \<rightharpoonup> JsonValue" where
  "login_to_value l =
     put_if (username l \<noteq> []) ''username'' (JString (username l))
     (put_if (username_field l \<noteq> []) ''usernameField'' (JString (username_field l))
     (put_if (password_field l \<noteq> []) ''passwordField'' (JString (password_field l))
     (put_if (form_submit_url l \<noteq> None) ''formSubmitURL'' (JString (or_empty (form_submit_url l)))
     (put_if (http_realm l \<noteq> None) ''httpRealm'' (JString (or_empty (http_realm l)))
     [''id'' \<mapsto> JString (login_id l), ''hostname'' \<mapsto> JString (hostname l), ''password'' \<mapsto> JString (password l),
      ''timeCreated'' \<mapsto> JInt (time_created l), ''timePasswordChanged'' \<mapsto> JInt (time_password_changed l),
      ''timeLastUsed'' \<mapsto> JInt (time_last_used l), ''timesUsed'' \<mapsto> JInt (times_used l)]))))"

fun string_from_value :: "string \<Rightarrow> JsonValue option \<Rightarrow> (string, string) outcome" where
  "string_from_value k (Some (JString s)) = Ok s"
| "string_from_value k _ = Err k"

fun default_string_from_value :: "string \<Rightarrow> JsonValue option \<Rightarrow> (string, string) outcome" where
  "default_string_from_value k None = Ok []"
| "default_string_from_value k v = string_from_value k v"

fun option_string_from_value :: "string \<Rightarrow> JsonValue option \<Rightarrow> (string, string option) outcome" where
  "option_string_from_value k None = Ok None"
| "option_string_from_value k (Some JNull) = Ok None"
| "option_string_from_value k v = omap Some (string_from_value k v)"

fun default_i64_from_value :: "string \<Rightarrow> JsonValue option \<Rightarrow> (string, int) outcome" where
  "default_i64_from_value k None = Ok 0"
| "default_i64_from_value k (Some (JInt i)) = (if in_i64 i then Ok i else Err k)"
| "default_i64_from_value k _ = Err k"

definition login_from_value :: "(string \<rightharpoonup> JsonValue) \<Rightarrow> (string, Login) outcome" where
  "login_from_value m =
     obind (string_from_value ''id'' (m ''id'')) (\<lambda>i.
     obind (string_from_value ''hostname'' (m ''hostname'')) (\<lambda>host.
     obind (option_string_from_value ''formSubmitURL'' (m ''formSubmitURL'')) (\<lambda>url.
     obind (option_string_from_value ''httpRealm'' (m ''httpRealm'')) (\<lambda>realm.
     obind (default_string_from_value ''username'' (m ''username'')) (\<lambda>user.
     obind (string_from_value ''password'' (m ''password'')) (\<lambda>pass.
     obind (default_string_from_value ''usernameField'' (m ''usernameField'')) (\<lambda>ufield.
     obind (default_string_from_value ''passwordField'' (m ''passwordField'')) (\<lambda>pfield.
     obind (default_i64_from_value ''timeCreated'' (m ''timeCreated'')) (\<lambda>created.
     obind (default_i64_from_value ''timePasswordChanged'' (m ''timePasswordChanged'')) (\<lambda>pchanged.
     obind (default_i64_from_value ''timeLastUsed'' (m ''timeLastUsed'')) (\<lambda>lused.
     obind (default_i64_from_value ''timesUsed'' (m ''timesUsed'')) (\<lambda>n.
     Ok \<lparr>login_id = i, hostname = host, form_submit_url = url, http_realm = realm, username = user,
         password = pass, username_field = ufield, password_field = pfield, time_created = created,
         time_password_changed = pchanged, time_last_used = lused, times_used = n\<rparr>))))))))))))"

text \<open>\<^verbatim>\<open>Payload::from_json\<close>, \<^verbatim>\<open>Payload::from_record\<close> and \<^verbatim>\<open>Payload::into_record\<close> of \<^verbatim>\<open>bso_record.rs\<close>.\<close>

definition payload_from_json :: "(string \<rightharpoonup> JsonValue) \<Rightarrow> (ErrorKind, Payload) outcome" where
  "payload_from_json m =
     obind (omap_err JsonError (string_from_value ''id'' (m ''id''))) (\<lambda>i.
     omap (\<lambda>del. \<lparr>pl_id = i, pl_deleted = del, pl_data = m(''id'' := None, ''deleted'' := None)\<rparr>)
       (case m ''deleted'' of None \<Rightarrow> Ok False | Some (JBool b) \<Rightarrow> Ok b | Some _ \<Rightarrow> Err (JsonError ''deleted'')))"

definition payload_from_login :: "Login \<Rightarrow> (ErrorKind, Payload) outcome" where
  "payload_from_login l = payload_from_json (login_to_value l)"

definition payload_into_login :: "Payload \<Rightarrow> (ErrorKind, Login) outcome" where
  "payload_into_login p = omap_err JsonError (login_from_value (payload_into_json p))"

definition from_payload :: "Payload \<Rightarrow> ServerTimestamp \<Rightarrow> (LoginError, SyncLoginData) outcome" where
  "from_payload p ts =
     obind (if is_tombstone p then Ok None else omap Some (omap_err SyncAdapterError (payload_into_login p))) (\<lambda>login.
     Ok \<lparr>sd_guid = pl_id p, sd_local = None, sd_mirror = None, sd_inbound = (login, ts)\<rparr>)"

section \<open>Lemmas and properties\<close>

text \<open>
  A login whose difference to another can be told: its targets are not empty strings, and its
  times and its usage count are positive.
\<close>

definition plain_login :: "Login \<Rightarrow> bool" where
  "plain_login l \<longleftrightarrow> form_submit_url l \<noteq> Some [] \<and> http_realm l \<noteq> Some [] \<and> time_created l > 0 \<and>
     time_last_used l > 0 \<and> time_password_changed l > 0 \<and> times_used l > 0 \<and> in_i64 (times_used l)"

lemma apply_changed: "(case changed a b of Some x \<Rightarrow> x | None \<Rightarrow> b) = a"
  by (simp add: changed_def)

lemma apply_changed_time: "a > 0 \<Longrightarrow> (case changed_time a b of Some x \<Rightarrow> x | None \<Rightarrow> b) = a"
  by (simp add: changed_time_def)

lemma apply_changed_target: "a \<noteq> Some [] \<Longrightarrow> apply_target (changed_target a b) b = a"
  by (auto simp: apply_target_def changed_target_def or_empty_def split: option.splits)

lemma delta_times_used:
  assumes "plain_login a" "plain_login b"
  shows "(if times_used a > 0 \<and> times_used a \<noteq> times_used b
      then sub_i64 dbg (times_used a) (times_used b) else Ok 0) = Ok (times_used a - times_used b)"
  using assms by (auto simp: sub_i64_def plain_login_def in_i64_def)

text \<open>
  The difference of two logins takes one to the other: applying \<^verbatim>\<open>new.delta(old)\<close> to
  \<^verbatim>\<open>old\<close> gives \<^verbatim>\<open>new\<close> in every field, for logins whose targets are not empty strings and
  whose times and usage counts are positive.
\<close>

theorem apply_delta_roundtrip:
  assumes "plain_login new" and "plain_login old" and "login_id new = login_id old"
  shows "obind (delta dbg new old) (\<lambda>d. apply_delta dbg d old) = Ok new"
proof -
  have n: "add_i64 dbg (times_used old) (times_used new - times_used old) = Ok (times_used new)"
    using assms(1) by (simp add: add_i64_def plain_login_def)
  show ?thesis
    using assms(1,3) n unfolding apply_delta_def delta_def delta_times_used [OF assms(1,2)]
    by (cases new) (simp add: plain_login_def apply_changed apply_changed_time apply_changed_target)
qed

definition login1 :: Login where
  "login1 = \<lparr>login_id = ''aaaaaaaaaaaa'', hostname = ''https://a.com'', form_submit_url = Some ''https://a.com/login'', http_realm = None,
     username = ''u'', password = ''p'', username_field = [], password_field = [], time_created = 1,
     time_password_changed = 1, time_last_used = 2, times_used = 3\<rparr>"

theorem apply_delta_roundtrip_witness:
  "obind (delta True (login1\<lparr>password := ''q'', times_used := 4\<rparr>) login1) (\<lambda>d. apply_delta True d login1) =
     Ok (login1\<lparr>password := ''q'', times_used := 4\<rparr>)"
  by (rule apply_delta_roundtrip) (simp_all add: login1_def plain_login_def in_i64_def)

definition times_in_range :: "Login \<Rightarrow> bool" where
  "times_in_range l \<longleftrightarrow> in_i64 (time_created l) \<and> in_i64 (time_password_changed l) \<and>
     in_i64 (time_last_used l) \<and> in_i64 (times_used l)"

lemma login_value_roundtrip:
  assumes "times_in_range l" shows "login_from_value (login_to_value l) = Ok l"
  using assms by (cases l) (auto simp: login_from_value_def login_to_value_def put_if_def times_in_range_def or_empty_def)

lemma login_to_value_id: "login_to_value l ''id'' = Some (JString (login_id l))" "login_to_value l ''deleted'' = None"
  by (simp_all add: login_to_value_def put_if_def)

lemma payload_from_login_eq:
  "payload_from_login l =
     Ok \<lparr>pl_id = login_id l, pl_deleted = False, pl_data = (login_to_value l)(''id'' := None, ''deleted'' := None)\<rparr>"
  by (simp add: payload_from_login_def payload_from_json_def login_to_value_id)

lemma payload_into_json_of_login:
  assumes "payload_from_login l = Ok p"
  shows "payload_into_json (with_sortindex i p) = (login_to_value l)(''sortindex'' \<mapsto> JInt i)"
  using assms by (auto simp: payload_from_login_eq payload_into_json_def with_sortindex_def login_to_value_id)

lemma login_from_value_sortindex: "login_from_value (m(''sortindex'' \<mapsto> v)) = login_from_value m"
  by (simp add: login_from_value_def)

text \<open>
  C34. A login survives the trip through a payload: every login can be turned into one, and reading
  the payload that is uploaded (which also carries a sort index) gives back the same identifier,
  no deletion and the same login, for all times and counts that fit 64 bits.
\<close>

theorem login_payload_roundtrip:
  assumes "times_in_range l"
  shows "\<exists>p. payload_from_login l = Ok p \<and>
     from_payload (with_sortindex i p) ts =
       Ok \<lparr>sd_guid = login_id l, sd_local = None, sd_mirror = None, sd_inbound = (Some l, ts)\<rparr>"
proof -
  obtain p where p: "payload_from_login l = Ok p" "pl_id p = login_id l" "\<not> pl_deleted p"
    by (simp add: payload_from_login_eq)
  have "payload_into_login (with_sortindex i p) = Ok l"
    using assms by (simp add: payload_into_login_def payload_into_json_of_login [OF p(1)]
        login_from_value_sortindex login_value_roundtrip)
  then show ?thesis using p by (auto simp: from_payload_def is_tombstone_def with_sortindex_def)
qed

theorem login_payload_roundtrip_witness:
  "\<exists>p. payload_from_login login1 = Ok p \<and>
     from_payload (with_sortindex 1 p) 5 =
       Ok \<lparr>sd_guid = login_id login1, sd_local = None, sd_mirror = None, sd_inbound = (Some login1, 5)\<rparr>"
  by (rule login_payload_roundtrip) (simp add: login1_def times_in_range_def in_i64_def)

end
