(* ===== verification/Viaduct.thy ===== *)
theory Viaduct
  imports SyncTypes "HOL-Library.Char_ord" "HOL-Library.List_Lexorder"
begin

text \<open>
  The HTTP vocabulary of \<^verbatim>\<open>components/viaduct\<close>: header names (\<^verbatim>\<open>headers/name.rs\<close>), header
  lists (\<^verbatim>\<open>headers.rs\<close>), requests and responses (\<^verbatim>\<open>lib.rs\<close>). The backends that perform a
  request are not modelled; a URL is its text.
\<close>

section \<open>Header names\<close>

text \<open>A header name is a string that is valid and lower case.\<close>

type_synonym HeaderName = string

definition VALID_HEADER_LUT :: "nat list" where
  "VALID_HEADER_LUT =
   [0, 0, 0, 0, 0, 0, 0, 0, 0, 0, 0, 0, 0, 0, 0, 0, 0, 0, 0, 0, 0, 0, 0, 0, 0, 0, 0, 0, 0, 0, 0, 0,
    0, 1, 0, 1, 1, 1, 1, 1, 0, 0, 1, 1, 0, 1, 1, 0, 1, 1, 1, 1, 1, 1, 1, 1, 1, 1, 0, 0, 0, 0, 0, 0,
    0, 2, 2, 2, 2, 2, 2, 2, 2, 2, 2, 2, 2, 2, 2, 2, 2, 2, 2, 2, 2, 2, 2, 2, 2, 2, 2, 0, 0, 0, 1, 1,
    1, 1, 1, 1, 1, 1, 1, 1, 1, 1, 1, 1, 1, 1, 1, 1, 1, 1, 1, 1, 1, 1, 1, 1, 1, 1, 1, 0, 1, 0, 1, 0,
    0, 0, 0, 0, 0, 0, 0, 0, 0, 0, 0, 0, 0, 0, 0, 0, 0, 0, 0, 0, 0, 0, 0, 0, 0, 0, 0, 0, 0, 0, 0, 0,
    0, 0, 0, 0, 0, 0, 0, 0, 0, 0, 0, 0, 0, 0, 0, 0, 0, 0, 0, 0, 0, 0, 0, 0, 0, 0, 0, 0, 0, 0, 0, 0,
    0, 0, 0, 0, 0, 0, 0, 0, 0, 0, 0, 0, 0, 0, 0, 0, 0, 0, 0, 0, 0, 0, 0, 0, 0, 0, 0, 0, 0, 0, 0, 0,
    0, 0, 0, 0, 0, 0, 0, 0, 0, 0, 0, 0, 0, 0, 0, 0, 0, 0, 0, 0, 0, 0, 0, 0, 0, 0, 0, 0, 0, 0, 0, 0]"

definition ascii_lower :: "char \<Rightarrow> char" where
  "ascii_lower c = (let n = of_char c in if 65 \<le> n \<and> n \<le> 90 then char_of (n + 32 :: nat) else c)"

definition eq_ignore_ascii_case :: "string \<Rightarrow> string \<Rightarrow> bool" where
  "eq_ignore_ascii_case a b \<longleftrightarrow> map ascii_lower a = map ascii_lower b"

text \<open>The loop over the bytes: stop at an invalid one, remember whether an upper-case one was seen.\<close>

fun scan_header :: "bool \<Rightarrow> string \<Rightarrow> bool option" where
  "scan_header need_lower_case [] = Some need_lower_case"
| "scan_header need_lower_case (b # bs) =
     (let validity = VALID_HEADER_LUT ! of_char b in
      if validity = 0 then None
      else scan_header (need_lower_case \<or> validity = 2) bs)"

definition validate_header :: "string \<Rightarrow> (string, HeaderName) outcome" where
  "validate_header name =
     (if length name = 0 then Err name
      else (case scan_header False name of
          None \<Rightarrow> Err name
        | Some need_lower_case \<Rightarrow> Ok (if need_lower_case then map ascii_lower name else name)))"

text \<open>Names given in the code convert with a panic on invalid ones.\<close>

definition header_name_from :: "string \<Rightarrow> ('e, HeaderName) outcome" where
  "header_name_from s = (case validate_header s of
       Ok v \<Rightarrow> Ok v
     | Err e \<Rightarrow> Panic (''Illegal locally specified header '' @ e)
     | Panic p \<Rightarrow> Panic p)"

section \<open>Headers\<close>

record Header =
  hd_name :: HeaderName
  hd_value :: string

text \<open>
  \<^verbatim>\<open>str::trim\<close> removes Unicode white space at both ends; these are the encodings of the
  characters with that property.
\<close>

definition bytes_of :: "nat list \<Rightarrow> string" where
  "bytes_of ns = map char_of ns"

definition white_space :: "string list" where
  "white_space =
     map bytes_of ([[9], [10], [11], [12], [13], [32], [0xC2, 0x85], [0xC2, 0xA0], [0xE1, 0x9A, 0x80]]
       @ map (\<lambda>n. [0xE2, 0x80, n]) [0x80 ..< 0x8B]
       @ [[0xE2, 0x80, 0xA8], [0xE2, 0x80, 0xA9], [0xE2, 0x80, 0xAF], [0xE2, 0x81, 0x9F], [0xE3, 0x80, 0x80]])"

definition has_prefix :: "string \<Rightarrow> string \<Rightarrow> bool" where
  "has_prefix p s \<longleftrightarrow> p \<noteq> [] \<and> take (length p) s = p"

function trim_with :: "string list \<Rightarrow> string \<Rightarrow> string" where
  "trim_with ws s = (case find (\<lambda>w. has_prefix w s) ws of
       None \<Rightarrow> s | Some w \<Rightarrow> trim_with ws (drop (length w) s))"
  by pat_completeness auto
termination
proof (relation "measure (\<lambda>(ws, s). length s)", goal_cases)
  case (2 ws s w)
  then have p: "w \<noteq> []" "take (length w) s = w" by (auto simp: has_prefix_def find_Some_iff)
  have "s \<noteq> []"
  proof
    assume "s = []"
    then have "take (length w) s = []" by simp
    then show False using p by simp
  qed
  then show ?case using p by simp
qed simp

declare trim_with.simps [simp del]

definition trim_string :: "string \<Rightarrow> string" where
  "trim_string s = rev (trim_with (map rev white_space) (rev (trim_with white_space s)))"

definition is_valid_header_value :: "string \<Rightarrow> bool" where
  "is_valid_header_value value \<longleftrightarrow>
     list_all (\<lambda>c. (32 \<le> (of_char c :: nat) \<and> (of_char c :: nat) < 127) \<or> of_char c = (9 :: nat)) value"

datatype ViaductError =
    RequestHeaderError HeaderName
  | BackendError string
  | NetworkError string
  | BackendNotInitialized
  | UrlError string

fun viaduct_error_display :: "ViaductError \<Rightarrow> string" where
  "viaduct_error_display (RequestHeaderError n) =
     ''Illegal characters in request header '' @ [CHR 0x27] @ n @ [CHR 0x27]"
| "viaduct_error_display (BackendError s) = ''Backend error: '' @ s"
| "viaduct_error_display (NetworkError s) = ''Network error: '' @ s"
| "viaduct_error_display BackendNotInitialized =
     ''The rust-components network backend must be initialized before use!''"
| "viaduct_error_display (UrlError s) = ''URL Parse Error: '' @ s"

text \<open>The conversion the \<^verbatim>\<open>?\<close> operator makes in the sync crate.\<close>

definition request_error :: "ViaductError \<Rightarrow> ErrorKind" where
  "request_error e = RequestError (viaduct_error_display e)"

definition header_new :: "string \<Rightarrow> string \<Rightarrow> (ViaductError, Header) outcome" where
  "header_new name value =
     obind (header_name_from name) (\<lambda>name.
     let value = trim_string value in
     if \<not> is_valid_header_value value then Err (RequestHeaderError name)
     else Ok \<lparr>hd_name = name, hd_value = value\<rparr>)"

definition set_value :: "string \<Rightarrow> Header \<Rightarrow> (ViaductError, Header) outcome" where
  "set_value s h =
     (if \<not> is_valid_header_value s then Err (RequestHeaderError (hd_name h))
      else Ok (h\<lparr>hd_value := trim_string s\<rparr>))"

type_synonym Headers = "Header list"

text \<open>\<^verbatim>\<open>iter_mut().find(..)\<close> and an update of what it finds.\<close>

fun update_first :: "('a \<Rightarrow> bool) \<Rightarrow> ('a \<Rightarrow> ('e, 'a) outcome) \<Rightarrow> 'a list \<Rightarrow> ('e, 'a list) outcome option" where
  "update_first P f [] = None"
| "update_first P f (x # xs) =
     (if P x then Some (omap (\<lambda>y. y # xs) (f x))
      else map_option (omap (\<lambda>ys. x # ys)) (update_first P f xs))"

definition headers_insert :: "string \<Rightarrow> string \<Rightarrow> Headers \<Rightarrow> (ViaductError, Headers) outcome" where
  "headers_insert name value hs =
     (case update_first (\<lambda>h. eq_ignore_ascii_case name (hd_name h)) (set_value value) hs of
        Some r \<Rightarrow> r
      | None \<Rightarrow> omap (\<lambda>h. hs @ [h]) (header_new name value))"

definition insert_if_missing :: "string \<Rightarrow> string \<Rightarrow> Headers \<Rightarrow> (ViaductError, Headers) outcome" where
  "insert_if_missing name value hs =
     (if \<not> list_ex (\<lambda>h. eq_ignore_ascii_case name (hd_name h)) hs
      then omap (\<lambda>h. hs @ [h]) (header_new name value)
      else Ok hs)"

definition insert_header :: "Header \<Rightarrow> Headers \<Rightarrow> Headers" where
  "insert_header new hs =
     (case update_first (\<lambda>h. hd_name h = hd_name new) 
             (\<lambda>h. Ok (h\<lparr>hd_value := hd_value new\<rparr>) :: (unit, Header) outcome) hs of
        Some (Ok hs') \<Rightarrow> hs'
      | _ \<Rightarrow> hs @ [new])"

definition headers_extend :: "Header list \<Rightarrow> Headers \<Rightarrow> Headers" where
  "headers_extend it hs = fold insert_header it hs"

definition try_extend :: "('e, Header) outcome list \<Rightarrow> Headers \<Rightarrow> ('e, Headers) outcome" where
  "try_extend it hs = omap (\<lambda>v. headers_extend v hs) (omapM (\<lambda>r. r) it)"

definition get_header :: "string \<Rightarrow> Headers \<Rightarrow> Header option" where
  "get_header name hs = find (\<lambda>h. eq_ignore_ascii_case name (hd_name h)) hs"

definition headers_get :: "string \<Rightarrow> Headers \<Rightarrow> string option" where
  "headers_get name hs = map_option hd_value (get_header name hs)"

definition get_as :: "(string \<Rightarrow> ('e, 'a) outcome) \<Rightarrow> string \<Rightarrow> Headers \<Rightarrow> ('e, 'a) outcome option" where
  "get_as parse name hs = map_option parse (headers_get name hs)"

definition try_get :: "(string \<Rightarrow> 'a option) \<Rightarrow> string \<Rightarrow> Headers \<Rightarrow> 'a option" where
  "try_get parse name hs = Option.bind (headers_get name hs) parse"

fun dedup_by_name :: "Header list \<Rightarrow> Header list" where
  "dedup_by_name (a # b # hs) =
     (if hd_name a = hd_name b then dedup_by_name (a # hs) else a # dedup_by_name (b # hs))"
| "dedup_by_name hs = hs"

definition headers_from_iter :: "Header list \<Rightarrow> Headers" where
  "headers_from_iter it = dedup_by_name (rev (sort_key hd_name it))"

section \<open>Requests and responses\<close>

datatype Method = Get | Head | Post | Put | Delete | Connect | Options | Trace

fun method_as_str :: "Method \<Rightarrow> string" where
  "method_as_str Get = ''GET''"
| "method_as_str Head = ''HEAD''"
| "method_as_str Post = ''POST''"
| "method_as_str Put = ''PUT''"
| "method_as_str Delete = ''DELETE''"
| "method_as_str Connect = ''CONNECT''"
| "method_as_str Options = ''OPTIONS''"
| "method_as_str Trace = ''TRACE''"

record Request =
  req_method :: Method
  req_url :: string
  req_headers :: Headers
  req_body :: "bytes option"

definition request_new :: "Method \<Rightarrow> string \<Rightarrow> Request" where
  "request_new m url = \<lparr>req_method = m, req_url = url, req_headers = [], req_body = None\<rparr>"

definition req_header :: "string \<Rightarrow> string \<Rightarrow> Request \<Rightarrow> (ViaductError, Request) outcome" where
  "req_header name val r = omap (\<lambda>hs. r\<lparr>req_headers := hs\<rparr>) (headers_insert name val (req_headers r))"

definition body :: "bytes \<Rightarrow> Request \<Rightarrow> Request" where
  "body b r = r\<lparr>req_body := Some b\<rparr>"

text \<open>\<open>to_vec\<close> is the JSON printer of the value's type.\<close>

definition json :: "('a \<Rightarrow> (string, bytes) outcome) \<Rightarrow> 'a \<Rightarrow> Request \<Rightarrow> (ViaductError, Request) outcome" where
  "json to_vec val r =
     (case to_vec val of
        Ok b \<Rightarrow>
          (case insert_if_missing ''content-type'' ''application/json'' (req_headers r) of
             Ok hs \<Rightarrow> Ok (r\<lparr>req_body := Some b, req_headers := hs\<rparr>)
           | _ \<Rightarrow> Panic ''called Result::unwrap() on an Err value'')
      | _ \<Rightarrow> Panic ''Rust component bug: serde_json::to_vec failure'')"

record Response =
  resp_method :: Method
  resp_url :: string
  resp_status :: nat
  resp_headers :: Headers
  resp_body :: bytes

definition response_is_success :: "Response \<Rightarrow> bool" where
  "response_is_success r = is_success_code (resp_status r)"

definition is_server_error :: "Response \<Rightarrow> bool" where
  "is_server_error r = is_server_error_code (resp_status r)"

definition is_client_error :: "Response \<Rightarrow> bool" where
  "is_client_error r = is_client_error_code (resp_status r)"

definition require_success :: "Response \<Rightarrow> (Method \<times> string \<times> nat, Response) outcome" where
  "require_success r =
     (if response_is_success r then Ok r else Err (resp_method r, resp_url r, resp_status r))"

section \<open>Lemmas on names\<close>

text \<open>Letters, digits and \<^verbatim>\<open>!#$%&'*+-.^_`|~\<close>, by their codes.\<close>

definition valid_name_code :: "nat \<Rightarrow> bool" where
  "valid_name_code n \<longleftrightarrow> (48 \<le> n \<and> n \<le> 57) \<or> (65 \<le> n \<and> n \<le> 90) \<or> (97 \<le> n \<and> n \<le> 122) \<or>
     n \<in> set [33, 35, 36, 37, 38, 39, 42, 43, 45, 46, 94, 95, 96, 124, 126]"

definition valid_name_char :: "char \<Rightarrow> bool" where
  "valid_name_char c = valid_name_code (of_char c)"

lemma lut_spec_all:
  "VALID_HEADER_LUT = map (\<lambda>n. if 65 \<le> n \<and> n \<le> 90 then 2 else if valid_name_code n then 1 else 0) [0..<256]"
  by (simp add: VALID_HEADER_LUT_def valid_name_code_def upt_rec)

lemma of_char_less: "(of_char c :: nat) < 256"
  using of_char_mod_256 [of c] by (metis mod_less_divisor zero_less_numeral)

lemma lut_spec:
  "VALID_HEADER_LUT ! of_char c =
     (if 65 \<le> (of_char c :: nat) \<and> (of_char c :: nat) \<le> 90 then 2 else if valid_name_char c then 1 else 0)"
  unfolding lut_spec_all valid_name_char_def using of_char_less [of c] by (simp add: nth_map)

lemma scan_header_eq:
  "scan_header b s = (if list_all valid_name_char s then Some (b \<or> list_ex (\<lambda>c. ascii_lower c \<noteq> c) s) else None)"
proof (induction s arbitrary: b)
  case (Cons c s)
  have "ascii_lower c \<noteq> c \<longleftrightarrow> 65 \<le> (of_char c :: nat) \<and> (of_char c :: nat) \<le> 90"
  proof
    assume u: "65 \<le> (of_char c :: nat) \<and> (of_char c :: nat) \<le> 90"
    then have "(of_char (ascii_lower c) :: nat) = of_char c + 32" by (simp add: ascii_lower_def)
    then show "ascii_lower c \<noteq> c" by force
  qed (auto simp: ascii_lower_def Let_def split: if_splits)
  moreover have "65 \<le> (of_char c :: nat) \<and> (of_char c :: nat) \<le> 90 \<Longrightarrow> valid_name_char c"
    by (simp add: valid_name_char_def valid_name_code_def)
  ultimately show ?case using Cons by (auto simp: lut_spec Let_def)
qed simp

lemma validate_header_eq:
  "validate_header s = (if s \<noteq> [] \<and> list_all valid_name_char s then Ok (map ascii_lower s) else Err s)"
proof -
  have "\<not> list_ex (\<lambda>c. ascii_lower c \<noteq> c) s \<Longrightarrow> map ascii_lower s = s"
    by (induction s) auto
  then show ?thesis by (simp add: validate_header_def scan_header_eq)
qed

lemma ascii_lower_idem [simp]: "ascii_lower (ascii_lower c) = ascii_lower c"
  using of_char_less [of c] by (simp add: ascii_lower_def Let_def)

section \<open>Lemmas on header lists\<close>

definition header_ok :: "Header \<Rightarrow> bool" where
  "header_ok h \<longleftrightarrow> validate_header (hd_name h) = Ok (hd_name h) \<and> is_valid_header_value (hd_value h)"

definition headers_ok :: "Headers \<Rightarrow> bool" where
  "headers_ok hs \<longleftrightarrow> distinct (map hd_name hs) \<and> (\<forall>h \<in> set hs. header_ok h)"

lemma trim_with_subset: "set (trim_with ws s) \<subseteq> set s"
proof (induction ws s rule: trim_with.induct)
  case (1 ws s)
  show ?case
  proof (cases "find (\<lambda>w. has_prefix w s) ws")
    case (Some w)
    have "set (trim_with ws (drop (length w) s)) \<subseteq> set (drop (length w) s)"
      using "1.IH" Some by blast
    then show ?thesis using set_drop_subset [of "length w" s] Some
      by (subst trim_with.simps) auto
  qed (simp add: trim_with.simps)
qed

lemma trim_string_subset: "set (trim_string s) \<subseteq> set s"
  using trim_with_subset unfolding trim_string_def by (metis set_rev subset_trans)

lemma valid_trim: "is_valid_header_value s \<Longrightarrow> is_valid_header_value (trim_string s)"
  using trim_string_subset [of s] by (auto simp: is_valid_header_value_def list_all_iff)

lemma header_ok_name: "header_ok h \<Longrightarrow> map ascii_lower (hd_name h) = hd_name h"
  by (simp add: header_ok_def validate_header_eq split: if_splits)

lemma eq_ignore_ok: "header_ok h \<Longrightarrow> eq_ignore_ascii_case n (hd_name h) \<longleftrightarrow> map ascii_lower n = hd_name h"
  by (simp add: eq_ignore_ascii_case_def header_ok_name)

lemma lower_valid: "valid_name_char c \<Longrightarrow> valid_name_char (ascii_lower c)"
  using of_char_less [of c] by (auto simp: ascii_lower_def Let_def valid_name_char_def valid_name_code_def)

lemma header_new_Ok:
  assumes "header_new name value = Ok h"
  shows "header_ok h" "hd_name h = map ascii_lower name" "hd_value h = trim_string value"
proof -
  have v: "name \<noteq> []" "list_all valid_name_char name" "h = \<lparr>hd_name = map ascii_lower name, hd_value = trim_string value\<rparr>"
    "is_valid_header_value (trim_string value)"
    using assms by (auto simp: header_new_def header_name_from_def validate_header_eq Let_def split: if_splits)
  then show "hd_name h = map ascii_lower name" "hd_value h = trim_string value" by simp_all
  have "list_all valid_name_char (map ascii_lower name)" using v(2) lower_valid by (auto simp: list_all_iff)
  then show "header_ok h" using v by (simp add: header_ok_def validate_header_eq o_def)
qed

lemma update_first_None: "update_first P f xs = None \<longleftrightarrow> (\<forall>x \<in> set xs. \<not> P x)"
  by (induction xs) auto

lemma update_first_Ok:
  assumes "update_first P f xs = Some (Ok ys)"
  obtains as x bs y where "xs = as @ x # bs" "ys = as @ y # bs" "P x" "f x = Ok y" "\<forall>a \<in> set as. \<not> P a"
proof -
  have "\<exists>as x bs y. xs = as @ x # bs \<and> ys = as @ y # bs \<and> P x \<and> f x = Ok y \<and> (\<forall>a \<in> set as. \<not> P a)"
    using assms
  proof (induction xs arbitrary: ys)
    case (Cons z zs)
    show ?case
    proof (cases "P z")
      case True
      then obtain y where "f z = Ok y" "ys = y # zs" using Cons.prems by auto
      then show ?thesis using True by (intro exI [of _ "[]"] exI [of _ z] exI [of _ zs] exI [of _ y]) simp
    next
      case False
      then obtain ys' where "update_first P f zs = Some (Ok ys')" "ys = z # ys'" using Cons.prems by auto
      then obtain as x bs y where "zs = as @ x # bs \<and> ys' = as @ y # bs \<and> P x \<and> f x = Ok y \<and> (\<forall>a \<in> set as. \<not> P a)"
        using Cons.IH by blast
      then show ?thesis using False \<open>ys = z # ys'\<close>
        by (intro exI [of _ "z # as"] exI [of _ x] exI [of _ bs] exI [of _ y]) simp
    qed
  qed simp
  then show ?thesis using that by blast
qed

lemma headers_get_ok:
  assumes "\<forall>h \<in> set hs. header_ok h"
  shows "headers_get n hs = map_option hd_value (find (\<lambda>h. map ascii_lower n = hd_name h) hs)"
  unfolding headers_get_def get_header_def
  by (intro arg_cong [where f = "map_option hd_value"] find_cong) (simp_all add: assms eq_ignore_ok)

lemma headers_insert_ok:
  assumes ok: "headers_ok hs" and ins: "headers_insert name value hs = Ok hs'"
  shows "headers_ok hs'" "headers_get name hs' = Some (trim_string value)"
    "\<not> eq_ignore_ascii_case n name \<Longrightarrow> headers_get n hs' = headers_get n hs"
proof -
  let ?P = "\<lambda>h. eq_ignore_ascii_case name (hd_name h)"
  have all: "\<forall>h \<in> set hs. header_ok h" using ok by (simp add: headers_ok_def)
  have "headers_ok hs' \<and> headers_get name hs' = Some (trim_string value) \<and>
     (\<not> eq_ignore_ascii_case n name \<longrightarrow> headers_get n hs' = headers_get n hs)"
  proof (cases "update_first ?P (set_value value) hs")
    case None
    then obtain h where h: "header_new name value = Ok h" "hs' = hs @ [h]"
      using ins by (cases "header_new name value") (auto simp: headers_insert_def)
    note hn = header_new_Ok [OF h(1)]
    have new: "\<forall>x \<in> set hs. map ascii_lower name \<noteq> hd_name x"
      using None all eq_ignore_ok by (simp add: update_first_None)
    then have ok': "headers_ok hs'" using ok hn h(2) by (auto simp: headers_ok_def)
    have f: "find (\<lambda>h. map ascii_lower name = hd_name h) hs = None" using new by (simp add: find_None_iff)
    have all': "\<forall>h \<in> set hs'. header_ok h" using ok' by (simp add: headers_ok_def)
    show ?thesis using ok' f hn h(2)
      by (auto simp: headers_get_ok [OF all' [unfolded h(2)]] headers_get_ok [OF all] find_append eq_ignore_ascii_case_def split: option.splits)
  next
    case (Some r)
    then have r: "r = Ok hs'" using ins by (simp add: headers_insert_def)
    obtain as x bs y where u: "hs = as @ x # bs" "hs' = as @ y # bs" "?P x" "set_value value x = Ok y" "\<forall>a \<in> set as. \<not> ?P a"
      by (rule update_first_Ok [OF Some [unfolded r]])
    have y: "hd_name y = hd_name x" "hd_value y = trim_string value" "is_valid_header_value (hd_value y)"
      using u(4) valid_trim by (auto simp: set_value_def split: if_splits)
    have ok': "headers_ok hs'" using ok y u(1,2) by (auto simp: headers_ok_def header_ok_def)
    have all': "\<forall>h \<in> set hs'. header_ok h" using ok' by (simp add: headers_ok_def)
    have nx: "map ascii_lower name = hd_name x" using u(3) eq_ignore_ok all u(1) by simp
    have na: "find (\<lambda>h. map ascii_lower name = hd_name h) as = None"
      using u(1,5) all eq_ignore_ok by (auto simp: find_None_iff)
    show ?thesis using ok' y na nx unfolding headers_get_ok [OF all'] headers_get_ok [OF all]
      by (auto simp: find_append eq_ignore_ascii_case_def u(1,2) split: option.splits)
  qed
  then show "headers_ok hs'" "headers_get name hs' = Some (trim_string value)"
    "\<not> eq_ignore_ascii_case n name \<Longrightarrow> headers_get n hs' = headers_get n hs" by simp_all
qed

lemma find_filter: "find P xs = (case filter P xs of [] \<Rightarrow> None | x # _ \<Rightarrow> Some x)"
  by (induction xs) auto

lemma find_dedup: "find (\<lambda>h. n = hd_name h) (dedup_by_name hs) = find (\<lambda>h. n = hd_name h) hs"
  by (induction hs rule: dedup_by_name.induct) auto

lemma set_dedup: "set (dedup_by_name hs) \<subseteq> set hs"
  by (induction hs rule: dedup_by_name.induct) auto

lemma distinct_dedup: "sorted (rev (map hd_name hs)) \<Longrightarrow> distinct (map hd_name (dedup_by_name hs))"
proof (induction hs rule: dedup_by_name.induct)
  case (1 a b hs)
  show ?case
  proof (cases "hd_name a = hd_name b")
    case False
    then have "hd_name b < hd_name a" using "1.prems" by (auto simp: sorted_append order_less_le)
    moreover have "\<forall>h \<in> set (b # hs). hd_name h \<le> hd_name b" using "1.prems" by (auto simp: sorted_append)
    ultimately have "\<forall>h \<in> set (dedup_by_name (b # hs)). hd_name h \<noteq> hd_name a"
      using set_dedup [of "b # hs"] by fastforce
    then show ?thesis using False 1 by (auto simp: sorted_append)
  qed (use 1 in \<open>simp add: sorted_append\<close>)
qed simp_all

lemma find_from_iter: "find (\<lambda>h. n = hd_name h) (headers_from_iter it) = find (\<lambda>h. n = hd_name h) (rev it)"
proof -
  have "filter (\<lambda>h. n = hd_name h) (sort_key hd_name it) = filter (\<lambda>h. n = hd_name h) it"
    using sort_key_stable [of hd_name n it] by (simp add: eq_commute [of n])
  then show ?thesis
    unfolding headers_from_iter_def find_dedup by (simp add: find_filter rev_filter [symmetric])
qed

lemma from_iter_ok:
  assumes "\<forall>h \<in> set it. header_ok h" shows "headers_ok (headers_from_iter it)"
proof -
  have "distinct (map hd_name (headers_from_iter it))"
    unfolding headers_from_iter_def by (rule distinct_dedup) (simp add: rev_map [symmetric])
  moreover have "set (headers_from_iter it) \<subseteq> set it"
    using set_dedup [of "rev (sort_key hd_name it)"] by (simp add: headers_from_iter_def)
  ultimately show ?thesis using assms by (auto simp: headers_ok_def)
qed

lemma find_insert_header:
  "find (\<lambda>h. n = hd_name h) (insert_header new hs) =
     (if n = hd_name new then Some new else find (\<lambda>h. n = hd_name h) hs)"
proof (cases "update_first (\<lambda>h. hd_name h = hd_name new)
    (\<lambda>h. Ok (h\<lparr>hd_value := hd_value new\<rparr>) :: (unit, Header) outcome) hs")
  case None
  then have "find (\<lambda>h. hd_name new = hd_name h) hs = None" by (auto simp: update_first_None find_None_iff)
  then show ?thesis using None by (auto simp: insert_header_def find_append split: option.splits)
next
  case (Some r)
  have "\<exists>ys. r = Ok ys \<and> (find (\<lambda>h. n = hd_name h) ys =
     (if n = hd_name new then Some new else find (\<lambda>h. n = hd_name h) hs))"
    using Some
  proof (induction hs arbitrary: r)
    case (Cons h hs)
    show ?case
    proof (cases "hd_name h = hd_name new")
      case True
      then have "h\<lparr>hd_value := hd_value new\<rparr> = new" by (cases h; cases new) simp
      then show ?thesis using Cons.prems True by auto
    next
      case False
      then obtain r' where r': "update_first (\<lambda>h. hd_name h = hd_name new)
         (\<lambda>h. Ok (h\<lparr>hd_value := hd_value new\<rparr>) :: (unit, Header) outcome) hs = Some r'"
         "r = omap (\<lambda>ys. h # ys) r'" using Cons.prems by auto
      from Cons.IH [OF r'(1)] show ?thesis using False r'(2) by auto
    qed
  qed simp
  then show ?thesis using Some by (auto simp: insert_header_def)
qed

lemma find_extend:
  "find (\<lambda>h. n = hd_name h) (headers_extend it hs) =
     (case find (\<lambda>h. n = hd_name h) (rev it) of Some h \<Rightarrow> Some h | None \<Rightarrow> find (\<lambda>h. n = hd_name h) hs)"
  unfolding headers_extend_def
  by (induction it arbitrary: hs) (auto simp: find_insert_header find_append split: option.splits)

lemma insert_header_names:
  "map hd_name (insert_header new hs) =
     (if hd_name new \<in> hd_name ` set hs then map hd_name hs else map hd_name hs @ [hd_name new])"
  "set (insert_header new hs) \<subseteq> insert new (set hs)"
proof -
  let ?P = "\<lambda>h. hd_name h = hd_name new" and
    ?f = "\<lambda>h. Ok (h\<lparr>hd_value := hd_value new\<rparr>) :: (unit, Header) outcome"
  have eq: "h\<lparr>hd_value := hd_value new\<rparr> = new" if "hd_name h = hd_name new" for h
    using that by (cases h; cases new) simp
  have "\<exists>ys. r = Ok ys \<and> map hd_name ys = map hd_name hs \<and> set ys \<subseteq> insert new (set hs) \<and>
      hd_name new \<in> hd_name ` set hs" if "update_first ?P ?f hs = Some r" for r
    using that
  proof (induction hs arbitrary: r)
    case (Cons h hs)
    show ?case
    proof (cases "hd_name h = hd_name new")
      case True
      then show ?thesis using Cons.prems eq [OF True] by auto
    next
      case False
      then obtain r' where r': "update_first ?P ?f hs = Some r'" "r = omap (\<lambda>ys. h # ys) r'"
        using Cons.prems by auto
      from Cons.IH [OF r'(1)] show ?thesis using r'(2) by auto
    qed
  qed simp
  moreover have "hd_name new \<notin> hd_name ` set hs" if "update_first ?P ?f hs = None"
    using that by (auto simp: update_first_None)
  ultimately have "map hd_name (insert_header new hs) =
     (if hd_name new \<in> hd_name ` set hs then map hd_name hs else map hd_name hs @ [hd_name new]) \<and>
     set (insert_header new hs) \<subseteq> insert new (set hs)"
    by (cases "update_first ?P ?f hs") (fastforce simp: insert_header_def)+
  then show "map hd_name (insert_header new hs) =
     (if hd_name new \<in> hd_name ` set hs then map hd_name hs else map hd_name hs @ [hd_name new])"
    "set (insert_header new hs) \<subseteq> insert new (set hs)" by simp_all
qed

lemma insert_header_ok: "headers_ok hs \<Longrightarrow> header_ok new \<Longrightarrow> headers_ok (insert_header new hs)"
  using insert_header_names [of new hs] by (auto simp: headers_ok_def)

lemma extend_ok: "headers_ok hs \<Longrightarrow> \<forall>h \<in> set it. header_ok h \<Longrightarrow> headers_ok (headers_extend it hs)"
  unfolding headers_extend_def by (induction it arbitrary: hs) (simp_all add: insert_header_ok)

definition printable :: "char \<Rightarrow> bool" where
  "printable c \<longleftrightarrow> 33 \<le> (of_char c :: nat) \<and> (of_char c :: nat) < 127"

lemma white_space_ends:
  "list_all (\<lambda>w. w \<noteq> [] \<and> \<not> printable (hd w) \<and> \<not> printable (last w)) white_space"
  by (simp add: white_space_def bytes_of_def printable_def upt_rec)

lemma trim_with_id:
  assumes "\<forall>w \<in> set ws. w \<noteq> [] \<and> \<not> printable (hd w)" "s = [] \<or> printable (hd s)"
  shows "trim_with ws s = s"
proof -
  have "\<not> has_prefix w s" if "w \<in> set ws" for w
  proof
    assume p: "has_prefix w s"
    then have "w \<noteq> []" "take (length w) s = w" by (auto simp: has_prefix_def)
    then have "s \<noteq> []" "hd w = hd s" by (auto, metis hd_take length_greater_0_conv)
    then show False using that assms by auto
  qed
  then have "find (\<lambda>w. has_prefix w s) ws = None" by (simp add: find_None_iff)
  then show ?thesis by (simp add: trim_with.simps)
qed

text \<open>Trimming leaves alone what starts and ends with visible ASCII characters.\<close>

lemma trim_string_id:
  assumes "s = [] \<or> printable (hd s) \<and> printable (last s)" shows "trim_string s = s"
proof -
  have ws: "\<forall>w \<in> set white_space. w \<noteq> [] \<and> \<not> printable (hd w) \<and> \<not> printable (last w)"
    using white_space_ends by (simp add: list_all_iff)
  have 1: "trim_with white_space s = s" by (rule trim_with_id) (use ws assms in auto)
  have 2: "trim_with (map rev white_space) (rev s) = rev s"
    by (rule trim_with_id) (use ws assms in \<open>auto simp: hd_rev\<close>)
  show ?thesis by (simp add: trim_string_def 1 2)
qed

section \<open>Properties\<close>

text \<open>
  C24. A successful \<^verbatim>\<open>Headers::insert\<close> keeps the list well formed (every name valid and
  lower case, no name twice, every value printable ASCII without line breaks), makes \<^verbatim>\<open>get\<close> of
  that name, in any case, answer the trimmed value, and changes no other header.
\<close>

theorem headers_insert_correct:
  assumes "headers_ok hs" and "headers_insert name value hs = Ok hs'"
  shows "headers_ok hs' \<and>
    (\<forall>n. headers_get n hs' =
       (if eq_ignore_ascii_case n name then Some (trim_string value) else headers_get n hs))"
proof -
  have "headers_get n hs' = headers_get name hs'" if "eq_ignore_ascii_case n name" for n
    using that by (simp add: headers_get_def get_header_def eq_ignore_ascii_case_def)
  then show ?thesis using headers_insert_ok [OF assms] by auto
qed

definition accept_headers :: Headers where
  "accept_headers = [\<lparr>hd_name = ''accept'', hd_value = ''a''\<rparr>]"

lemma insert_accept_eval:
  "headers_insert ''Accept'' ''b'' accept_headers = Ok [\<lparr>hd_name = ''accept'', hd_value = ''b''\<rparr>]"
  by (simp add: headers_insert_def accept_headers_def eq_ignore_ascii_case_def ascii_lower_def char_of_def bit_Suc_0_iff Let_def set_value_def
    is_valid_header_value_def trim_string_id printable_def)

lemma accept_headers_ok: "headers_ok accept_headers"
  by (simp add: headers_ok_def accept_headers_def header_ok_def validate_header_eq valid_name_char_def
    valid_name_code_def ascii_lower_def is_valid_header_value_def)

theorem headers_insert_correct_witness:
  "headers_get ''ACCEPT'' [\<lparr>hd_name = ''accept'', hd_value = ''b''\<rparr>] = Some (trim_string ''b'')"
  using headers_insert_correct [OF accept_headers_ok insert_accept_eval, THEN conjunct2, THEN spec, of "''ACCEPT''"]
  by (simp add: eq_ignore_ascii_case_def ascii_lower_def char_of_def bit_Suc_0_iff)

text \<open>
  Collecting headers into a \<^verbatim>\<open>Headers\<close> by sorting and removing duplicates
  (\<^verbatim>\<open>from_iter\<close>) gives a well-formed list with the answers of inserting them one by one
  (\<^verbatim>\<open>extend\<close> of an empty list): the last header of each name wins.
\<close>

theorem from_iter_is_extend:
  assumes "\<forall>h \<in> set it. header_ok h"
  shows "headers_ok (headers_from_iter it) \<and>
    (\<forall>n. headers_get n (headers_from_iter it) = headers_get n (headers_extend it []) \<and>
         headers_get n (headers_from_iter it) = headers_get n (rev it))"
proof -
  have e: "headers_ok (headers_extend it [])"
    by (rule extend_ok) (use assms in \<open>simp_all add: headers_ok_def\<close>)
  note ok = from_iter_ok [OF assms] e
  have "headers_get n (headers_from_iter it) = headers_get n (headers_extend it []) \<and>
         headers_get n (headers_from_iter it) = headers_get n (rev it)" for n
    using ok assms
    by (simp add: headers_get_ok headers_ok_def find_from_iter find_extend split: option.splits)
  then show ?thesis using ok(1) by blast
qed

theorem from_iter_is_extend_witness:
  "headers_get ''A'' (headers_from_iter [\<lparr>hd_name = ''a'', hd_value = ''1''\<rparr>,
     \<lparr>hd_name = ''b'', hd_value = ''2''\<rparr>, \<lparr>hd_name = ''a'', hd_value = ''3''\<rparr>]) = Some ''3''"
  using from_iter_is_extend [of "[\<lparr>hd_name = ''a'', hd_value = ''1''\<rparr>,
     \<lparr>hd_name = ''b'', hd_value = ''2''\<rparr>, \<lparr>hd_name = ''a'', hd_value = ''3''\<rparr>]",
     THEN conjunct2, THEN spec, of "''A''", THEN conjunct2]
  by (simp add: char_of_def bit_Suc_0_iff header_ok_def validate_header_eq valid_name_char_def valid_name_code_def ascii_lower_def
    is_valid_header_value_def headers_get_def get_header_def eq_ignore_ascii_case_def Let_def)

end
