(* ===== verification/Token.thy ===== *)
theory Token
  imports Viaduct
begin

text \<open>
  The token provider (\<^verbatim>\<open>components/sync15/src/token.rs\<close>): fetching tokens from the token
  server, caching them, backing off and noticing node reassignment. The HTTP request, the JSON
  reader, the URL accessors, Hawk and the clocks are arguments. A \<^verbatim>\<open>SystemTime\<close> is its
  number of milliseconds since the epoch; adding a duration panics when the seconds leave 63 bits.
\<close>

section \<open>Fetching a token\<close>

type_synonym SystemTime = nat

definition time_add :: "SystemTime \<Rightarrow> nat \<Rightarrow> ('e, SystemTime) outcome" where
  "time_add t ms =
     (if (t + ms) div 1000 < 2 ^ 63 then Ok (t + ms) else Panic ''overflow when adding duration to instant'')"

definition RETRY_AFTER_DEFAULT_MS :: nat where
  "RETRY_AFTER_DEFAULT_MS = 10000"

record TokenserverToken =
  tok_id :: string
  tok_key :: string
  tok_api_endpoint :: string
  tok_uid :: nat
  tok_duration :: nat
  tok_hashed_fxa_uid :: string

record TokenFetchResult =
  tfr_token :: TokenserverToken
  tfr_server_timestamp :: ServerTimestamp

text \<open>\<open>ends_with\<close>, \<open>pop_segment\<close> and \<open>join_url\<close> are what is used of the URL library.\<close>

definition ends_with :: "string \<Rightarrow> string \<Rightarrow> bool" where
  "ends_with s suffix \<longleftrightarrow> length suffix \<le> length s \<and> drop (length s - length suffix) s = suffix"

definition fixup_server_url ::
    "(string \<Rightarrow> string) \<Rightarrow> (string \<Rightarrow> string \<Rightarrow> (string, string) outcome) \<Rightarrow> string \<Rightarrow> (ErrorKind, string) outcome" where
  "fixup_server_url pop_segment join_url url =
     (if ends_with url ''1.0/sync/1.5'' then Ok url
      else if ends_with url ''1.0/sync/1.5/'' then Ok (pop_segment url)
      else omap_err MalformedUrl (join_url url ''1.0/sync/1.5''))"

record TokenServerFetcher =
  server_url :: string
  access_token :: string
  key_id :: string

definition token_server_fetcher_new ::
    "(string \<Rightarrow> string) \<Rightarrow> (string \<Rightarrow> string \<Rightarrow> (string, string) outcome) \<Rightarrow> string \<Rightarrow> string \<Rightarrow> string \<Rightarrow>
     (ErrorKind, TokenServerFetcher) outcome" where
  "token_server_fetcher_new pop_segment join_url base_url access_token' key_id' =
     obind (fixup_server_url pop_segment join_url base_url) (\<lambda>url.
     Ok \<lparr>server_url = url, access_token = access_token', key_id = key_id'\<rparr>)"

text \<open>
  \<open>send\<close> is the HTTP client, \<open>token_json\<close> reads the body, \<open>parse_f64\<close> reads a finite
  floating point number, \<open>now\<close> is the clock.
\<close>

definition server_fetch_token ::
    "(Request \<Rightarrow> ('w, ViaductError, Response) action) \<Rightarrow> (bytes \<Rightarrow> (string, TokenserverToken) outcome) \<Rightarrow>
     (string \<Rightarrow> (string, rat) outcome) \<Rightarrow> ('w \<Rightarrow> SystemTime) \<Rightarrow> TokenServerFetcher \<Rightarrow>
     ('w, ErrorKind, TokenFetchResult) action" where
  "server_fetch_token send token_json parse_f64 now f =
     abind (lift (omap_err request_error
       (obind (req_header ''authorization'' (''Bearer '' @ access_token f) (request_new Get (server_url f))) (\<lambda>req.
        req_header ''x-keyid'' (key_id f) req)))) (\<lambda>req.
     abind (\<lambda>w. apfst (omap_err request_error) (send req w)) (\<lambda>resp.
     if \<not> response_is_success resp then
       (case get_as parse_f64 ''retry-after'' (resp_headers resp) of
          Some res \<Rightarrow>
            (let ms = (case res of Ok f \<Rightarrow> as_u64 (f * 1000) | _ \<Rightarrow> RETRY_AFTER_DEFAULT_MS) in
             abind get_st (\<lambda>w.
             abind (lift (time_add (now w) ms)) (\<lambda>when.
             throw (BackoffError when))))
        | None \<Rightarrow> throw (TokenserverHttpError (resp_status resp)))
     else
       abind (lift (omap_err JsonError (token_json (resp_body resp)))) (\<lambda>token.
       abind (lift (ok_or MissingServerTimestamp
                (try_get (\<lambda>s. case parse_f64 s of Ok f \<Rightarrow> Some f | _ \<Rightarrow> None) ''x-timestamp''
                   (resp_headers resp)))) (\<lambda>ts.
       ret \<lparr>tfr_token = token, tfr_server_timestamp = ts\<rparr>))))"

section \<open>Token contexts\<close>

record 'k TokenContext =
  ctx_token :: TokenserverToken
  ctx_credentials :: "string \<times> 'k"
  ctx_server_timestamp :: ServerTimestamp
  ctx_valid_until :: SystemTime

definition ctx_is_valid :: "'k TokenContext \<Rightarrow> SystemTime \<Rightarrow> bool" where
  "ctx_is_valid c now \<longleftrightarrow> now < ctx_valid_until c"

record UrlOps =
  url_query :: "string \<Rightarrow> string option"
  url_path :: "string \<Rightarrow> string"
  url_host_str :: "string \<Rightarrow> string option"
  url_port_or_known_default :: "string \<Rightarrow> nat option"

definition ctx_authorization ::
    "UrlOps \<Rightarrow> (string \<Rightarrow> string \<Rightarrow> nat \<Rightarrow> string \<Rightarrow> string \<times> 'k \<Rightarrow> (string, string) outcome) \<Rightarrow>
     'k TokenContext \<Rightarrow> Request \<Rightarrow> (ErrorKind, string) outcome" where
  "ctx_authorization u make_header ctx req =
     (let url = req_url req;
          path_and_query = (case url_query u url of None \<Rightarrow> url_path u url
                            | Some qs \<Rightarrow> url_path u url @ ''?'' @ qs) in
      obind (ok_or (UnacceptableUrl ''Storage URL has no host'') (url_host_str u url)) (\<lambda>host.
      obind (ok_or (UnacceptableUrl
               ''Storage URL has no port and no default port is known for the protocol'')
               (url_port_or_known_default u url)) (\<lambda>port.
      obind (omap_err HawkError
               (make_header (method_as_str (req_method req)) host port path_and_query (ctx_credentials ctx))) (\<lambda>header.
      Ok (''Hawk '' @ header)))))"

section \<open>The provider\<close>

datatype 'k TokenState =
    NoToken
  | Token "'k TokenContext"
  | Failed "ErrorKind option" "string option"
  | Backoff SystemTime "string option"
  | NodeReassigned

text \<open>
  A fetcher: the request and its clock. \<open>sys_now\<close> is the system clock, which
  \<open>fetch_context\<close> reads instead of the fetcher's, and \<open>hawk_key\<close> makes a key.
\<close>

record ('w, 'k) TokenEnv =
  env_fetch_token :: "('w, ErrorKind, TokenFetchResult) action"
  env_now :: "'w \<Rightarrow> SystemTime"
  sys_now :: "'w \<Rightarrow> SystemTime"
  hawk_key :: "bytes \<Rightarrow> (string, 'k) outcome"

definition fetch_context :: "('w, 'k) TokenEnv \<Rightarrow> ('w, ErrorKind, 'k TokenContext) action" where
  "fetch_context env =
     abind (env_fetch_token env) (\<lambda>result.
     abind get_st (\<lambda>w.
     let token = tfr_token result in
     abind (lift (time_add (sys_now env w) (1000 * tok_duration token))) (\<lambda>valid_until.
     abind (lift (omap_err HawkError (hawk_key env (tok_key token)))) (\<lambda>key.
     ret \<lparr>ctx_token = token, ctx_credentials = (tok_id token, key),
          ctx_server_timestamp = tfr_server_timestamp result, ctx_valid_until = valid_until\<rparr>))))"

definition fetch_token :: "('w, 'k) TokenEnv \<Rightarrow> string option \<Rightarrow> ('w, ErrorKind, 'k TokenState) action" where
  "fetch_token env previous_endpoint w =
     (case fetch_context env w of
        (Ok tc, w') \<Rightarrow>
          (Ok (case previous_endpoint of
                 Some prev \<Rightarrow> if prev = tok_api_endpoint (ctx_token tc) then Token tc else NodeReassigned
               | None \<Rightarrow> Token tc), w')
      | (Err e, w') \<Rightarrow>
          (Ok (case e of BackoffError be \<Rightarrow> Backoff be previous_endpoint
               | _ \<Rightarrow> Failed (Some e) previous_endpoint), w')
      | (Panic p, w') \<Rightarrow> (Panic p, w'))"

definition advance_state ::
    "('w, 'k) TokenEnv \<Rightarrow> 'k TokenState \<Rightarrow> ('w, ErrorKind, 'k TokenState option) action" where
  "advance_state env state =
     (case state of
        NoToken \<Rightarrow> abind (fetch_token env None) (\<lambda>s. ret (Some s))
      | Failed _ existing_endpoint \<Rightarrow> abind (fetch_token env existing_endpoint) (\<lambda>s. ret (Some s))
      | Token existing_context \<Rightarrow>
          abind get_st (\<lambda>w.
          if ctx_is_valid existing_context (env_now env w) then ret None
          else abind (fetch_token env (Some (tok_api_endpoint (ctx_token existing_context)))) (\<lambda>s. ret (Some s)))
      | Backoff until existing_endpoint \<Rightarrow>
          abind get_st (\<lambda>w.
          if env_now env w \<le> until then ret None
          else abind (fetch_token env existing_endpoint) (\<lambda>s. ret (Some s)))
      | NodeReassigned \<Rightarrow> ret None)"

definition with_token ::
    "('w, 'k) TokenEnv \<Rightarrow> ('k TokenContext \<Rightarrow> (ErrorKind, 'a) outcome) \<Rightarrow>
     ('w \<times> 'k TokenState, ErrorKind, 'a) action" where
  "with_token env func = (\<lambda>(w, state).
     case advance_state env state w of
       (Err e, w') \<Rightarrow> (Err e, (w', state))
     | (Panic p, w') \<Rightarrow> (Panic p, (w', state))
     | (Ok new_state, w') \<Rightarrow>
         let state = (case new_state of Some s \<Rightarrow> s | None \<Rightarrow> state) in
         (case state of
            NoToken \<Rightarrow> (Panic ''Can't be in NoToken state after advancing'', (w', state))
          | Token token_context \<Rightarrow> (func token_context, (w', state))
          | Failed e endpoint \<Rightarrow>
              (case e of
                 Some err \<Rightarrow> (Err err, (w', Failed None endpoint))
               | None \<Rightarrow> (Panic ''called Option::unwrap() on a None value'', (w', Failed None endpoint)))
          | NodeReassigned \<Rightarrow> (Err StorageResetError, (w', state))
          | Backoff remaining _ \<Rightarrow> (Err (BackoffError remaining), (w', state))))"

definition hashed_uid :: "('w, 'k) TokenEnv \<Rightarrow> ('w \<times> 'k TokenState, ErrorKind, string) action" where
  "hashed_uid env = with_token env (\<lambda>ctx. Ok (tok_hashed_fxa_uid (ctx_token ctx)))"

definition authorization ::
    "('w, 'k) TokenEnv \<Rightarrow> UrlOps \<Rightarrow>
     (string \<Rightarrow> string \<Rightarrow> nat \<Rightarrow> string \<Rightarrow> string \<times> 'k \<Rightarrow> (string, string) outcome) \<Rightarrow>
     Request \<Rightarrow> ('w \<times> 'k TokenState, ErrorKind, string) action" where
  "authorization env u make_header req = with_token env (\<lambda>ctx. ctx_authorization u make_header ctx req)"

definition api_endpoint :: "('w, 'k) TokenEnv \<Rightarrow> ('w \<times> 'k TokenState, ErrorKind, string) action" where
  "api_endpoint env = with_token env (\<lambda>ctx. Ok (tok_api_endpoint (ctx_token ctx)))"

section \<open>Lemmas\<close>

fun known_endpoint :: "'k TokenState \<Rightarrow> string option" where
  "known_endpoint (Token c) = Some (tok_api_endpoint (ctx_token c))"
| "known_endpoint (Failed _ e) = e"
| "known_endpoint (Backoff _ e) = e"
| "known_endpoint _ = None"

lemma fetch_token_cases:
  assumes "fetch_token env prev w = (r, w')"
  obtains (got) tc where "r = Ok (Token tc)" "prev = None \<or> prev = Some (tok_api_endpoint (ctx_token tc))"
  | (reassigned) e where "r = Ok NodeReassigned" "prev = Some e"
  | (backoff) t where "r = Ok (Backoff t prev)"
  | (failed) e where "r = Ok (Failed (Some e) prev)"
  | (panicked) p where "r = Panic p" "fetch_context env w = (Panic p, w')"
  using assms
  by (cases "fetch_context env w"; cases "fst (fetch_context env w)")
    (auto simp: fetch_token_def split: option.splits ErrorKind.splits if_splits)

text \<open>The states in which no request is made.\<close>

definition rests :: "('w, 'k) TokenEnv \<Rightarrow> 'w \<Rightarrow> 'k TokenState \<Rightarrow> bool" where
  "rests env w s = (case s of Token c \<Rightarrow> env_now env w < ctx_valid_until c
     | Backoff until _ \<Rightarrow> env_now env w \<le> until | NodeReassigned \<Rightarrow> True | _ \<Rightarrow> False)"

lemma advance_state_eq:
  "advance_state env s w =
     (if rests env w s then (Ok None, w)
      else (case fetch_token env (known_endpoint s) w of
          (Ok s2, w') \<Rightarrow> (Ok (Some s2), w') | (Err e, w') \<Rightarrow> (Err e, w') | (Panic p, w') \<Rightarrow> (Panic p, w')))"
  by (cases s) (auto simp: advance_state_def rests_def ctx_is_valid_def abind_def ret_def get_st_def
      split: prod.splits outcome.splits)

lemma with_token_rests:
  assumes "rests env w s"
  shows "with_token env f (w, s) =
     (case s of Token c \<Rightarrow> f c | Backoff u _ \<Rightarrow> Err (BackoffError u) | _ \<Rightarrow> Err StorageResetError, (w, s))"
  using assms by (cases s) (auto simp: with_token_def advance_state_eq rests_def)

lemma with_token_fetches:
  assumes "\<not> rests env w s" "with_token env f (w, s) = (r, (w', s'))"
  obtains (got) tc where "fetch_token env (known_endpoint s) w = (Ok (Token tc), w')" "s' = Token tc" "r = f tc"
      "known_endpoint s = None \<or> known_endpoint s = Some (tok_api_endpoint (ctx_token tc))"
  | (reassigned) e where "s' = NodeReassigned" "r = Err StorageResetError" "known_endpoint s = Some e"
  | (backoff) t where "s' = Backoff t (known_endpoint s)" "r = Err (BackoffError t)"
  | (failed) e where "s' = Failed None (known_endpoint s)" "r = Err e"
  | (panicked) p where "r = Panic p" "s' = s" "fetch_context env w = (Panic p, w')"
proof -
  obtain r1 w1 where f: "fetch_token env (known_endpoint s) w = (r1, w1)" by fastforce
  show ?thesis
    by (rule fetch_token_cases [OF f])
      (use assms f that in \<open>auto simp: with_token_def advance_state_eq\<close>)
qed

lemma with_token_endpoint:
  assumes "with_token env f (w, s) = (r, (w', s'))" "known_endpoint s = Some e \<or> s = NodeReassigned"
  shows "known_endpoint s' = Some e \<or> s' = NodeReassigned"
proof (cases "rests env w s")
  case True
  then show ?thesis using assms by (simp add: with_token_rests)
next
  case False
  then have "s \<noteq> NodeReassigned" by (auto simp: rests_def)
  then show ?thesis using assms(2) by (cases rule: with_token_fetches [OF False assms(1)]) auto
qed

lemma api_endpoint_Ok:
  assumes "api_endpoint env (w, s) = (Ok e, (w', s'))"
  shows "known_endpoint s' = Some e" "known_endpoint s = None \<or> known_endpoint s = Some e"
proof -
  have *: "known_endpoint s' = Some e \<and> (known_endpoint s = None \<or> known_endpoint s = Some e)"
  proof (cases "rests env w s")
    case True
    then show ?thesis using assms by (cases s) (auto simp: api_endpoint_def with_token_rests)
  next
    case False
    show ?thesis
      by (rule with_token_fetches [OF False assms [unfolded api_endpoint_def]]) auto
  qed
  then show "known_endpoint s' = Some e" "known_endpoint s = None \<or> known_endpoint s = Some e" by auto
qed

text \<open>
  A history of calls to \<open>api_endpoint\<close>, each made in an arbitrary state of the outside world.
\<close>

fun endpoint_calls :: "('w, 'k) TokenEnv \<Rightarrow> 'w list \<Rightarrow> 'k TokenState \<Rightarrow> (ErrorKind, string) outcome list" where
  "endpoint_calls env [] s = []"
| "endpoint_calls env (w # ws) s =
     (case api_endpoint env (w, s) of (r, (_, s')) \<Rightarrow> r # endpoint_calls env ws s')"

lemma endpoint_calls_known:
  "known_endpoint s = Some e \<or> s = NodeReassigned \<Longrightarrow> Ok e' \<in> set (endpoint_calls env ws s) \<Longrightarrow> e' = e"
proof (induction ws arbitrary: s)
  case (Cons w ws)
  obtain r w' s' where a: "api_endpoint env (w, s) = (r, (w', s'))" by (metis prod.collapse)
  have k: "known_endpoint s' = Some e \<or> s' = NodeReassigned"
    by (rule with_token_endpoint [OF a [unfolded api_endpoint_def] Cons.prems(1)])
  show ?case
  proof (cases "r = Ok e'")
    case True
    then show ?thesis using api_endpoint_Ok [OF a [unfolded True]] k by auto
  next
    case False
    then have "Ok e' \<in> set (endpoint_calls env ws s')" using Cons.prems(2) a by auto
    then show ?thesis using Cons.IH [OF k] by blast
  qed
qed simp

lemma endpoint_calls_agree:
  "Ok e \<in> set (endpoint_calls env ws s) \<Longrightarrow> Ok e' \<in> set (endpoint_calls env ws s) \<Longrightarrow> e = e'"
proof (induction ws arbitrary: s)
  case (Cons w ws)
  obtain r w' s' where a: "api_endpoint env (w, s) = (r, (w', s'))" by (metis prod.collapse)
  show ?case
  proof (cases "\<exists>x. r = Ok x")
    case True
    then obtain x where x: "r = Ok x" ..
    have "known_endpoint s' = Some x" by (rule api_endpoint_Ok [OF a [unfolded x]])
    then have "Ok y \<in> set (endpoint_calls env ws s') \<Longrightarrow> y = x" for y
      by (intro endpoint_calls_known [of s' x]) simp_all
    then show ?thesis using Cons.prems a x by auto
  next
    case False
    then show ?thesis using Cons a by auto
  qed
qed simp

section \<open>Properties\<close>

text \<open>
  C13. A client never talks to two storage nodes: however the token server and the clock behave,
  all the successful answers of a history of \<open>api_endpoint\<close> calls name the same endpoint. When the
  token server assigns another node, every call fails with \<open>StorageResetError\<close> from then on.
\<close>

theorem one_endpoint_per_provider:
  "(\<forall>e e'. Ok e \<in> set (endpoint_calls env ws NoToken) \<longrightarrow> Ok e' \<in> set (endpoint_calls env ws NoToken) \<longrightarrow> e = e') \<and>
   endpoint_calls env ws NodeReassigned = replicate (length ws) (Err StorageResetError)"
proof
  have "api_endpoint env (w, NodeReassigned) = (Err StorageResetError, (w, NodeReassigned))" for w
    by (simp add: api_endpoint_def with_token_rests rests_def)
  then show "endpoint_calls env ws NodeReassigned = replicate (length ws) (Err StorageResetError)"
    by (induction ws) auto
qed (intro allI impI, rule endpoint_calls_agree)

text \<open>A token server for the witnesses; the world is the clock.\<close>

definition env1 :: "(nat, unit) TokenEnv" where
  "env1 = \<lparr>env_fetch_token = \<lambda>w. (Ok \<lparr>tfr_token = \<lparr>tok_id = ''i'', tok_key = ''k'', tok_api_endpoint = ''https://node'',
       tok_uid = 1, tok_duration = 3600, tok_hashed_fxa_uid = ''h''\<rparr>, tfr_server_timestamp = 1\<rparr>, w),
     env_now = \<lambda>w. w, sys_now = \<lambda>w. w, hawk_key = \<lambda>_. Ok ()\<rparr>"

theorem one_endpoint_per_provider_witness:
  "endpoint_calls env1 [5, 10 ^ 9] NoToken = [Ok ''https://node'', Ok ''https://node''] \<and>
   endpoint_calls env1 [5] NodeReassigned = [Err StorageResetError]"
  using one_endpoint_per_provider [of env1 "[5]"]
  by (simp add: api_endpoint_def with_token_def advance_state_def fetch_token_def fetch_context_def
      time_add_def env1_def abind_def action_defs ctx_is_valid_def Let_def)

text \<open>
  C21. Tokens and back-off are honoured: while a token is valid, or a back-off has not run out, a call
  makes no request (the outside world and the state stay as they are) and uses the token it has or
  reports the back-off; otherwise the function runs only on a token fetched by this call.
\<close>

theorem token_reuse_and_backoff:
  "(\<forall>c. env_now env w < ctx_valid_until c \<longrightarrow> with_token env f (w, Token c) = (f c, (w, Token c))) \<and>
   (\<forall>t e. env_now env w \<le> t \<longrightarrow> with_token env f (w, Backoff t e) = (Err (BackoffError t), (w, Backoff t e))) \<and>
   (\<forall>s r w' s' a. \<not> rests env w s \<longrightarrow> with_token env (\<lambda>c. Ok c) (w, s) = (Ok a, (w', s')) \<longrightarrow>
      s' = Token a \<and> fetch_token env (known_endpoint s) w = (Ok (Token a), w'))"
proof (intro conjI allI impI)
  fix s w' s' a
  assume r: "\<not> rests env w s" "with_token env (\<lambda>c. Ok c) (w, s) = (Ok a, (w', s'))"
  show "s' = Token a" by (rule with_token_fetches [OF r]) simp_all
  show "fetch_token env (known_endpoint s) w = (Ok (Token a), w')" by (rule with_token_fetches [OF r]) simp_all
qed (simp_all add: with_token_rests rests_def)

theorem token_reuse_and_backoff_witness:
  "with_token env1 (\<lambda>_. Ok True) (5, Backoff 7 None) = (Err (BackoffError 7), (5, Backoff 7 None))"
  using token_reuse_and_backoff [of env1 5 "\<lambda>_. Ok True"] by (simp add: env1_def)

text \<open>
  The provider does not panic of itself: whatever state it is in, a call panics only if the
  function or the fetching of a token does. The state without a token is never left for use and a
  stored error is never taken out twice.
\<close>

theorem with_token_panics_only_outside:
  assumes "is_Panic (fst (with_token env f (w, s)))"
  shows "(\<exists>c. is_Panic (f c)) \<or> is_Panic (fst (fetch_context env w))"
proof (cases "rests env w s")
  case True
  then show ?thesis using assms by (cases s) (auto simp: with_token_rests)
next
  case False
  obtain r w' s' where t: "with_token env f (w, s) = (r, (w', s'))" by (metis prod.collapse)
  show ?thesis by (rule with_token_fetches [OF False t]) (use assms t in auto)
qed

theorem with_token_panics_only_outside_witness:
  "is_Panic (fst (fetch_context (env1\<lparr>sys_now := \<lambda>_. 2 ^ 80\<rparr>) 0))"
proof -
  have "is_Panic (fst (with_token (env1\<lparr>sys_now := \<lambda>_. 2 ^ 80\<rparr>) (\<lambda>_. Ok ()) (0, Failed None (Some ''e''))))"
    by (simp add: with_token_def advance_state_def fetch_token_def fetch_context_def
      time_add_def env1_def abind_def action_defs Let_def)
  from with_token_panics_only_outside [OF this] show ?thesis by simp
qed

end
