(* ===== verification/PostQueue.thy ===== *)
theory PostQueue
  imports BsoRecord
begin

text \<open>
  The upload queue of \<^verbatim>\<open>components/sync15/src/request.rs\<close>: limits, responses, the response
  handler and the queue that packs records into POST bodies and batches. The HTTP client behind
  \<^verbatim>\<open>BatchPoster\<close> is the argument \<open>post\<close>, an action on the outside world, and the trait
  \<^verbatim>\<open>PostResponseHandler\<close> is the argument \<open>handle\<close>, an action on the handler's state.
  The JSON texts of records and payloads are made by \<^verbatim>\<open>serde_json\<close> and are arguments
  (\<open>bso_json\<close>, \<open>payload_json\<close>).
\<close>

section \<open>Requests\<close>

datatype RequestOrder = Oldest | Newest | Index

fun request_order_display :: "RequestOrder \<Rightarrow> string" where
  "request_order_display Oldest = ''oldest''"
| "request_order_display Newest = ''newest''"
| "request_order_display Index = ''index''"

record CollectionRequest =
  rq_collection :: string
  rq_full :: bool
  rq_ids :: "string list option"
  rq_limit :: usize
  rq_older :: "ServerTimestamp option"
  rq_newer :: "ServerTimestamp option"
  rq_order :: "RequestOrder option"
  rq_commit :: bool
  rq_batch :: "string option"

definition collection_request_new :: "string \<Rightarrow> CollectionRequest" where
  "collection_request_new collection =
     \<lparr>rq_collection = collection, rq_full = False, rq_ids = None, rq_limit = 0, rq_older = None,
      rq_newer = None, rq_order = None, rq_commit = False, rq_batch = None\<rparr>"

fun join :: "string \<Rightarrow> string list \<Rightarrow> string" where
  "join sep [] = []"
| "join sep [x] = x"
| "join sep (x # y # xs) = x @ sep @ join sep (y # xs)"

text \<open>
  The query pairs in the order they are appended; \<open>show_nat\<close> and \<open>show_ts\<close> are the
  formatting of numbers.
\<close>

definition build_query ::
    "(usize \<Rightarrow> string) \<Rightarrow> (ServerTimestamp \<Rightarrow> string) \<Rightarrow> CollectionRequest \<Rightarrow> (string \<times> string) list" where
  "build_query show_nat show_ts r =
     (if rq_full r then [(''full'', ''1'')] else []) @
     (if rq_limit r > 0 then [(''limit'', show_nat (rq_limit r))] else []) @
     (case rq_ids r of Some ids \<Rightarrow> [(''ids'', join '','' ids)] | None \<Rightarrow> []) @
     (case rq_batch r of Some b \<Rightarrow> [(''batch'', b)] | None \<Rightarrow> []) @
     (if rq_commit r then [(''commit'', ''true'')] else []) @
     (case rq_older r of Some ts \<Rightarrow> [(''older'', show_ts ts)] | None \<Rightarrow> []) @
     (case rq_newer r of Some ts \<Rightarrow> [(''newer'', show_ts ts)] | None \<Rightarrow> []) @
     (case rq_order r of Some o' \<Rightarrow> [(''sort'', request_order_display o')] | None \<Rightarrow> [])"

section \<open>Limits\<close>

record LimitTracker =
  max_bytes :: usize
  max_records :: usize
  cur_bytes :: usize
  cur_records :: usize

definition limit_tracker_new :: "usize \<Rightarrow> usize \<Rightarrow> LimitTracker" where
  "limit_tracker_new mb mr = \<lparr>max_bytes = mb, max_records = mr, cur_bytes = 0, cur_records = 0\<rparr>"

definition clear :: "LimitTracker \<Rightarrow> LimitTracker" where
  "clear t = t\<lparr>cur_records := 0, cur_bytes := 0\<rparr>"

definition can_add_record :: "LimitTracker \<Rightarrow> usize \<Rightarrow> bool" where
  "can_add_record t payload_size \<longleftrightarrow>
     cur_records t < max_records t \<and> cur_bytes t + payload_size \<le> max_bytes t"

definition can_never_add :: "LimitTracker \<Rightarrow> usize \<Rightarrow> bool" where
  "can_never_add t record_size \<longleftrightarrow> record_size \<ge> max_bytes t"

definition record_added :: "usize \<Rightarrow> LimitTracker \<Rightarrow> ('e, LimitTracker) outcome" where
  "record_added record_size t =
     (if can_add_record t record_size
      then Ok (t\<lparr>cur_records := cur_records t + 1, cur_bytes := cur_bytes t + record_size\<rparr>)
      else Panic ''LimitTracker::record_added caller must check can_add_record'')"

section \<open>Responses\<close>

record UploadResult =
  ur_batch :: "string option"
  ur_failed :: "(string \<times> string) list"
  ur_success :: "string list"

record PostResponse =
  pr_status :: nat
  pr_result :: UploadResult
  pr_last_modified :: ServerTimestamp

definition post_response_is_success :: "PostResponse \<Rightarrow> bool" where
  "post_response_is_success r = is_success_code (pr_status r)"

datatype BatchState = Unsupported | NoBatch | InBatch string

record NormalResponseHandler =
  failed_ids :: "string list"
  successful_ids :: "string list"
  allow_failed :: bool
  pending_failed :: "string list"
  pending_success :: "string list"

definition normal_response_handler_new :: "bool \<Rightarrow> NormalResponseHandler" where
  "normal_response_handler_new af =
     \<lparr>failed_ids = [], successful_ids = [], allow_failed = af, pending_failed = [], pending_success = []\<rparr>"

definition handle_response :: "PostResponse \<Rightarrow> bool \<Rightarrow> (NormalResponseHandler, ErrorKind, unit) action" where
  "handle_response r mid_batch h =
     (if \<not> post_response_is_success r then
        (if pr_status r = PRECONDITION_FAILED then (Err BatchInterrupted, h)
         else (Err (StorageHttpError (pr_status r) ''collection storage (TODO: record route somewhere)''), h))
      else if ur_failed (pr_result r) \<noteq> [] \<and> \<not> allow_failed h then (Err RecordUploadFailed, h)
      else
        let h1 = h\<lparr>pending_success := pending_success h @ ur_success (pr_result r),
                   pending_failed := pending_failed h @ map fst (ur_failed (pr_result r))\<rparr>
        in (Ok (), if mid_batch then h1
                   else h1\<lparr>successful_ids := successful_ids h1 @ pending_success h1, pending_success := [],
                           failed_ids := failed_ids h1 @ pending_failed h1, pending_failed := []\<rparr>))"

section \<open>The queue\<close>

record 'h PostQueue =
  on_response :: 'h
  post_limits :: LimitTracker
  batch_limits :: LimitTracker
  max_payload_bytes :: usize
  q_max_request_bytes :: usize
  queued :: bytes
  batch :: BatchState
  last_modified :: ServerTimestamp

type_synonym 'w poster =
  "bytes \<Rightarrow> ServerTimestamp \<Rightarrow> string option \<Rightarrow> bool \<Rightarrow> ('w, ErrorKind, PostResponse) action"

type_synonym 'h handler = "PostResponse \<Rightarrow> bool \<Rightarrow> ('h, ErrorKind, unit) action"

definition post_queue_new :: "InfoConfiguration \<Rightarrow> ServerTimestamp \<Rightarrow> 'h \<Rightarrow> 'h PostQueue" where
  "post_queue_new config ts on_resp =
     \<lparr>on_response = on_resp,
      post_limits = limit_tracker_new (max_post_bytes config) (max_post_records config),
      batch_limits = limit_tracker_new (max_total_bytes config) (max_total_records config),
      max_payload_bytes = max_record_payload_bytes config,
      q_max_request_bytes = max_request_bytes config,
      queued = [], batch = NoBatch, last_modified = ts\<rparr>"

definition in_batch :: "'h PostQueue \<Rightarrow> bool" where
  "in_batch q = (case batch q of Unsupported \<Rightarrow> False | NoBatch \<Rightarrow> False | InBatch _ \<Rightarrow> True)"

text \<open>\<^verbatim>\<open>self.on_response.handle_response\<close>, on the queue.\<close>

definition respond :: "'h handler \<Rightarrow> PostResponse \<Rightarrow> bool \<Rightarrow> ('h PostQueue, ErrorKind, unit) action" where
  "respond handle resp mid_batch q =
     (case handle resp mid_batch (on_response q) of (r, h) \<Rightarrow> (r, q\<lparr>on_response := h\<rparr>))"

text \<open>
  \<open>flush\<close> in two parts: what happens up to the answer of the server, and what the answer does
  (\<open>flush_response\<close>).
\<close>

definition flush_response :: "'h handler \<Rightarrow> bool \<Rightarrow> PostResponse \<Rightarrow> ('h PostQueue, ErrorKind, unit) action" where
  "flush_response handle want_commit resp =
     (if \<not> post_response_is_success resp
      then abind (respond handle resp (\<not> want_commit)) (\<lambda>_.
           throw (StorageHttpError (pr_status resp) ''Client bug!''))
      else abind get_st (\<lambda>q0.
        let q1 = (if want_commit \<or> batch q0 = Unsupported
                  then q0\<lparr>last_modified := pr_last_modified resp\<rparr> else q0) in
        if want_commit
        then abind (put_st (q1\<lparr>batch := NoBatch\<rparr>)) (\<lambda>_. respond handle resp False)
        else if pr_status resp \<noteq> ACCEPTED
        then (if in_batch q1
              then abind (put_st q1) (\<lambda>_. throw (ServerBatchProblem
                     ''Server responded non-202 success code while a batch was in progress''))
              else abind (put_st (q1\<lparr>last_modified := pr_last_modified resp, batch := Unsupported,
                                     batch_limits := clear (batch_limits q1)\<rparr>)) (\<lambda>_.
                   respond handle resp False))
        else abind (put_st q1) (\<lambda>_.
          case ur_batch (pr_result resp) of
            None \<Rightarrow> throw (ServerBatchProblem ''Invalid server response: 202 without a batch ID'')
          | Some batch_id \<Rightarrow>
              if (case batch q1 of InBatch cur_id \<Rightarrow> cur_id \<noteq> batch_id | _ \<Rightarrow> False)
              then throw (ServerBatchProblem ''Invalid server response: 202 without a batch ID'')
              else abind (put_st (q1\<lparr>batch := InBatch batch_id, last_modified := pr_last_modified resp\<rparr>))
                     (\<lambda>_. respond handle resp True))))"

definition batch_id_of :: "BatchState \<Rightarrow> string option" where
  "batch_id_of b = (case b of Unsupported \<Rightarrow> None | NoBatch \<Rightarrow> Some ''true'' | InBatch s \<Rightarrow> Some s)"

definition flush :: "'w poster \<Rightarrow> 'h handler \<Rightarrow> bool \<Rightarrow> ('w \<times> 'h PostQueue, ErrorKind, unit) action" where
  "flush post handle want_commit = (\<lambda>(w, q).
     if queued q = [] then
       (if in_batch q then Panic ''Bug: Somehow we're in a batch but have no queued records'' else Ok (), (w, q))
     else
       let body = queued q @ '']'';
           batch_id = batch_id_of (batch q);
           is_commit = (want_commit \<and> batch_id \<noteq> None)
       in (case post body (last_modified q) batch_id is_commit w of
             (Panic p, w') \<Rightarrow> (Panic p, (w', q\<lparr>queued := body\<rparr>))
           | (resp_or_error, w') \<Rightarrow>
               let q1 = q\<lparr>queued := []\<rparr>;
                   q2 = (if want_commit \<or> batch q1 = Unsupported
                         then q1\<lparr>batch_limits := clear (batch_limits q1)\<rparr> else q1);
                   q3 = q2\<lparr>post_limits := clear (post_limits q2)\<rparr>
               in (case resp_or_error of
                     Ok resp \<Rightarrow> (case flush_response handle want_commit resp q3 of (r, q') \<Rightarrow> (r, (w', q')))
                   | Err e \<Rightarrow> (Err e, (w', q3))
                   | Panic p \<Rightarrow> (Panic p, (w', q3)))))"

record Serde =
  bso_json :: "EncryptedBso \<Rightarrow> string"
  payload_json :: "EncryptedPayload \<Rightarrow> string"

definition push_record :: "Serde \<Rightarrow> EncryptedBso \<Rightarrow> bytes \<Rightarrow> bytes" where
  "push_record js record qd = qd @ (if qd = [] then ''['' else '','') @ bso_json js record"

text \<open>\<open>add_queued\<close> is the end of \<open>enqueue\<close>: both trackers count the record.\<close>

definition add_queued :: "usize \<Rightarrow> ('w \<times> 'h PostQueue, ErrorKind, bool) action" where
  "add_queued payload_length = (\<lambda>(w, q).
     case record_added payload_length (post_limits q) of
       Ok pl \<Rightarrow> (let q1 = q\<lparr>post_limits := pl\<rparr> in
          (case record_added payload_length (batch_limits q1) of
             Ok bl \<Rightarrow> (Ok True, (w, q1\<lparr>batch_limits := bl\<rparr>))
           | Err e \<Rightarrow> (Err e, (w, q1))
           | Panic p \<Rightarrow> (Panic p, (w, q1))))
     | Err e \<Rightarrow> (Err e, (w, q))
     | Panic p \<Rightarrow> (Panic p, (w, q)))"

definition enqueue ::
    "bool \<Rightarrow> Serde \<Rightarrow> 'w poster \<Rightarrow> 'h handler \<Rightarrow> EncryptedBso \<Rightarrow> ('w \<times> 'h PostQueue, ErrorKind, bool) action" where
  "enqueue dbg js post handle record = (\<lambda>(w, q).
     let payload_length = serialized_len (payload_json js) (bso_payload record) in
     if can_never_add (post_limits q) payload_length \<or> can_never_add (batch_limits q) payload_length
        \<or> payload_length \<ge> max_payload_bytes q
     then (Ok False, (w, q))
     else
       let item_start = length (queued q);
           written = push_record js record (queued q);
           item_end = length written
       in if dbg \<and> \<not> item_end \<ge> payload_length
          then (Panic ''EncryptedPayload::serialized_len is bugged'', (w, q\<lparr>queued := written\<rparr>))
          else if item_end - item_start + 1 \<ge> q_max_request_bytes q then (Ok False, (w, q))
          else
            let can_post_record = can_add_record (post_limits q) payload_length;
                can_batch_record = can_add_record (batch_limits q) payload_length;
                can_send_record = item_end < q_max_request_bytes q
            in if \<not> can_post_record \<or> \<not> can_send_record \<or> \<not> can_batch_record
               then abind (flush post handle (\<not> can_batch_record)) (\<lambda>_.
                    abind get_st (\<lambda>(w', q').
                    abind (put_st (w', q'\<lparr>queued := push_record js record (queued q')\<rparr>)) (\<lambda>_.
                    add_queued payload_length))) (w, q)
               else add_queued payload_length (w, q\<lparr>queued := written\<rparr>))"

record UploadInfo =
  ui_successful_ids :: "string list"
  ui_failed_ids :: "string list"
  ui_modified_timestamp :: ServerTimestamp

definition completed_upload_info :: "NormalResponseHandler PostQueue \<Rightarrow> UploadInfo \<times> NormalResponseHandler PostQueue" where
  "completed_upload_info q =
     (let h = on_response q in
      (\<lparr>ui_successful_ids = successful_ids h,
        ui_failed_ids = failed_ids h @ pending_failed h @ pending_success h,
        ui_modified_timestamp = last_modified q\<rparr>,
       q\<lparr>on_response := h\<lparr>successful_ids := [], failed_ids := [], pending_failed := [], pending_success := []\<rparr>\<rparr>))"

end
