(* ===== verification/PostQueueCorrect.thy ===== *)
theory PostQueueCorrect
  imports PostQueue
begin

text \<open>
  Correctness of the upload queue. The contract of a response handler is a locale, interpreted on
  \<open>handle_response\<close>; a poster is observed through \<open>logged\<close>, which records every request
  and its answer; the invariant relates the queue to the records it holds and to the requests
  made so far.
\<close>

section \<open>Bodies\<close>

abbreviation plen :: "Serde \<Rightarrow> EncryptedBso \<Rightarrow> usize" where
  "plen js r \<equiv> serialized_len (payload_json js) (bso_payload r)"

definition payload_bytes :: "Serde \<Rightarrow> EncryptedBso list \<Rightarrow> usize" where
  "payload_bytes js rs = sum_list (map (plen js) rs)"

definition open_body :: "Serde \<Rightarrow> EncryptedBso list \<Rightarrow> bytes" where
  "open_body js rs = (if rs = [] then [] else ''['' @ join '','' (map (bso_json js) rs))"

lemma payload_bytes_simps [simp]:
  "payload_bytes js [] = 0" "payload_bytes js (rs @ rs') = payload_bytes js rs + payload_bytes js rs'"
  "payload_bytes js [r] = plen js r"
  by (simp_all add: payload_bytes_def)

lemma join_snoc: "xs \<noteq> [] \<Longrightarrow> join sep (xs @ [x]) = join sep xs @ sep @ x"
  by (induction sep xs rule: join.induct) auto

lemma open_body_Nil_iff [simp]: "open_body js rs = [] \<longleftrightarrow> rs = []" "open_body js [] = []"
  by (auto simp: open_body_def)

lemma push_record_open_body: "push_record js r (open_body js rs) = open_body js (rs @ [r])"
  by (cases "rs = []") (simp_all add: push_record_def open_body_def join_snoc)

lemma length_push_record: "length (push_record js r qd) = length qd + length (bso_json js r) + 1"
  by (simp add: push_record_def)

section \<open>The handler's contract\<close>

text \<open>
  A handler must fail on unsuccessful responses and must not panic; \<open>tracks h resps mid\<close> is
  what it promises to know after the responses \<open>resps\<close>, the last of them in the middle of a
  batch or not.
\<close>

locale response_handler =
  fixes handle :: "'h handler"
    and tracks :: "'h \<Rightarrow> PostResponse list \<Rightarrow> bool \<Rightarrow> bool"
  assumes bails_out: "\<not> post_response_is_success r \<Longrightarrow> \<exists>e. fst (handle r mid h) = Err e"
    and no_panic: "fst (handle r mid h) \<noteq> Panic p"
    and tracks_step: "tracks h rs b \<Longrightarrow> handle r mid h = (Ok (), h') \<Longrightarrow> tracks h' (rs @ [r]) mid"

definition normal_tracks :: "bool \<Rightarrow> NormalResponseHandler \<Rightarrow> PostResponse list \<Rightarrow> bool \<Rightarrow> bool" where
  "normal_tracks af h rs mid \<longleftrightarrow> allow_failed h = af \<and>
     successful_ids h @ pending_success h = concat (map (\<lambda>r. ur_success (pr_result r)) rs) \<and>
     failed_ids h @ pending_failed h = concat (map (\<lambda>r. map fst (ur_failed (pr_result r))) rs) \<and>
     (\<not> mid \<longrightarrow> pending_success h = [] \<and> pending_failed h = []) \<and>
     (\<not> af \<longrightarrow> failed_ids h = [] \<and> pending_failed h = [])"

interpretation normal: response_handler handle_response "normal_tracks af" for af
proof (unfold_locales, goal_cases)
  case (3 h rs b r mid h')
  then show ?case
    by (auto simp: handle_response_def normal_tracks_def Let_def split: if_splits)
qed (auto simp: handle_response_def Let_def)

section \<open>Observing the requests\<close>

record SentPost =
  p_body :: bytes
  p_xius :: ServerTimestamp
  p_batch :: "string option"
  p_commit :: bool
  p_result :: "(ErrorKind, PostResponse) outcome"

definition logged :: "'w poster \<Rightarrow> ('w \<times> SentPost list) poster" where
  "logged post body xius batch_id commit = (\<lambda>(w, l).
     case post body xius batch_id commit w of (r, w') \<Rightarrow>
       (r, (w', l @ [\<lparr>p_body = body, p_xius = xius, p_batch = batch_id, p_commit = commit, p_result = r\<rparr>])))"

definition poster_panics :: "'w poster \<Rightarrow> bool" where
  "poster_panics post \<longleftrightarrow> (\<exists>body xius batch_id commit w. is_Panic (fst (post body xius batch_id commit w)))"

section \<open>Flushing\<close>

text \<open>The queue after a successful flush.\<close>

definition flushed :: "bool \<Rightarrow> PostResponse \<Rightarrow> 'h PostQueue \<Rightarrow> 'h PostQueue \<Rightarrow> bool" where
  "flushed wc resp q q' \<longleftrightarrow>
     post_response_is_success resp \<and> queued q' = [] \<and> post_limits q' = clear (post_limits q) \<and>
     batch_limits q' = (if wc \<or> batch q = Unsupported \<or> pr_status resp \<noteq> ACCEPTED
                        then clear (batch_limits q) else batch_limits q) \<and>
     max_payload_bytes q' = max_payload_bytes q \<and> q_max_request_bytes q' = q_max_request_bytes q \<and>
     last_modified q' = pr_last_modified resp \<and>
     (if wc then batch q' = NoBatch
      else if pr_status resp \<noteq> ACCEPTED then batch q' = Unsupported
      else \<exists>i. ur_batch (pr_result resp) = Some i \<and> batch q' = InBatch i \<and>
             (\<forall>j. batch q = InBatch j \<longrightarrow> i = j))"

context response_handler
begin

lemma respond_cases:
  obtains e q' where "respond handle resp mid q = (Err e, q')"
  | h where "respond handle resp mid q = (Ok (), q\<lparr>on_response := h\<rparr>)" "handle resp mid (on_response q) = (Ok (), h)"
proof (cases "handle resp mid (on_response q)")
  case (Pair r h)
  then show ?thesis
    using that no_panic [of resp mid "on_response q"] by (cases r) (auto simp: respond_def)
qed

lemma flush_response_cases:
  obtains (fails) e q' where "flush_response handle wc resp q = (Err e, q')"
  | (works) b h where "post_response_is_success resp"
      "handle resp (\<not> wc \<and> pr_status resp = ACCEPTED) (on_response q) = (Ok (), h)"
      "flush_response handle wc resp q = (Ok (), q\<lparr>last_modified := pr_last_modified resp, batch := b,
         batch_limits := if \<not> wc \<and> pr_status resp \<noteq> ACCEPTED then clear (batch_limits q) else batch_limits q,
         on_response := h\<rparr>)"
      "if wc then b = NoBatch else if pr_status resp \<noteq> ACCEPTED then b = Unsupported
       else \<exists>i. ur_batch (pr_result resp) = Some i \<and> b = InBatch i \<and> (\<forall>j. batch q = InBatch j \<longrightarrow> i = j)"
proof (cases "post_response_is_success resp")
  case False
  obtain e h where "handle resp (\<not> wc) (on_response q) = (Err e, h)"
    using bails_out [OF False] by (metis prod.collapse)
  then show ?thesis using False
    by (intro fails [of e "q\<lparr>on_response := h\<rparr>"]) (simp add: flush_response_def respond_def abind_def)
next
  case True
  have r: "thesis" if "flush_response handle wc resp q = respond handle resp mid
        (q\<lparr>last_modified := pr_last_modified resp, batch := b, batch_limits := bl\<rparr>)"
      "mid = (\<not> wc \<and> pr_status resp = ACCEPTED)"
      "bl = (if \<not> wc \<and> pr_status resp \<noteq> ACCEPTED then clear (batch_limits q) else batch_limits q)"
      "if wc then b = NoBatch else if pr_status resp \<noteq> ACCEPTED then b = Unsupported
       else \<exists>i. ur_batch (pr_result resp) = Some i \<and> b = InBatch i \<and> (\<forall>j. batch q = InBatch j \<longrightarrow> i = j)" for mid b bl
  proof (rule respond_cases [of resp mid "q\<lparr>last_modified := pr_last_modified resp, batch := b, batch_limits := bl\<rparr>"], goal_cases)
    case 1
    then show ?case using that(1) by (intro fails) simp
  next
    case (2 h)
    then show ?case using that True by (intro works [of h b]) simp_all
  qed
  show ?thesis
  proof (cases wc)
    case wc: True
    show ?thesis by (rule r [where mid = False and b = NoBatch and bl = "batch_limits q"]) (simp_all add: wc flush_response_def True Let_def)
  next
    case wc: False
    show ?thesis
    proof (cases "pr_status resp = ACCEPTED")
      case False
      show ?thesis
      proof (cases "in_batch q")
        case ib: True
        then have "batch q \<noteq> Unsupported" by (auto simp: in_batch_def)
        then show ?thesis using False wc True ib
          by (intro fails) (simp add: flush_response_def Let_def throw_def)
      next
        case nb: False
        show ?thesis
          by (rule r [where mid = False and b = Unsupported and bl = "clear (batch_limits q)"])
            (use nb False wc True in \<open>simp_all add: flush_response_def Let_def in_batch_def\<close>)
      qed
    next
      case acc: True
      show ?thesis
      proof (cases "ur_batch (pr_result resp)")
        case None
        then show ?thesis using acc wc True
          by (intro fails) (simp add: flush_response_def Let_def throw_def)
      next
        case (Some i)
        show ?thesis
        proof (cases "\<exists>j. batch q = InBatch j \<and> j \<noteq> i")
          case ne: True
          then show ?thesis using acc wc True Some
            by (intro fails) (auto simp: flush_response_def Let_def throw_def)
        next
          case eq: False
          have comm: "q\<lparr>batch := InBatch i, last_modified := x\<rparr> = q\<lparr>last_modified := x, batch := InBatch i\<rparr>" for x
            by (cases q) simp
          show ?thesis
            by (rule r [where mid = True and b = "InBatch i" and bl = "batch_limits q"])
              (use eq acc wc True Some in \<open>auto simp: flush_response_def Let_def comm split: BatchState.splits\<close>)
        qed
      qed
    qed
  qed
qed

lemma flush_logged:
  assumes "queued q \<noteq> []"
    and "flush (logged post) handle wc ((w, l), q) = (res, ((w', l'), q'))"
  obtains r where "l' = l @ [\<lparr>p_body = queued q @ '']'', p_xius = last_modified q, p_batch = batch_id_of (batch q),
       p_commit = (wc \<and> batch q \<noteq> Unsupported), p_result = r\<rparr>]"
    "is_Panic res \<longrightarrow> poster_panics post"
    "res = Ok () \<longrightarrow> (\<exists>resp. r = Ok resp \<and> flushed wc resp q q' \<and>
       handle resp (\<not> wc \<and> pr_status resp = ACCEPTED) (on_response q) = (Ok (), on_response q'))"
proof -
  obtain r w1 where p: "post (queued q @ '']'') (last_modified q) (batch_id_of (batch q))
      (wc \<and> batch_id_of (batch q) \<noteq> None) w = (r, w1)" by fastforce
  have pp: "is_Panic r \<longrightarrow> poster_panics post" using p unfolding poster_panics_def by (metis fst_conv)
  have bi: "batch_id_of (batch q) = None \<longleftrightarrow> batch q = Unsupported"
    by (simp add: batch_id_of_def split: BatchState.splits)
  define q3 where "q3 = q\<lparr>queued := [], batch_limits := (if wc \<or> batch q = Unsupported then clear (batch_limits q)
      else batch_limits q), post_limits := clear (post_limits q)\<rparr>"
  have f: "flush (logged post) handle wc ((w, l), q) =
    (let lw = (w1, l @ [\<lparr>p_body = queued q @ '']'', p_xius = last_modified q, p_batch = batch_id_of (batch q),
       p_commit = (wc \<and> batch q \<noteq> Unsupported), p_result = r\<rparr>]) in
     case r of Panic p \<Rightarrow> (Panic p, (lw, q\<lparr>queued := queued q @ '']''\<rparr>))
     | Err e \<Rightarrow> (Err e, (lw, q3))
     | Ok resp \<Rightarrow> (case flush_response handle wc resp q3 of (x, qq) \<Rightarrow> (x, (lw, qq))))"
    using assms(1) p
    by (simp add: flush_def logged_def Let_def bi q3_def del: not_None_eq split: outcome.splits)
  have clear2: "clear (clear t) = clear t" for t by (simp add: clear_def)
  show ?thesis
  proof (cases r)
    case (Ok resp)
    show ?thesis
    proof (cases rule: flush_response_cases [where wc = wc and resp = resp and q = q3])
      case (fails e q'')
      show ?thesis by (rule that [of r]) (use assms(2) f Ok fails in \<open>auto simp: Let_def\<close>)
    next
      case (works b h)
      show ?thesis
      proof (rule that [of r])
        show "res = Ok () \<longrightarrow> (\<exists>resp. r = Ok resp \<and> flushed wc resp q q' \<and>
           handle resp (\<not> wc \<and> pr_status resp = ACCEPTED) (on_response q) = (Ok (), on_response q'))"
          using assms(2) f Ok works by (auto simp: Let_def flushed_def q3_def clear2)
      qed (use assms(2) f Ok works in \<open>auto simp: Let_def\<close>)
    qed
  qed (use assms(2) f pp that [of r] in \<open>auto simp: Let_def\<close>)
qed

end

section \<open>The invariant\<close>

definition fits :: "InfoConfiguration \<Rightarrow> Serde \<Rightarrow> EncryptedBso \<Rightarrow> bool" where
  "fits cfg js r \<longleftrightarrow> plen js r < max_post_bytes cfg \<and> plen js r < max_total_bytes cfg \<and>
     plen js r < max_record_payload_bytes cfg \<and> length (bso_json js r) + 2 < max_request_bytes cfg"

definition chunk_ok :: "InfoConfiguration \<Rightarrow> Serde \<Rightarrow> EncryptedBso list \<Rightarrow> bool" where
  "chunk_ok cfg js ch \<longleftrightarrow> ch \<noteq> [] \<and> length ch \<le> max_post_records cfg \<and>
     payload_bytes js ch \<le> max_post_bytes cfg \<and> length (open_body js ch) < max_request_bytes cfg"

text \<open>
  The records and payload bytes that a batch has received so far. A request with the batch id
  \<^verbatim>\<open>true\<close> opens a batch, one with another id continues it.
\<close>

definition acc_step :: "Serde \<Rightarrow> SentPost \<times> EncryptedBso list \<Rightarrow> usize \<times> usize \<Rightarrow> usize \<times> usize" where
  "acc_step js = (\<lambda>(p, ch) (n, b). case p_batch p of
       None \<Rightarrow> (0, 0)
     | Some i \<Rightarrow> if i = ''true'' then (length ch, payload_bytes js ch)
                else (n + length ch, b + payload_bytes js ch))"

definition acc_of :: "Serde \<Rightarrow> (SentPost \<times> EncryptedBso list) list \<Rightarrow> usize \<times> usize" where
  "acc_of js xs = fold (acc_step js) xs (0, 0)"

definition in_total :: "InfoConfiguration \<Rightarrow> usize \<times> usize \<Rightarrow> bool" where
  "in_total cfg a \<longleftrightarrow> fst a \<le> max_total_records cfg \<and> snd a \<le> max_total_bytes cfg"

definition totals_ok :: "InfoConfiguration \<Rightarrow> Serde \<Rightarrow> (SentPost \<times> EncryptedBso list) list \<Rightarrow> bool" where
  "totals_ok cfg js xs \<longleftrightarrow> (\<forall>n \<le> length xs. in_total cfg (acc_of js (take n xs)))"

definition posts_ok :: "InfoConfiguration \<Rightarrow> Serde \<Rightarrow> (SentPost \<times> EncryptedBso list) list \<Rightarrow> bool" where
  "posts_ok cfg js xs \<longleftrightarrow>
     (\<forall>(p, ch) \<in> set xs. p_body p = open_body js ch @ '']'' \<and> chunk_ok cfg js ch) \<and> totals_ok cfg js xs"

text \<open>How a request depends on the answer to the one before it.\<close>

definition link :: "SentPost \<Rightarrow> SentPost \<Rightarrow> bool" where
  "link p p' \<longleftrightarrow> (case p_result p of
       Ok r \<Rightarrow> post_response_is_success r \<and> p_xius p' = pr_last_modified r \<and>
         (p_commit p \<longrightarrow> p_batch p' = Some ''true'') \<and>
         (\<not> p_commit p \<longrightarrow> p_batch p \<noteq> None \<longrightarrow>
            p_batch p' = (if pr_status r = ACCEPTED then ur_batch (pr_result r) else None))
     | _ \<Rightarrow> False)"

definition q_link :: "'h PostQueue \<Rightarrow> SentPost \<Rightarrow> bool" where
  "q_link q p \<longleftrightarrow> (case p_result p of
       Ok r \<Rightarrow> post_response_is_success r \<and> last_modified q = pr_last_modified r \<and>
         (p_commit p \<longrightarrow> batch q = NoBatch) \<and>
         (\<not> p_commit p \<longrightarrow> p_batch p \<noteq> None \<longrightarrow>
            batch_id_of (batch q) = (if pr_status r = ACCEPTED then ur_batch (pr_result r) else None))
     | _ \<Rightarrow> False)"

definition resps :: "SentPost list \<Rightarrow> PostResponse list" where
  "resps ps = concat (map (\<lambda>p. case p_result p of Ok r \<Rightarrow> [r] | _ \<Rightarrow> []) ps)"

definition q_limits :: "InfoConfiguration \<Rightarrow> Serde \<Rightarrow> 'h PostQueue \<Rightarrow> EncryptedBso list \<Rightarrow> bool" where
  "q_limits cfg js q rs \<longleftrightarrow>
     queued q = open_body js rs \<and>
     post_limits q = \<lparr>max_bytes = max_post_bytes cfg, max_records = max_post_records cfg,
        cur_bytes = payload_bytes js rs, cur_records = length rs\<rparr> \<and>
     max_bytes (batch_limits q) = max_total_bytes cfg \<and> max_records (batch_limits q) = max_total_records cfg \<and>
     max_payload_bytes q = max_record_payload_bytes cfg \<and> q_max_request_bytes q = max_request_bytes cfg"

definition q_batch ::
    "InfoConfiguration \<Rightarrow> Serde \<Rightarrow> 'h PostQueue \<Rightarrow> (SentPost \<times> EncryptedBso list) list \<Rightarrow> EncryptedBso list \<Rightarrow> bool" where
  "q_batch cfg js q xs rs \<longleftrightarrow>
     (let a = (if in_batch q then acc_of js xs else (0, 0));
          n = cur_records (batch_limits q); b = cur_bytes (batch_limits q);
          sent = concat (map snd xs)
      in fst a + length rs \<le> n \<and> snd a + payload_bytes js rs \<le> b \<and> in_total cfg (n, b) \<and>
         n \<le> length sent + length rs \<and> b \<le> payload_bytes js sent + payload_bytes js rs)"

definition q_links :: "ServerTimestamp \<Rightarrow> 'h PostQueue \<Rightarrow> SentPost list \<Rightarrow> bool" where
  "q_links ts q ps \<longleftrightarrow> successively link ps \<and>
     (if ps = [] then last_modified q = ts \<and> batch q = NoBatch
      else p_xius (hd ps) = ts \<and> p_batch (hd ps) = Some ''true'' \<and> q_link q (last ps))"

lemma in_total_zero [simp]: "in_total cfg (0, 0)"
  by (simp add: in_total_def)

lemma acc_of_snoc: "acc_of js (xs @ [x]) = acc_step js x (acc_of js xs)"
  by (simp add: acc_of_def)

lemma totals_ok_snoc: "totals_ok cfg js (xs @ [x]) \<longleftrightarrow> totals_ok cfg js xs \<and> in_total cfg (acc_step js x (acc_of js xs))"
  by (auto simp: totals_ok_def le_Suc_eq acc_of_snoc [symmetric])

lemma resps_snoc: "resps (ps @ [p]) = resps ps @ (case p_result p of Ok r \<Rightarrow> [r] | _ \<Rightarrow> [])"
  by (simp add: resps_def)

lemma clear_simps [simp]:
  "max_bytes (clear t) = max_bytes t" "max_records (clear t) = max_records t"
  "cur_bytes (clear t) = 0" "cur_records (clear t) = 0"
  by (simp_all add: clear_def)

lemma batch_id_simps [simp]:
  "batch_id_of b = None \<longleftrightarrow> b = Unsupported" "batch_id_of NoBatch = Some ''true''"
  "batch_id_of (InBatch i) = Some i"
  by (simp_all add: batch_id_of_def split: BatchState.splits)

lemma in_batch_iff: "in_batch q \<longleftrightarrow> (\<exists>i. batch q = InBatch i)"
  by (simp add: in_batch_def split: BatchState.splits)

context response_handler
begin

definition q_inv where
  "q_inv cfg js ts q xs rs \<longleftrightarrow>
     q_limits cfg js q rs \<and> (rs = [] \<longrightarrow> xs = [] \<and> batch q = NoBatch) \<and> (rs \<noteq> [] \<longrightarrow> chunk_ok cfg js rs) \<and>
     q_batch cfg js q xs rs \<and> posts_ok cfg js xs \<and> q_links ts q (map fst xs) \<and>
     tracks (on_response q) (resps (map fst xs)) (in_batch q)"

text \<open>A flush of a queue that holds \<open>rs\<close>.\<close>

lemma flush_step:
  assumes inv: "q_inv cfg js ts q xs rs" and ne: "rs \<noteq> []"
    and f: "flush (logged post) handle wc ((w, map fst xs), q) = (res, ((w', l'), q'))"
  obtains p where "l' = map fst xs @ [p]" "posts_ok cfg js (xs @ [(p, rs)])"
    "p_commit p = (wc \<and> batch q \<noteq> Unsupported)" "p_batch p = batch_id_of (batch q)"
    "is_Panic res \<longrightarrow> poster_panics post"
    "res = Ok () \<longrightarrow> q_limits cfg js q' [] \<and> q_batch cfg js q' (xs @ [(p, rs)]) [] \<and>
       q_links ts q' (map fst xs @ [p]) \<and> tracks (on_response q') (resps (map fst xs @ [p])) (in_batch q') \<and>
       (wc \<longrightarrow> batch q' = NoBatch \<and> batch_limits q' = clear (batch_limits q))"
    "res = Ok () \<longrightarrow> \<not> wc \<longrightarrow> cur_records (batch_limits q') \<le> cur_records (batch_limits q) \<and>
       cur_bytes (batch_limits q') \<le> cur_bytes (batch_limits q)"
proof -
  have lim: "q_limits cfg js q rs" and ch: "chunk_ok cfg js rs" and b: "q_batch cfg js q xs rs"
    and ps: "posts_ok cfg js xs" and lk: "q_links ts q (map fst xs)"
    and tr: "tracks (on_response q) (resps (map fst xs)) (in_batch q)"
    using inv ne by (auto simp: q_inv_def)
  have qd: "queued q = open_body js rs" "queued q \<noteq> []" using lim ne by (auto simp: q_limits_def)
  obtain r where l': "l' = map fst xs @ [\<lparr>p_body = queued q @ '']'', p_xius = last_modified q,
        p_batch = batch_id_of (batch q), p_commit = (wc \<and> batch q \<noteq> Unsupported), p_result = r\<rparr>]"
    and pan: "is_Panic res \<longrightarrow> poster_panics post"
    and ok: "res = Ok () \<longrightarrow> (\<exists>resp. r = Ok resp \<and> flushed wc resp q q' \<and>
       handle resp (\<not> wc \<and> pr_status resp = ACCEPTED) (on_response q) = (Ok (), on_response q'))"
    by (rule flush_logged [OF qd(2) f])
  define p where "p = \<lparr>p_body = queued q @ '']'', p_xius = last_modified q,
        p_batch = batch_id_of (batch q), p_commit = (wc \<and> batch q \<noteq> Unsupported), p_result = r\<rparr>"
  have p: "p_body p = open_body js rs @ '']''" "p_xius p = last_modified q" "p_batch p = batch_id_of (batch q)"
    "p_commit p = (wc \<and> batch q \<noteq> Unsupported)" "p_result p = r"
    using qd by (simp_all add: p_def)
  let ?a = "acc_step js (p, rs) (acc_of js xs)"
  have acc: "in_total cfg ?a" "batch q \<noteq> Unsupported \<Longrightarrow> fst ?a \<le> cur_records (batch_limits q) \<and> snd ?a \<le> cur_bytes (batch_limits q)"
    "batch q = Unsupported \<Longrightarrow> ?a = (0, 0)"
    using b p(3)
    by (auto simp: acc_step_def q_batch_def Let_def in_total_def in_batch_iff batch_id_of_def split: prod.splits BatchState.splits)
  have posts: "posts_ok cfg js (xs @ [(p, rs)])"
    using ps ch p(1) acc(1) by (auto simp: posts_ok_def totals_ok_snoc)
  have fin: "q_limits cfg js q' [] \<and> q_batch cfg js q' (xs @ [(p, rs)]) [] \<and>
       q_links ts q' (map fst xs @ [p]) \<and> tracks (on_response q') (resps (map fst xs @ [p])) (in_batch q') \<and>
       (wc \<longrightarrow> batch q' = NoBatch \<and> batch_limits q' = clear (batch_limits q)) \<and>
       (\<not> wc \<longrightarrow> cur_records (batch_limits q') \<le> cur_records (batch_limits q) \<and>
          cur_bytes (batch_limits q') \<le> cur_bytes (batch_limits q))" if res: "res = Ok ()"
  proof -
    obtain resp where r: "r = Ok resp" "flushed wc resp q q'"
      "handle resp (\<not> wc \<and> pr_status resp = ACCEPTED) (on_response q) = (Ok (), on_response q')"
      using ok res by blast
    have ib: "in_batch q' \<longleftrightarrow> \<not> wc \<and> pr_status resp = ACCEPTED"
      using r(2) by (auto simp: flushed_def in_batch_iff split: if_splits)
    have "q_limits cfg js q' []" using lim r(2) by (simp add: q_limits_def flushed_def clear_def)
    moreover have "q_batch cfg js q' (xs @ [(p, rs)]) []"
      using b acc r(2) ib by (auto simp: q_batch_def Let_def flushed_def acc_of_snoc in_total_def)
    moreover have "q_links ts q' (map fst xs @ [p])"
    proof -
      have "q_link q' p" using r p by (auto simp: q_link_def flushed_def split: if_splits)
      moreover have "map fst xs \<noteq> [] \<longrightarrow> link (last (map fst xs)) p"
        using lk p by (auto simp: q_links_def q_link_def link_def split: outcome.splits if_splits)
      ultimately show ?thesis using lk p
        by (cases "xs = []") (auto simp: q_links_def successively_append_iff hd_append)
    qed
    moreover have "tracks (on_response q') (resps (map fst xs @ [p])) (in_batch q')"
      using tracks_step [OF tr r(3)] p(5) r(1) ib by (simp add: resps_snoc)
    ultimately show ?thesis using r(2) by (auto simp: flushed_def)
  qed
  show ?thesis by (rule that [of p]) (use l' pan posts p fin in \<open>auto simp: p_def\<close>)
qed

end

section \<open>Enqueueing\<close>

lemma add_queued_ok:
  assumes lim: "q_limits cfg js q rs" and b: "q_batch cfg js q xs rs"
    and can: "can_add_record (post_limits q) (plen js r)" "can_add_record (batch_limits q) (plen js r)"
  obtains q' where "add_queued (plen js r) (w, q\<lparr>queued := open_body js (rs @ [r])\<rparr>) = (Ok True, (w, q'))"
    "q_limits cfg js q' (rs @ [r])" "q_batch cfg js q' xs (rs @ [r])" "batch q' = batch q"
    "on_response q' = on_response q" "last_modified q' = last_modified q"
proof -
  define q' where "q' = q\<lparr>queued := open_body js (rs @ [r]),
     post_limits := (post_limits q)\<lparr>cur_records := cur_records (post_limits q) + 1, cur_bytes := cur_bytes (post_limits q) + plen js r\<rparr>,
     batch_limits := (batch_limits q)\<lparr>cur_records := cur_records (batch_limits q) + 1, cur_bytes := cur_bytes (batch_limits q) + plen js r\<rparr>\<rparr>"
  have "add_queued (plen js r) (w, q\<lparr>queued := open_body js (rs @ [r])\<rparr>) = (Ok True, (w, q'))"
    using can by (simp add: add_queued_def record_added_def q'_def)
  moreover have "q_limits cfg js q' (rs @ [r])" using lim by (simp add: q_limits_def q'_def)
  moreover have "q_batch cfg js q' xs (rs @ [r])"
    using b can(2) lim by (auto simp: q_batch_def q'_def Let_def in_batch_def in_total_def can_add_record_def q_limits_def)
  ultimately show ?thesis using that by (simp add: q'_def)
qed

lemma q_links_cong:
  assumes "batch q' = batch q" "last_modified q' = last_modified q"
  shows "q_links ts q' = q_links ts q" "in_batch q' = in_batch q"
proof -
  have "q_link q' = q_link q" unfolding q_link_def fun_eq_iff assms by simp
  then show "q_links ts q' = q_links ts q" "in_batch q' = in_batch q"
    unfolding q_links_def in_batch_def fun_eq_iff assms by simp_all
qed

lemma chunk_ok_single:
  assumes "fits cfg js r" "1 \<le> max_post_records cfg" shows "chunk_ok cfg js [r]"
  using assms by (simp add: chunk_ok_def fits_def open_body_def)

lemma enqueue_skip:
  assumes "dbg \<longrightarrow> plen js r \<le> length (bso_json js r)"
    and "can_never_add (post_limits q) (plen js r) \<or> can_never_add (batch_limits q) (plen js r) \<or>
      plen js r \<ge> max_payload_bytes q \<or> length (bso_json js r) + 2 \<ge> q_max_request_bytes q"
  shows "enqueue dbg js post handle r (w, q) = (Ok False, (w, q))"
proof (cases "can_never_add (post_limits q) (plen js r) \<or> can_never_add (batch_limits q) (plen js r) \<or>
      plen js r \<ge> max_payload_bytes q")
  case False
  have d: "dbg \<longrightarrow> plen js r \<le> Suc (length (queued q) + length (bso_json js r))" using assms(1) by auto
  show ?thesis using False assms(2) d by (simp add: enqueue_def Let_def length_push_record)
qed (simp add: enqueue_def)

lemma enqueue_main:
  assumes "dbg \<longrightarrow> plen js r \<le> length (bso_json js r)"
    and "\<not> (can_never_add (post_limits q) (plen js r) \<or> can_never_add (batch_limits q) (plen js r) \<or>
      plen js r \<ge> max_payload_bytes q \<or> length (bso_json js r) + 2 \<ge> q_max_request_bytes q)"
  shows "enqueue dbg js post handle r (w, q) =
      (if \<not> can_add_record (post_limits q) (plen js r) \<or>
          \<not> length (push_record js r (queued q)) < q_max_request_bytes q \<or>
          \<not> can_add_record (batch_limits q) (plen js r)
       then abind (flush post handle (\<not> can_add_record (batch_limits q) (plen js r))) (\<lambda>_.
                    abind get_st (\<lambda>(w', q').
                    abind (put_st (w', q'\<lparr>queued := push_record js r (queued q')\<rparr>)) (\<lambda>_.
                    add_queued (plen js r)))) (w, q)
       else add_queued (plen js r) (w, q\<lparr>queued := push_record js r (queued q)\<rparr>))"
proof -
  have d: "dbg \<longrightarrow> plen js r \<le> Suc (length (queued q) + length (bso_json js r))" using assms(1) by auto
  show ?thesis using assms(2) d by (cases dbg) (simp_all add: enqueue_def Let_def length_push_record)
qed

context response_handler
begin

lemma enqueue_step:
  assumes inv: "q_inv cfg js ts q xs rs"
    and cfg: "1 \<le> max_post_records cfg" "1 \<le> max_total_records cfg"
    and dbg: "dbg \<longrightarrow> plen js r \<le> length (bso_json js r)"
    and e: "enqueue dbg js (logged post) handle r ((w, map fst xs), q) = (res, ((w', l'), q'))"
  obtains
    (skipped) "\<not> fits cfg js r" "res = Ok False" "l' = map fst xs" "q' = q"
  | (added) "fits cfg js r" "res = Ok True" "l' = map fst xs" "q_inv cfg js ts q' xs (rs @ [r])"
  | (posted) p where "fits cfg js r" "rs \<noteq> []" "l' = map fst xs @ [p]" "posts_ok cfg js (xs @ [(p, rs)])"
      "p_commit p \<longrightarrow> \<not> can_add_record (batch_limits q) (plen js r)"
      "is_Panic res \<longrightarrow> poster_panics post"
      "\<forall>b. res = Ok b \<longrightarrow> b \<and> q_inv cfg js ts q' (xs @ [(p, rs)]) [r]"
proof -
  have lim: "q_limits cfg js q rs" and b: "q_batch cfg js q xs rs" using inv by (auto simp: q_inv_def)
  let ?n = "plen js r" and ?w = "open_body js (rs @ [r])"
  have qd: "queued q = open_body js rs" using lim by (simp add: q_limits_def)
  have len: "length ?w = length (open_body js rs) + length (bso_json js r) + 1"
    using length_push_record [of js r "open_body js rs"] by (simp add: push_record_open_body)
  have nf: "can_never_add (post_limits q) ?n \<or> can_never_add (batch_limits q) ?n \<or> ?n \<ge> max_payload_bytes q \<or>
      length (bso_json js r) + 2 \<ge> q_max_request_bytes q \<longleftrightarrow> \<not> fits cfg js r"
    using lim by (auto simp: can_never_add_def q_limits_def fits_def)
  show ?thesis
  proof (cases "fits cfg js r")
    case False
    then have "(res, ((w', l'), q')) = (Ok False, ((w, map fst xs), q))"
      using e enqueue_skip [OF dbg, where q = q and post = "logged post" and handle = handle and w = "(w, map fst xs)"] nf by simp
    then show ?thesis using skipped False by simp
  next
    case fit: True
    let ?cp = "can_add_record (post_limits q) ?n" and ?cb = "can_add_record (batch_limits q) ?n"
      and ?cs = "length ?w < q_max_request_bytes q"
    have e': "(res, ((w', l'), q')) =
      (if \<not> ?cp \<or> \<not> ?cs \<or> \<not> ?cb
       then abind (flush (logged post) handle (\<not> ?cb)) (\<lambda>_.
                    abind get_st (\<lambda>(w', q').
                    abind (put_st (w', q'\<lparr>queued := push_record js r (queued q')\<rparr>)) (\<lambda>_.
                    add_queued ?n))) ((w, map fst xs), q)
       else add_queued ?n ((w, map fst xs), q\<lparr>queued := ?w\<rparr>))"
      using e enqueue_main [OF dbg, where q = q and post = "logged post" and handle = handle and w = "(w, map fst xs)"] nf fit unfolding qd push_record_open_body by simp
    show ?thesis
    proof (cases "?cp \<and> ?cs \<and> ?cb")
      case True
      then have cp: ?cp ?cb by simp_all
      obtain q1 where q1: "add_queued ?n ((w, map fst xs), q\<lparr>queued := ?w\<rparr>) = (Ok True, ((w, map fst xs), q1))"
        "q_limits cfg js q1 (rs @ [r])" "q_batch cfg js q1 xs (rs @ [r])" "batch q1 = batch q"
        "on_response q1 = on_response q" "last_modified q1 = last_modified q"
        by (rule add_queued_ok [OF lim b cp, where w = "(w, map fst xs)"])
      have "chunk_ok cfg js (rs @ [r])"
        using True lim by (auto simp: chunk_ok_def can_add_record_def q_limits_def)
      then have "q_inv cfg js ts q1 xs (rs @ [r])"
        using inv q1(2,3,5) q_links_cong [OF q1(4,6)] by (simp add: q_inv_def)
      then show ?thesis using added fit e' q1(1) True by simp
    next
      case False
      have ne: "rs \<noteq> []"
      proof
        assume rs: "rs = []"
        then have "batch q = NoBatch" "xs = []" using inv by (auto simp: q_inv_def)
        then have "cur_records (batch_limits q) = 0" "cur_bytes (batch_limits q) = 0"
          using b rs by (auto simp: q_batch_def Let_def)
        then show False using False fit cfg lim rs len
          by (auto simp: can_add_record_def q_limits_def fits_def)
      qed
      obtain res1 w1 l1 q1 where f: "flush (logged post) handle (\<not> ?cb) ((w, map fst xs), q) = (res1, ((w1, l1), q1))"
        by (metis prod.collapse)
      obtain p where p: "l1 = map fst xs @ [p]" "posts_ok cfg js (xs @ [(p, rs)])"
        "p_commit p = (\<not> ?cb \<and> batch q \<noteq> Unsupported)" "p_batch p = batch_id_of (batch q)"
        "is_Panic res1 \<longrightarrow> poster_panics post"
        "res1 = Ok () \<longrightarrow> q_limits cfg js q1 [] \<and> q_batch cfg js q1 (xs @ [(p, rs)]) [] \<and>
           q_links ts q1 (map fst xs @ [p]) \<and> tracks (on_response q1) (resps (map fst xs @ [p])) (in_batch q1) \<and>
           (\<not> ?cb \<longrightarrow> batch q1 = NoBatch \<and> batch_limits q1 = clear (batch_limits q))"
        "res1 = Ok () \<longrightarrow> \<not> \<not> ?cb \<longrightarrow> cur_records (batch_limits q1) \<le> cur_records (batch_limits q) \<and>
           cur_bytes (batch_limits q1) \<le> cur_bytes (batch_limits q)"
        by (rule flush_step [OF inv ne f])
      show ?thesis
      proof (cases "res1 = Ok ()")
        case True
        have lim1: "q_limits cfg js q1 []" "q_batch cfg js q1 (xs @ [(p, rs)]) []" using p(6) True by simp_all
        have can: "can_add_record (post_limits q1) ?n" "can_add_record (batch_limits q1) ?n"
        proof -
          have "q_limits cfg js q1 []" using p(6) True by simp
          then show "can_add_record (post_limits q1) ?n"
            using fit cfg by (auto simp: can_add_record_def q_limits_def fits_def)
          show "can_add_record (batch_limits q1) ?n"
            using p(6,7) True fit cfg lim \<open>q_limits cfg js q1 []\<close>
            by (cases ?cb) (auto simp: can_add_record_def q_limits_def fits_def)
        qed
        obtain q2 where q2: "add_queued ?n ((w1, l1), q1\<lparr>queued := open_body js ([] @ [r])\<rparr>) = (Ok True, ((w1, l1), q2))"
          "q_limits cfg js q2 ([] @ [r])" "q_batch cfg js q2 (xs @ [(p, rs)]) ([] @ [r])" "batch q2 = batch q1"
          "on_response q2 = on_response q1" "last_modified q2 = last_modified q1"
          by (rule add_queued_ok [OF lim1 can, where w = "(w1, l1)"])
        have "q_inv cfg js ts q2 (xs @ [(p, rs)]) [r]"
          using q2(2,3,5) p(2,6) True chunk_ok_single [OF fit cfg(1)] q_links_cong [OF q2(4,6)]
          by (simp add: q_inv_def)
        moreover have "queued q1 = open_body js []" using p(6) True by (simp add: q_limits_def)
        then have "(res, ((w', l'), q')) = (Ok True, ((w1, l1), q2))"
          using e' False q2(1) f True push_record_open_body [of js r "[]"]
          by (simp add: abind_simps(1) [of _ _ "()" "((w1, l1), q1)"])
        ultimately show ?thesis using posted [of p] fit ne p(1-3,5) True by simp
      next
        case nok: False
        have no: "\<not> is_Ok res" "is_Panic res = is_Panic res1" "l' = l1"
          using e' False f nok by (cases res1; auto simp: abind_def)+
        then show ?thesis using fit ne p(1-3,5) by (intro posted [of p]) (auto simp: is_Ok_iff)
      qed
    qed
  qed
qed

end

end
