(* ===== verification/Changeset.thy ===== *)
theory Changeset
  imports PostQueueCorrect CollectionKeys
begin

text \<open>
  Changesets and their transfer (\<^verbatim>\<open>components/sync15/src/changeset.rs\<close>), with the data they
  take from \<^verbatim>\<open>client.rs\<close> (what a GET answers) and \<^verbatim>\<open>coll_state.rs\<close> (\<open>CollState\<close>).
  The client is represented by the calls made on it: the poster of a collection, and the GET for
  encrypted records.
\<close>

section \<open>Answers of the storage client\<close>

datatype 'a Sync15ClientResponse =
    Success 'a ServerTimestamp string
  | NotFound string
  | Unauthorized string
  | ServerError string nat
  | RequestFailed string nat

fun create_storage_error :: "'a Sync15ClientResponse \<Rightarrow> ErrorKind" where
  "create_storage_error (Success _ _ route) = StorageHttpError 200 route"
| "create_storage_error (NotFound route) = StorageHttpError 404 route"
| "create_storage_error (Unauthorized route) = StorageHttpError 401 route"
| "create_storage_error (ServerError route status) = StorageHttpError status route"
| "create_storage_error (RequestFailed route status) = StorageHttpError status route"

section \<open>Changesets\<close>

record CollState =
  cs_config :: InfoConfiguration
  cs_last_modified :: ServerTimestamp
  cs_key :: KeyBundle

record 'a RecordChangeset =
  changes :: "'a list"
  rc_timestamp :: ServerTimestamp
  rc_collection :: string

type_synonym IncomingChangeset = "(Payload \<times> ServerTimestamp) RecordChangeset"
type_synonym OutgoingChangeset = "Payload RecordChangeset"

definition changeset_new :: "string \<Rightarrow> ServerTimestamp \<Rightarrow> 'a RecordChangeset" where
  "changeset_new collection ts = \<lparr>changes = [], rc_timestamp = ts, rc_collection = collection\<rparr>"

text \<open>The conversions of the payload that \<^verbatim>\<open>serde_json\<close> provides, bundled.\<close>

record PayloadJson =
  payload_to_str :: "Payload \<Rightarrow> (string, string) outcome"
  payload_from_str :: "string \<Rightarrow> (string, Payload) outcome"

fun amapM :: "('a \<Rightarrow> ('s, 'e, 'b) action) \<Rightarrow> 'a list \<Rightarrow> ('s, 'e, 'b list) action" where
  "amapM f [] = ret []"
| "amapM f (x # xs) = abind (f x) (\<lambda>y. abind (amapM f xs) (\<lambda>ys. ret (y # ys)))"

definition changeset_encrypt ::
    "'w Crypto \<Rightarrow> PayloadJson \<Rightarrow> OutgoingChangeset \<Rightarrow> KeyBundle \<Rightarrow> ('w, ErrorKind, EncryptedBso list) action" where
  "changeset_encrypt c pj cs key =
     amapM (\<lambda>change. bso_encrypt c (payload_to_str pj) key (into_bso (rc_collection cs) change)) (changes cs)"

text \<open>
  \<open>fetch\<close> assigns the state's timestamp before it decrypts, so the new state is returned with
  a decryption error too.
\<close>

definition fetch ::
    "'w Crypto \<Rightarrow> PayloadJson \<Rightarrow>
     (CollectionRequest \<Rightarrow> ('w, ErrorKind, EncryptedBso list Sync15ClientResponse) action) \<Rightarrow>
     string \<Rightarrow> CollectionRequest \<Rightarrow> ('w \<times> CollState, ErrorKind, IncomingChangeset) action" where
  "fetch c pj get_encrypted_records collection collection_request = (\<lambda>(w, state).
     case get_encrypted_records collection_request w of
       (Err e, w') \<Rightarrow> (Err e, (w', state))
     | (Panic p, w') \<Rightarrow> (Panic p, (w', state))
     | (Ok resp, w') \<Rightarrow>
         (case resp of
            Success records timestamp _ \<Rightarrow>
              (omap (\<lambda>decrypted. (changeset_new collection timestamp)
                         \<lparr>changes := map into_timestamped_payload decrypted\<rparr>)
                 (omapM (bso_decrypt c (payload_from_str pj) (cs_key state)) records),
               (w', state\<lparr>cs_last_modified := timestamp\<rparr>))
          | other \<Rightarrow> (Err (create_storage_error other), (w', state))))"

record CollectionUpdate =
  cu_config :: InfoConfiguration
  cu_collection :: string
  cu_xius :: ServerTimestamp
  cu_to_update :: "EncryptedBso list"
  cu_fully_atomic :: bool

definition new_from_changeset ::
    "'w Crypto \<Rightarrow> PayloadJson \<Rightarrow> CollState \<Rightarrow> OutgoingChangeset \<Rightarrow> bool \<Rightarrow>
     ('w, ErrorKind, CollectionUpdate) action" where
  "new_from_changeset c pj state changeset fully_atomic =
     (let xius = rc_timestamp changeset in
      if xius < cs_last_modified state then throw BatchInterrupted
      else abind (changeset_encrypt c pj changeset (cs_key state)) (\<lambda>to_update.
           ret \<lparr>cu_config = cs_config state, cu_collection = rc_collection changeset, cu_xius = xius,
                cu_to_update = to_update, cu_fully_atomic = fully_atomic\<rparr>))"

text \<open>The loop over the records, then the final commit and the report.\<close>

fun enqueue_all ::
    "bool \<Rightarrow> Serde \<Rightarrow> 'w poster \<Rightarrow> 'h handler \<Rightarrow> bool \<Rightarrow> EncryptedBso list \<Rightarrow>
     ('w \<times> 'h PostQueue, ErrorKind, unit) action" where
  "enqueue_all dbg js post handle fully_atomic [] = ret ()"
| "enqueue_all dbg js post handle fully_atomic (record # records) =
     abind (enqueue dbg js post handle record) (\<lambda>enqueued.
     if \<not> enqueued \<and> fully_atomic then throw RecordTooLargeError
     else enqueue_all dbg js post handle fully_atomic records)"

definition upload :: "bool \<Rightarrow> Serde \<Rightarrow> 'w poster \<Rightarrow> CollectionUpdate \<Rightarrow> ('w, ErrorKind, UploadInfo) action" where
  "upload dbg js post u w =
     (let q = post_queue_new (cu_config u) (cu_xius u) (normal_response_handler_new (\<not> cu_fully_atomic u)) in
      case abind (enqueue_all dbg js post handle_response (cu_fully_atomic u) (cu_to_update u)) (\<lambda>_.
           abind (flush post handle_response True) (\<lambda>_.
           abind get_st (\<lambda>(w', q').
           let info = fst (completed_upload_info q') in
           abind (assert_that (cu_fully_atomic u \<longrightarrow> length (ui_failed_ids info) = 0)
                    ''Bug: Should have failed by now if we aren't allowing dropped records'') (\<lambda>_.
           ret info)))) (w, q) of
        (r, (w', _)) \<Rightarrow> (r, w'))"

definition changeset_post ::
    "bool \<Rightarrow> 'w Crypto \<Rightarrow> PayloadJson \<Rightarrow> Serde \<Rightarrow> (string \<Rightarrow> 'w poster) \<Rightarrow> CollState \<Rightarrow> OutgoingChangeset \<Rightarrow>
     bool \<Rightarrow> ('w, ErrorKind, UploadInfo) action" where
  "changeset_post dbg c pj js poster_for state changeset fully_atomic =
     abind (new_from_changeset c pj state changeset fully_atomic) (\<lambda>u.
     upload dbg js (poster_for (cu_collection u)) u)"

section \<open>Uploading\<close>

definition sent :: "(SentPost \<times> EncryptedBso list) list \<Rightarrow> EncryptedBso list" where
  "sent xs = concat (map snd xs)"

lemma sent_simps [simp]: "sent [] = []" "sent (xs @ ys) = sent xs @ sent ys" "sent [x] = snd x"
  by (simp_all add: sent_def)

definition no_commits :: "(SentPost \<times> EncryptedBso list) list \<Rightarrow> bool" where
  "no_commits xs \<longleftrightarrow> (\<forall>x \<in> set xs. \<not> p_commit (fst x))"

lemma can_add_if_total:
  assumes "q_limits cfg js q rs" "q_batch cfg js q xs rs"
    and "in_total cfg (length (sent xs @ rs @ r # zs), payload_bytes js (sent xs @ rs @ r # zs))"
  shows "can_add_record (batch_limits q) (plen js r)"
  using assms by (auto simp: q_limits_def q_batch_def Let_def in_total_def can_add_record_def sent_def payload_bytes_def)

context response_handler
begin

text \<open>
  The loop either holds the invariant at its end, with every record that fits sent or queued in
  order, or it stopped early, with the requests made so far within all limits.
\<close>

definition loop_result where
  "loop_result post cfg js ts all xs res l' q' \<longleftrightarrow> (\<exists>xs'. l' = map fst xs' \<and> posts_ok cfg js xs' \<and>
     (is_Panic res \<longrightarrow> poster_panics post) \<and>
     (no_commits xs \<longrightarrow> in_total cfg (length all, payload_bytes js all) \<longrightarrow> no_commits xs') \<and>
     (\<exists>zs. all = sent xs' @ zs) \<and>
     (is_Ok res \<longrightarrow> (\<exists>rs'. q_inv cfg js ts q' xs' rs' \<and> all = sent xs' @ rs')))"

lemma enqueue_all_ok:
  assumes "q_inv cfg js ts q xs rs"
    and cfg: "1 \<le> max_post_records cfg" "1 \<le> max_total_records cfg"
    and dbg: "\<forall>r \<in> set recs. dbg \<longrightarrow> plen js r \<le> length (bso_json js r)"
    and "enqueue_all dbg js (logged post) handle atomic recs ((w, map fst xs), q) = (res, ((w', l'), q'))"
  shows "loop_result post cfg js ts (sent xs @ rs @ filter (fits cfg js) recs) xs res l' q' \<and>
     (is_Ok res \<longrightarrow> atomic \<longrightarrow> (\<forall>r \<in> set recs. fits cfg js r))"
  using assms(1,4,5)
proof (induction recs arbitrary: q xs rs w)
  case Nil
  then have "res = Ok ()" "l' = map fst xs" "q' = q" by (auto simp: ret_def)
  moreover have "posts_ok cfg js xs" using Nil.prems(1) by (simp add: q_inv_def)
  ultimately show ?case using Nil.prems(1) by (auto simp: loop_result_def)
next
  case (Cons r recs)
  note inv = Cons.prems(1)
  have ps: "posts_ok cfg js xs" and lim: "q_limits cfg js q rs" "q_batch cfg js q xs rs"
    using inv by (auto simp: q_inv_def)
  have d: "dbg \<longrightarrow> plen js r \<le> length (bso_json js r)"
    and ds: "\<forall>r \<in> set recs. dbg \<longrightarrow> plen js r \<le> length (bso_json js r)" using Cons.prems(2) by auto
  obtain res1 w1 l1 q1 where e: "enqueue dbg js (logged post) handle r ((w, map fst xs), q) = (res1, ((w1, l1), q1))"
    by (metis prod.collapse)
  note all = Cons.prems(3) [simplified enqueue_all.simps]
  show ?case
  proof (cases rule: enqueue_step [OF inv cfg d e, case_names skipped added posted])
    case skipped
    show ?thesis
    proof (cases atomic)
      case True
      then have "res = Err RecordTooLargeError" "l' = map fst xs"
        using all e skipped by (auto simp: abind_def throw_def)
      then show ?thesis using ps by (auto simp: loop_result_def)
    next
      case False
      then have "enqueue_all dbg js (logged post) handle atomic recs ((w1, map fst xs), q) = (res, ((w', l'), q'))"
        using all e skipped by (simp add: abind_def)
      from Cons.IH [OF inv ds this] show ?thesis using skipped False by simp
    qed
  next
    case added
    then have "enqueue_all dbg js (logged post) handle atomic recs ((w1, map fst xs), q1) = (res, ((w', l'), q'))"
      using all e by (simp add: abind_def)
    from Cons.IH [OF added(4) ds this] show ?thesis using added(1) by simp
  next
    case (posted p)
    have nc: "no_commits (xs @ [(p, rs)])" if "no_commits xs"
      "in_total cfg (length (sent xs @ rs @ filter (fits cfg js) (r # recs)), payload_bytes js (sent xs @ rs @ filter (fits cfg js) (r # recs)))"
      using that posted(1,5) can_add_if_total [OF lim, of r "filter (fits cfg js) recs"] by (auto simp: no_commits_def)
    show ?thesis
    proof (cases "\<exists>b. res1 = Ok b")
      case True
      then have q1: "res1 = Ok True" "q_inv cfg js ts q1 (xs @ [(p, rs)]) [r]" using posted(7) by auto
      then have "enqueue_all dbg js (logged post) handle atomic recs ((w1, map fst (xs @ [(p, rs)])), q1) = (res, ((w', l'), q'))"
        using all e posted(3) by (simp add: abind_def)
      from Cons.IH [OF q1(2) ds this] show ?thesis
        using posted(1) nc by (auto simp: loop_result_def)
    next
      case False
      then have "\<not> is_Ok res" "is_Panic res = is_Panic res1" "l' = l1"
        using all e by (cases res1; auto simp: abind_def)+
      then show ?thesis using posted(3,4,6) posted(1) nc
        by (auto simp: loop_result_def intro!: exI [of _ "xs @ [(p, rs)]"])
    qed
  qed
qed

end

section \<open>Logging changes nothing\<close>

definition unlog :: "'r \<times> ('w \<times> SentPost list) \<times> 'q \<Rightarrow> 'r \<times> 'w \<times> 'q" where
  "unlog = (\<lambda>(r, (w, l), q). (r, (w, q)))"

lemma unlog_simp [simp]: "unlog (r, (w, l), q) = (r, (w, q))"
  by (simp add: unlog_def)

lemma flush_unlog: "unlog (flush (logged post) handle wc ((w, l), q)) = flush post handle wc (w, q)"
  by (auto simp: flush_def logged_def Let_def split: prod.splits outcome.splits)

lemma abind_unlog:
  assumes "unlog (m ((w, l), q)) = m' (w, q)" "\<And>a w l q. unlog (f a ((w, l), q)) = f' a (w, q)"
  shows "unlog (abind m f ((w, l), q)) = abind m' f' (w, q)"
proof -
  obtain r w1 l1 q1 where m: "m ((w, l), q) = (r, ((w1, l1), q1))" by (metis prod.collapse)
  then have "m' (w, q) = (r, (w1, q1))" using assms(1) by simp
  then show ?thesis using m assms(2) by (cases r) (simp_all add: abind_def)
qed

lemma add_queued_unlog: "unlog (add_queued n ((w, l), q)) = add_queued n (w, q)"
  by (auto simp: add_queued_def Let_def split: outcome.splits)

lemma enqueue_unlog: "unlog (enqueue dbg js (logged post) handle r ((w, l), q)) = enqueue dbg js post handle r (w, q)"
proof -
  have k: "unlog (abind (flush (logged post) handle c) (\<lambda>_.
        abind get_st (\<lambda>(w', q').
        abind (put_st (w', q'\<lparr>queued := push_record js r (queued q')\<rparr>)) (\<lambda>_. add_queued n))) ((w, l), q)) =
      abind (flush post handle c) (\<lambda>_.
        abind get_st (\<lambda>(w', q').
        abind (put_st (w', q'\<lparr>queued := push_record js r (queued q')\<rparr>)) (\<lambda>_. add_queued n))) (w, q)" for c n
    by (rule abind_unlog) (simp_all add: flush_unlog add_queued_unlog)
  show ?thesis
    by (simp add: enqueue_def Let_def add_queued_unlog k)
qed

lemma enqueue_all_unlog:
  "unlog (enqueue_all dbg js (logged post) handle atomic recs ((w, l), q)) = enqueue_all dbg js post handle atomic recs (w, q)"
proof (induction recs arbitrary: w l q)
  case (Cons r recs)
  have "unlog ((if \<not> b \<and> atomic then throw RecordTooLargeError
        else enqueue_all dbg js (logged post) handle atomic recs) ((w, l), q)) =
      (if \<not> b \<and> atomic then throw RecordTooLargeError else enqueue_all dbg js post handle atomic recs) (w, q)" for b w l q
  proof (cases "\<not> b \<and> atomic")
    case False
    then have c: "(\<not> b \<and> atomic) = False" by simp
    show ?thesis unfolding c if_False by (rule Cons)
  qed (simp add: throw_def)
  then show ?case unfolding enqueue_all.simps by (intro abind_unlog enqueue_unlog)
qed (simp add: ret_def)

lemma upload_unlog:
  "upload dbg js (logged post) u (w, l) = (res, (w', l')) \<Longrightarrow> upload dbg js post u w = (res, w')"
proof -
  assume u: "upload dbg js (logged post) u (w, l) = (res, (w', l'))"
  let ?q = "post_queue_new (cu_config u) (cu_xius u) (normal_response_handler_new (\<not> cu_fully_atomic u))"
  let ?rest = "\<lambda>p. abind (flush p handle_response True) (\<lambda>_. abind get_st (\<lambda>(w', q').
           let info = fst (completed_upload_info q') in
           abind (assert_that (cu_fully_atomic u \<longrightarrow> length (ui_failed_ids info) = 0)
                    ''Bug: Should have failed by now if we aren't allowing dropped records'') (\<lambda>_. ret info)))"
  have "unlog (abind (enqueue_all dbg js (logged post) handle_response (cu_fully_atomic u) (cu_to_update u))
         (\<lambda>_. ?rest (logged post)) ((w, l), ?q)) =
      abind (enqueue_all dbg js post handle_response (cu_fully_atomic u) (cu_to_update u)) (\<lambda>_. ?rest post) (w, ?q)"
    by (intro abind_unlog) (simp_all add: enqueue_all_unlog flush_unlog Let_def abind_assert ret_def)
  then show ?thesis using u by (auto simp: upload_def Let_def split: prod.splits)
qed

section \<open>What an upload does\<close>

lemma initial_q_inv:
  "normal.q_inv af cfg js ts (post_queue_new cfg ts (normal_response_handler_new af)) [] []"
  by (simp add: normal.q_inv_def q_limits_def q_batch_def q_links_def posts_ok_def totals_ok_def acc_of_def
      post_queue_new_def limit_tracker_new_def in_batch_def resps_def normal_tracks_def
      normal_response_handler_new_def)

definition all_succeed :: "SentPost list \<Rightarrow> bool" where
  "all_succeed ps \<longleftrightarrow> (\<forall>p \<in> set ps. \<exists>r. p_result p = Ok r \<and> post_response_is_success r)"

lemma links_all_succeed: "q_links ts q ps \<Longrightarrow> all_succeed ps"
proof -
  assume l: "q_links ts q ps"
  have "all_succeed ps" if "successively link ps" "ps \<noteq> [] \<longrightarrow> (\<exists>r. p_result (last ps) = Ok r \<and> post_response_is_success r)"
    using that
  proof (induction ps)
    case (Cons p ps)
    show ?case
    proof (cases ps)
      case Nil
      then show ?thesis using Cons.prems by (simp add: all_succeed_def)
    next
      case (Cons p' ps')
      then have "\<exists>r. p_result p = Ok r \<and> post_response_is_success r"
        using Cons.prems(1) by (auto simp: link_def split: outcome.splits)
      moreover have "all_succeed ps" using Cons.IH Cons.prems Cons by auto
      ultimately show ?thesis by (simp add: all_succeed_def)
    qed
  qed (simp add: all_succeed_def)
  moreover have "ps \<noteq> [] \<longrightarrow> (\<exists>r. p_result (last ps) = Ok r \<and> post_response_is_success r)"
    using l by (auto simp: q_links_def q_link_def split: outcome.splits)
  ultimately show ?thesis using l by (simp add: q_links_def)
qed

lemma upload_cases:
  fixes u :: CollectionUpdate and js :: Serde
  defines "cfg \<equiv> cu_config u" and "atomic \<equiv> cu_fully_atomic u"
  defines "wanted \<equiv> filter (fits cfg js) (cu_to_update u)"
  assumes cfg: "1 \<le> max_post_records cfg" "1 \<le> max_total_records cfg"
    and dbg: "\<forall>r \<in> set (cu_to_update u). dbg \<longrightarrow> plen js r \<le> length (bso_json js r)"
    and u: "upload dbg js (logged post) u (w, []) = (res, (w', l))"
  obtains xs where "l = map fst xs" "posts_ok cfg js xs" "\<exists>zs. wanted = sent xs @ zs"
    "is_Panic res \<longrightarrow> poster_panics post"
    "in_total cfg (length wanted, payload_bytes js wanted) \<longrightarrow> (\<forall>x \<in> set (butlast xs). \<not> p_commit (fst x))"
    "\<forall>info. res = Ok info \<longrightarrow> sent xs = wanted \<and> (atomic \<longrightarrow> wanted = cu_to_update u) \<and>
       successively link l \<and> all_succeed l \<and>
       (l \<noteq> [] \<longrightarrow> p_xius (hd l) = cu_xius u \<and> p_batch (hd l) = Some ''true'' \<and>
          (p_commit (last l) \<or> p_batch (last l) = None)) \<and>
       ui_successful_ids info = concat (map (\<lambda>r. ur_success (pr_result r)) (resps l)) \<and>
       ui_failed_ids info = concat (map (\<lambda>r. map fst (ur_failed (pr_result r))) (resps l)) \<and>
       ui_modified_timestamp info = (if l = [] then cu_xius u else pr_last_modified (last (resps l)))"
proof -
  let ?q = "post_queue_new cfg (cu_xius u) (normal_response_handler_new (\<not> atomic))"
  obtain r1 w1 l1 q1 where e: "enqueue_all dbg js (logged post) handle_response atomic (cu_to_update u) ((w, map fst ([] :: (SentPost \<times> EncryptedBso list) list)), ?q) =
      (r1, ((w1, l1), q1))" by (metis prod.collapse)
  have "normal.loop_result (\<not> atomic) post cfg js (cu_xius u) wanted [] r1 l1 q1"
    and fit: "is_Ok r1 \<longrightarrow> atomic \<longrightarrow> (\<forall>r \<in> set (cu_to_update u). fits cfg js r)"
    using normal.enqueue_all_ok [OF initial_q_inv cfg dbg e] by (simp_all add: wanted_def)
  then obtain xs where xs: "l1 = map fst xs" "posts_ok cfg js xs"
    "is_Panic r1 \<longrightarrow> poster_panics post"
    "no_commits [] \<longrightarrow> in_total cfg (length wanted, payload_bytes js wanted) \<longrightarrow> no_commits xs" "\<exists>zs. wanted = sent xs @ zs"
    "is_Ok r1 \<longrightarrow> (\<exists>rs. normal.q_inv (\<not> atomic) cfg js (cu_xius u) q1 xs rs \<and> wanted = sent xs @ rs)"
    unfolding normal.loop_result_def by - (erule exE, elim conjE, rule)
  have nc: "in_total cfg (length wanted, payload_bytes js wanted) \<longrightarrow> no_commits xs"
    using xs(4) by (simp add: no_commits_def)
  have bl: "no_commits xs \<Longrightarrow> \<forall>x \<in> set (butlast (xs @ ys)). \<not> p_commit (fst x)" if "length ys \<le> 1" for ys
    using that by (cases ys) (auto simp: no_commits_def butlast_append dest: in_set_butlastD)
  show ?thesis
  proof (cases "r1 = Ok ()")
    case False
    then have "res \<noteq> Ok i" "is_Panic res = is_Panic r1" "l = l1" for i
      using u e by (cases r1; auto simp: upload_def Let_def abind_def cfg_def atomic_def)+
    then show ?thesis using xs nc bl [of "[]"] by (intro that [of xs]) auto
  next
    case True
    then obtain rs where inv: "normal.q_inv (\<not> atomic) cfg js (cu_xius u) q1 xs rs" "wanted = sent xs @ rs"
      using xs(6) by auto
    have wa: "atomic \<longrightarrow> wanted = cu_to_update u" using fit True by (auto simp: wanted_def)
    obtain r2 w2 l2 q2 where f: "flush (logged post) handle_response True ((w1, map fst xs), q1) = (r2, ((w2, l2), q2))"
      by (metis prod.collapse)
    let ?info = "fst (completed_upload_info q2)"
    have res: "(res, (w', l)) = (case r2 of
        Ok _ \<Rightarrow> (if atomic \<longrightarrow> ui_failed_ids ?info = [] then Ok ?info
                 else Panic ''Bug: Should have failed by now if we aren't allowing dropped records'', (w2, l2))
      | Err e \<Rightarrow> (Err e, (w2, l2)) | Panic p \<Rightarrow> (Panic p, (w2, l2)))"
      using u e f True xs(1)
      by (auto simp: upload_def Let_def abind_def cfg_def atomic_def get_st_def assert_that_def ret_def split: outcome.splits)
    show ?thesis
    proof (cases "rs = []")
      case rs: True
      then have "xs = []" "batch q1 = NoBatch" "queued q1 = []" "on_response q1 = on_response q1"
        "normal_tracks (\<not> atomic) (on_response q1) [] False" "last_modified q1 = cu_xius u"
        using inv by (auto simp: normal.q_inv_def q_limits_def in_batch_def resps_def q_links_def)
      then have "r2 = Ok ()" "q2 = q1" "l2 = []" using f by (auto simp: flush_def in_batch_def)
      then have "res = Ok ?info" "l = []" "?info = \<lparr>ui_successful_ids = [], ui_failed_ids = [], ui_modified_timestamp = cu_xius u\<rparr>"
        using res \<open>normal_tracks _ _ _ _\<close> \<open>last_modified q1 = _\<close>
        by (auto simp: completed_upload_info_def Let_def normal_tracks_def)
      then show ?thesis using inv rs wa \<open>xs = []\<close>
        by (intro that [of "[]"]) (auto simp: posts_ok_def totals_ok_def acc_of_def all_succeed_def resps_def)
    next
      case rs: False
      obtain p where p: "l2 = map fst xs @ [p]" "posts_ok cfg js (xs @ [(p, rs)])"
        "p_commit p = (True \<and> batch q1 \<noteq> Unsupported)" "p_batch p = batch_id_of (batch q1)"
        "is_Panic r2 \<longrightarrow> poster_panics post"
        "r2 = Ok () \<longrightarrow> q_limits cfg js q2 [] \<and> q_batch cfg js q2 (xs @ [(p, rs)]) [] \<and>
           q_links (cu_xius u) q2 (map fst xs @ [p]) \<and>
           normal_tracks (\<not> atomic) (on_response q2) (resps (map fst xs @ [p])) (in_batch q2) \<and>
           (True \<longrightarrow> batch q2 = NoBatch \<and> batch_limits q2 = clear (batch_limits q1))"
        by (rule normal.flush_step [OF inv(1) rs f])
      show ?thesis
      proof (cases "r2 = Ok ()")
        case False
        then have "res \<noteq> Ok i" "is_Panic res = is_Panic r2" "l = l2" for i using res by (cases r2; auto)+
        then show ?thesis using xs nc p inv bl [of "[(p, rs)]"] by (intro that [of "xs @ [(p, rs)]"]) auto
      next
        case ok: True
        let ?l = "map fst xs @ [p]"
        have tr: "normal_tracks (\<not> atomic) (on_response q2) (resps ?l) False"
          using p(6) ok by (auto simp: in_batch_def)
        have lk: "q_links (cu_xius u) q2 ?l" using p(6) ok by simp
        have info: "?info = \<lparr>ui_successful_ids = concat (map (\<lambda>r. ur_success (pr_result r)) (resps ?l)),
            ui_failed_ids = concat (map (\<lambda>r. map fst (ur_failed (pr_result r))) (resps ?l)),
            ui_modified_timestamp = last_modified q2\<rparr>" "atomic \<longrightarrow> ui_failed_ids ?info = []"
          using tr by (auto simp: completed_upload_info_def Let_def normal_tracks_def)
        have lm: "last_modified q2 = pr_last_modified (last (resps ?l))"
          using lk by (auto simp: q_links_def q_link_def resps_snoc split: outcome.splits)
        have "res = Ok ?info" "l = ?l" using res ok info(2) p(1) by auto
        then show ?thesis using xs nc p(2-4) inv bl [of "[(p, rs)]"] wa lk links_all_succeed [OF lk] info(1) lm
          by (intro that [of "xs @ [(p, rs)]"]) (auto simp: q_links_def)
      qed
    qed
  qed
qed

lemma atomic_no_failures:
  assumes "upload dbg js post u w = (Ok info, w')" shows "cu_fully_atomic u \<longrightarrow> ui_failed_ids info = []"
  using assms
  by (auto simp: upload_def Let_def assert_that_def get_st_def ret_def split: prod.splits if_splits elim!: abind_OkE)

section \<open>Properties\<close>

text \<open>A small server and update for the witnesses: two records, one record per request.\<close>

definition js1 :: Serde where
  "js1 = \<lparr>bso_json = bso_id, payload_json = \<lambda>_. []\<rparr>"

definition post1 :: "unit poster" where
  "post1 body xius batch_id commit w =
     (Ok \<lparr>pr_status = if commit then 200 else 202,
          pr_result = \<lparr>ur_batch = Some ''b'', ur_failed = [], ur_success = [body]\<rparr>, pr_last_modified = xius + 1\<rparr>, w)"

definition bso1 :: "string \<Rightarrow> EncryptedBso" where
  "bso1 i = new_record i ''passwords'' \<lparr>ep_iv = ''i'', ep_hmac = ''h'', ep_ciphertext = ''c''\<rparr>"

definition update1 :: CollectionUpdate where
  "update1 = \<lparr>cu_config = info_configuration_default\<lparr>max_post_records := 1\<rparr>, cu_collection = ''passwords'',
     cu_xius = 3, cu_to_update = [bso1 ''x'', bso1 ''y''], cu_fully_atomic = True\<rparr>"

definition log1 :: "SentPost list" where
  "log1 =
     [\<lparr>p_body = ''[x]'', p_xius = 3, p_batch = Some ''true'', p_commit = False,
       p_result = Ok \<lparr>pr_status = 202, pr_result = \<lparr>ur_batch = Some ''b'', ur_failed = [], ur_success = [''[x]'']\<rparr>, pr_last_modified = 4\<rparr>\<rparr>,
      \<lparr>p_body = ''[y]'', p_xius = 4, p_batch = Some ''b'', p_commit = True,
       p_result = Ok \<lparr>pr_status = 200, pr_result = \<lparr>ur_batch = Some ''b'', ur_failed = [], ur_success = [''[y]'']\<rparr>, pr_last_modified = 5\<rparr>\<rparr>]"

lemmas upload_eval = upload_def update1_def log1_def bso1_def post1_def js1_def new_record_def info_configuration_default_def
  default_max_request_bytes_def default_max_record_payload_bytes_def post_queue_new_def normal_response_handler_new_def
  limit_tracker_new_def enqueue_def serialized_len_def EMPTY_ENCRYPTED_PAYLOAD_SIZE_def can_never_add_def
  can_add_record_def push_record_def add_queued_def record_added_def flush_def logged_def in_batch_def
  batch_id_of_def flush_response_def respond_def handle_response_def post_response_is_success_def is_success_code_def
  clear_def completed_upload_info_def abind_def action_defs Let_def

lemma upload1: "upload False js1 (logged post1) update1 ((), []) =
    (Ok \<lparr>ui_successful_ids = [''[x]'', ''[y]''], ui_failed_ids = [], ui_modified_timestamp = 5\<rparr>, ((), log1))"
  by (simp add: upload_eval)

lemma update1_config: "1 \<le> max_post_records (cu_config update1)" "1 \<le> max_total_records (cu_config update1)"
  by (simp_all add: update1_def info_configuration_default_def)

text \<open>
  C11. Uploads respect the server's limits, whatever the server answers and however the upload ends.
  Every request body is a JSON array of consecutive records, not empty, with at most
  \<^verbatim>\<open>max_post_records\<close> records, at most \<^verbatim>\<open>max_post_bytes\<close> payload bytes and at most
  \<^verbatim>\<open>max_request_bytes\<close> bytes in all; the requests of one batch together stay within
  \<^verbatim>\<open>max_total_records\<close> and \<^verbatim>\<open>max_total_bytes\<close>; and the records sent so far are the first
  of the records that fit, in order. The requests are observed by \<open>logged\<close>, which changes
  nothing of the upload.
\<close>

theorem upload_respects_limits:
  assumes "1 \<le> max_post_records (cu_config u)" "1 \<le> max_total_records (cu_config u)"
    and "upload False js (logged post) u (w, []) = (res, (w', l))"
  shows "upload False js post u w = (res, w') \<and>
    (\<exists>xs. l = map fst xs \<and>
       (\<forall>(p, ch) \<in> set xs. p_body p = ''['' @ join '','' (map (bso_json js) ch) @ '']'' \<and> ch \<noteq> [] \<and>
          length ch \<le> max_post_records (cu_config u) \<and> payload_bytes js ch \<le> max_post_bytes (cu_config u) \<and>
          length (p_body p) \<le> max_request_bytes (cu_config u)) \<and>
       totals_ok (cu_config u) js xs \<and>
       (\<exists>zs. filter (fits (cu_config u) js) (cu_to_update u) = concat (map snd xs) @ zs))"
proof -
  obtain xs where xs: "l = map fst xs" "posts_ok (cu_config u) js xs"
    "\<exists>zs. filter (fits (cu_config u) js) (cu_to_update u) = sent xs @ zs"
    by (rule upload_cases [OF assms(1,2) _ assms(3)]) simp
  have "p_body p = ''['' @ join '','' (map (bso_json js) ch) @ '']'' \<and> ch \<noteq> [] \<and>
          length ch \<le> max_post_records (cu_config u) \<and> payload_bytes js ch \<le> max_post_bytes (cu_config u) \<and>
          length (p_body p) \<le> max_request_bytes (cu_config u)" if "(p, ch) \<in> set xs" for p ch
    using xs(2) that by (auto simp: posts_ok_def chunk_ok_def open_body_def)
  then show ?thesis using xs upload_unlog [OF assms(3)] by (auto simp: posts_ok_def sent_def)
qed

theorem upload_respects_limits_witness:
  "upload False js1 post1 update1 () =
     (Ok \<lparr>ui_successful_ids = [''[x]'', ''[y]''], ui_failed_ids = [], ui_modified_timestamp = 5\<rparr>, ()) \<and>
   (\<exists>xs. log1 = map fst xs \<and> totals_ok (cu_config update1) js1 xs)"
  using upload_respects_limits [OF update1_config upload1] by blast

text \<open>
  C3. A successful upload is complete and reports truthfully: every record that fits the limits was
  sent exactly once and in order, every request was answered with success, and the reported
  successful ids, failed ids and timestamp are those of the server's answers. In the atomic mode
  every record was sent and none failed.
\<close>

theorem upload_success_is_complete:
  assumes "1 \<le> max_post_records (cu_config u)" "1 \<le> max_total_records (cu_config u)"
    and "upload False js (logged post) u (w, []) = (Ok info, (w', l))"
  shows "all_succeed l \<and>
    (\<exists>xs. l = map fst xs \<and> (\<forall>(p, ch) \<in> set xs. p_body p = open_body js ch @ '']'') \<and>
       concat (map snd xs) = filter (fits (cu_config u) js) (cu_to_update u) \<and>
       (cu_fully_atomic u \<longrightarrow> concat (map snd xs) = cu_to_update u)) \<and>
    ui_successful_ids info = concat (map (\<lambda>r. ur_success (pr_result r)) (resps l)) \<and>
    ui_failed_ids info = concat (map (\<lambda>r. map fst (ur_failed (pr_result r))) (resps l)) \<and>
    ui_modified_timestamp info = (if l = [] then cu_xius u else pr_last_modified (last (resps l))) \<and>
    (cu_fully_atomic u \<longrightarrow> ui_failed_ids info = [])"
proof -
  obtain xs where xs: "l = map fst xs" "posts_ok (cu_config u) js xs"
    "sent xs = filter (fits (cu_config u) js) (cu_to_update u)" "cu_fully_atomic u \<longrightarrow> sent xs = cu_to_update u"
    "all_succeed l" "ui_successful_ids info = concat (map (\<lambda>r. ur_success (pr_result r)) (resps l))"
    "ui_failed_ids info = concat (map (\<lambda>r. map fst (ur_failed (pr_result r))) (resps l))"
    "ui_modified_timestamp info = (if l = [] then cu_xius u else pr_last_modified (last (resps l)))"
    by (rule upload_cases [OF assms(1,2) _ assms(3)]) auto
  moreover have "cu_fully_atomic u \<longrightarrow> ui_failed_ids info = []" by (rule atomic_no_failures [OF assms(3)])
  ultimately show ?thesis by (auto simp: posts_ok_def sent_def)
qed

theorem upload_success_is_complete_witness:
  "all_succeed log1 \<and> [''[x]'', ''[y]''] = concat (map (\<lambda>r. ur_success (pr_result r)) (resps log1))"
  using upload_success_is_complete [OF update1_config upload1] by simp

text \<open>
  C20. What fits in one batch is committed at once: when all the records that fit are together
  within \<^verbatim>\<open>max_total_records\<close> and \<^verbatim>\<open>max_total_bytes\<close>, a successful upload opens one
  batch with its first request, sends every later request under the timestamp and the batch id of
  the answer before it, and only the last request commits (or the server does not do batches).
\<close>

theorem upload_single_batch:
  assumes "1 \<le> max_post_records (cu_config u)" "1 \<le> max_total_records (cu_config u)"
    and "length (filter (fits (cu_config u) js) (cu_to_update u)) \<le> max_total_records (cu_config u)"
    and "payload_bytes js (filter (fits (cu_config u) js) (cu_to_update u)) \<le> max_total_bytes (cu_config u)"
    and "upload False js (logged post) u (w, []) = (Ok info, (w', l))"
  shows "(\<forall>p \<in> set (butlast l). \<not> p_commit p) \<and> successively link l \<and>
    (l \<noteq> [] \<longrightarrow> p_xius (hd l) = cu_xius u \<and> p_batch (hd l) = Some ''true'' \<and>
       (p_commit (last l) \<or> p_batch (last l) = None))"
proof (rule upload_cases [OF assms(1,2) _ assms(5)], goal_cases)
  case (2 xs)
  then have "\<forall>x \<in> set (butlast xs). \<not> p_commit (fst x)" using assms(3,4) by (simp add: in_total_def)
  then show ?case using 2(1,6) by (simp add: map_butlast [symmetric])
qed simp

theorem upload_single_batch_witness:
  "\<not> p_commit (hd log1) \<and> successively link log1 \<and> p_commit (last log1)"
proof -
  have "length (filter (fits (cu_config update1) js1) (cu_to_update update1)) \<le> max_total_records (cu_config update1)"
    "payload_bytes js1 (filter (fits (cu_config update1) js1) (cu_to_update update1)) \<le> max_total_bytes (cu_config update1)"
    by (simp_all add: update1_def fits_def info_configuration_default_def payload_bytes_def bso1_def new_record_def
        js1_def serialized_len_def EMPTY_ENCRYPTED_PAYLOAD_SIZE_def)
  from upload_single_batch [OF update1_config this upload1] show ?thesis by (simp add: log1_def)
qed

text \<open>
  Uploading does not panic of itself: with limits of at least one record, an upload panics
  only if the HTTP client does. None of the queue's assertions (the limit trackers, the empty
  queue inside a batch, the dropped records of the atomic mode) can fail.
\<close>

theorem upload_never_panics:
  assumes "1 \<le> max_post_records (cu_config u)" "1 \<le> max_total_records (cu_config u)"
    and "\<forall>r \<in> set (cu_to_update u). plen js r \<le> length (bso_json js r)"
    and "\<And>b x i c w. \<not> is_Panic (fst (post b x i c w))"
  shows "\<not> is_Panic (fst (upload dbg js post u w))"
proof -
  obtain res w' l where u: "upload dbg js (logged post) u (w, []) = (res, (w', l))" by (metis prod.collapse)
  have "is_Panic res \<longrightarrow> poster_panics post"
    by (rule upload_cases [OF assms(1,2) _ u]) (use assms(3) in auto)
  then show ?thesis using upload_unlog [OF u] assms(4) by (auto simp: poster_panics_def)
qed

theorem upload_never_panics_witness:
  "\<not> is_Panic (fst (upload True js1 post1 (update1\<lparr>cu_to_update := []\<rparr>) ()))"
  by (rule upload_never_panics) (simp_all add: update1_def info_configuration_default_def post1_def)

end
