(* ===== verification/Client.thy ===== *)
theory Client
  imports Token Changeset
begin

text \<open>
  The storage client (\<^verbatim>\<open>components/sync15/src/client.rs\<close>) and the parts of
  \<^verbatim>\<open>request.rs\<close> that make URLs and read the answer to a POST. The client's only state is
  the token provider's. URL manipulation, JSON, number formatting, Hawk and the HTTP backend are
  arguments, collected in a record.
\<close>

section \<open>What the client uses\<close>

record ('w, 'k) ClientEnv =
  ce_token :: "('w, 'k) TokenEnv"
  ce_url :: UrlOps
  ce_hawk :: "string \<Rightarrow> string \<Rightarrow> nat \<Rightarrow> string \<Rightarrow> string \<times> 'k \<Rightarrow> (string, string) outcome"
  ce_send :: "Request \<Rightarrow> ('w, ViaductError, Response) action"
  ce_parse_url :: "string \<Rightarrow> (string, string) outcome"
  ce_join_url :: "string \<Rightarrow> string \<Rightarrow> (string, string) outcome"
  ce_extend_path :: "string \<Rightarrow> string list \<Rightarrow> string option"
  ce_append_pairs :: "string \<Rightarrow> (string \<times> string) list \<Rightarrow> string"
  ce_remove_query :: "string \<Rightarrow> string"
  ce_show_nat :: "usize \<Rightarrow> string"
  ce_show_ts :: "ServerTimestamp \<Rightarrow> string"
  ce_parse_f64 :: "string \<Rightarrow> (string, rat) outcome"

text \<open>An action on the outside world leaves the token provider's state alone.\<close>

definition on_world :: "('w, 'e, 'a) action \<Rightarrow> ('w \<times> 's, 'e, 'a) action" where
  "on_world m = (\<lambda>(w, s). case m w of (r, w') \<Rightarrow> (r, (w', s)))"

type_synonym ('w, 'k, 'a) client_call = "('w \<times> 'k TokenState, ErrorKind, 'a) action"

section \<open>Requests\<close>

definition build_url :: "('w, 'k) ClientEnv \<Rightarrow> CollectionRequest \<Rightarrow> string \<Rightarrow> (ErrorKind, string) outcome" where
  "build_url env r base_url =
     obind (ok_or (UnacceptableUrl ''Storage server URL is not a base'')
              (ce_extend_path env base_url [''storage'', rq_collection r])) (\<lambda>url.
     let url = ce_append_pairs env url (build_query (ce_show_nat env) (ce_show_ts env) r) in
     Ok (if url_query (ce_url env) url = Some [] then ce_remove_query env url else url))"

definition authorized :: "('w, 'k) ClientEnv \<Rightarrow> Request \<Rightarrow> ('w, 'k, Request) client_call" where
  "authorized env req =
     abind (authorization (ce_token env) (ce_url env) (ce_hawk env) req) (\<lambda>hawk_header_value.
     lift (omap_err request_error (req_header ''authorization'' hawk_header_value req)))"

definition build_request :: "('w, 'k) ClientEnv \<Rightarrow> Method \<Rightarrow> string \<Rightarrow> ('w, 'k, Request) client_call" where
  "build_request env method url =
     abind (lift (omap_err request_error (req_header ''accept'' ''application/json'' (request_new method url))))
       (authorized env)"

definition exec_request :: "('w, 'k) ClientEnv \<Rightarrow> Request \<Rightarrow> bool \<Rightarrow> ('w, 'k, Response) client_call" where
  "exec_request env req must_succeed =
     abind (on_world (\<lambda>w. apfst (omap_err request_error) (ce_send env req w))) (\<lambda>resp.
     if must_succeed \<and> \<not> response_is_success resp
     then throw (StorageHttpError (resp_status resp) (url_path (ce_url env) (resp_url resp)))
     else ret resp)"

definition parse_timestamp :: "('w, 'k) ClientEnv \<Rightarrow> string \<Rightarrow> ServerTimestamp option" where
  "parse_timestamp env s = (case ce_parse_f64 env s of Ok f \<Rightarrow> Some f | _ \<Rightarrow> None)"

definition make_storage_request ::
    "('w, 'k) ClientEnv \<Rightarrow> (bytes \<Rightarrow> (string, 'a) outcome) \<Rightarrow> Method \<Rightarrow> string \<Rightarrow>
     ('w, 'k, 'a Sync15ClientResponse) client_call" where
  "make_storage_request env from_slice method url =
     abind (build_request env method url) (\<lambda>req.
     abind (exec_request env req False) (\<lambda>resp.
     let route = url_path (ce_url env) (resp_url resp); status = resp_status resp in
     if response_is_success resp then
       abind (lift (omap_err JsonError (from_slice (resp_body resp)))) (\<lambda>record.
       abind (lift (ok_or MissingServerTimestamp
                (Option.bind (headers_get ''x-last-modified'' (resp_headers resp)) (parse_timestamp env)))) (\<lambda>lm.
       ret (Success record lm route)))
     else ret
       (if status = 404 then NotFound route
        else if status = 401 then Unauthorized route
        else if 500 \<le> status \<and> status \<le> 600 then ServerError route status
        else RequestFailed route status)))"

text \<open>\<open>relative_url\<close> is the URL both \<open>relative_storage_request\<close> and \<open>put\<close> make.\<close>

definition relative_url :: "('w, 'k) ClientEnv \<Rightarrow> string \<Rightarrow> ('w, 'k, string) client_call" where
  "relative_url env relative_path =
     abind (api_endpoint (ce_token env)) (\<lambda>e.
     abind (lift (omap_err MalformedUrl (ce_parse_url env (e @ ''/'')))) (\<lambda>url.
     lift (omap_err MalformedUrl (ce_join_url env url relative_path))))"

definition relative_storage_request ::
    "('w, 'k) ClientEnv \<Rightarrow> (bytes \<Rightarrow> (string, 'a) outcome) \<Rightarrow> Method \<Rightarrow> string \<Rightarrow>
     ('w, 'k, 'a Sync15ClientResponse) client_call" where
  "relative_storage_request env from_slice method relative_path =
     abind (relative_url env relative_path) (make_storage_request env from_slice method)"

definition put ::
    "('w, 'k) ClientEnv \<Rightarrow> ('b \<Rightarrow> (string, bytes) outcome) \<Rightarrow> string \<Rightarrow> ServerTimestamp \<Rightarrow> 'b \<Rightarrow>
     ('w, 'k, unit) client_call" where
  "put env to_vec relative_path xius val =
     abind (relative_url env relative_path) (\<lambda>url.
     abind (build_request env Put url) (\<lambda>req.
     abind (lift (omap_err request_error
        (obind (json to_vec val req) (req_header ''x-if-unmodified-since'' (ce_show_ts env xius))))) (\<lambda>req.
     abind (exec_request env req True) (\<lambda>_. ret ()))))"

definition collection_request ::
    "('w, 'k) ClientEnv \<Rightarrow> (bytes \<Rightarrow> (string, 'a) outcome) \<Rightarrow> Method \<Rightarrow> CollectionRequest \<Rightarrow>
     ('w, 'k, 'a Sync15ClientResponse) client_call" where
  "collection_request env from_slice method r =
     abind (api_endpoint (ce_token env)) (\<lambda>e.
     abind (lift (omap_err MalformedUrl (ce_parse_url env e))) (\<lambda>base.
     abind (lift (build_url env r base)) (make_storage_request env from_slice method)))"

section \<open>The operations the rest of the crate calls\<close>

definition fetch_info_configuration ::
    "('w, 'k) ClientEnv \<Rightarrow> (bytes \<Rightarrow> (string, InfoConfiguration) outcome) \<Rightarrow>
     ('w, 'k, InfoConfiguration Sync15ClientResponse) client_call" where
  "fetch_info_configuration env from_slice = relative_storage_request env from_slice Get ''info/configuration''"

definition fetch_info_collections ::
    "('w, 'k) ClientEnv \<Rightarrow> (bytes \<Rightarrow> (string, InfoCollections) outcome) \<Rightarrow>
     ('w, 'k, InfoCollections Sync15ClientResponse) client_call" where
  "fetch_info_collections env from_slice = relative_storage_request env from_slice Get ''info/collections''"

definition fetch_meta_global ::
    "('w, 'k) ClientEnv \<Rightarrow> (bytes \<Rightarrow> (string, MetaGlobalRecord BsoRecord) outcome) \<Rightarrow>
     ('w, 'k, MetaGlobalRecord Sync15ClientResponse) client_call" where
  "fetch_meta_global env from_slice =
     abind (relative_storage_request env from_slice Get ''storage/meta/global'') (\<lambda>got.
     ret (case got of
        Success record lm route \<Rightarrow> Success (bso_payload record) lm route
      | NotFound route \<Rightarrow> NotFound route
      | Unauthorized route \<Rightarrow> Unauthorized route
      | ServerError route status \<Rightarrow> ServerError route status
      | RequestFailed route status \<Rightarrow> RequestFailed route status))"

definition fetch_crypto_keys ::
    "('w, 'k) ClientEnv \<Rightarrow> (bytes \<Rightarrow> (string, EncryptedBso) outcome) \<Rightarrow>
     ('w, 'k, EncryptedBso Sync15ClientResponse) client_call" where
  "fetch_crypto_keys env from_slice = relative_storage_request env from_slice Get ''storage/crypto/keys''"

definition put_meta_global ::
    "('w, 'k) ClientEnv \<Rightarrow> (MetaGlobalRecord BsoRecord \<Rightarrow> (string, bytes) outcome) \<Rightarrow> ServerTimestamp \<Rightarrow>
     MetaGlobalRecord \<Rightarrow> ('w, 'k, unit) client_call" where
  "put_meta_global env to_vec xius global =
     put env to_vec ''storage/meta/global'' xius (new_record ''global'' ''meta'' global)"

definition put_crypto_keys ::
    "('w, 'k) ClientEnv \<Rightarrow> (EncryptedBso \<Rightarrow> (string, bytes) outcome) \<Rightarrow> ServerTimestamp \<Rightarrow>
     EncryptedBso \<Rightarrow> ('w, 'k, unit) client_call" where
  "put_crypto_keys env to_vec xius keys = put env to_vec ''storage/crypto/keys'' xius keys"

definition wipe_all_remote :: "('w, 'k) ClientEnv \<Rightarrow> ('w, 'k, unit) client_call" where
  "wipe_all_remote env =
     abind (api_endpoint (ce_token env)) (\<lambda>e.
     abind (lift (omap_err MalformedUrl (ce_parse_url env e))) (\<lambda>url.
     abind (build_request env Delete url) (\<lambda>req s.
     case exec_request env req True s of
       (Ok _, s') \<Rightarrow> (Ok (), s')
     | (Err e, s') \<Rightarrow> (if is_not_found e then Ok () else Err e, s')
     | (Panic p, s') \<Rightarrow> (Panic p, s'))))"

definition get_encrypted_records ::
    "('w, 'k) ClientEnv \<Rightarrow> (bytes \<Rightarrow> (string, EncryptedBso list) outcome) \<Rightarrow> CollectionRequest \<Rightarrow>
     ('w, 'k, EncryptedBso list Sync15ClientResponse) client_call" where
  "get_encrypted_records env from_slice r = collection_request env from_slice Get r"

definition post_response_from_response ::
    "('w, 'k) ClientEnv \<Rightarrow> (bytes \<Rightarrow> (string, UploadResult) outcome) \<Rightarrow> Response \<Rightarrow>
     (ErrorKind, PostResponse) outcome" where
  "post_response_from_response env from_slice r =
     obind (omap_err JsonError (from_slice (resp_body r))) (\<lambda>result.
     obind (ok_or MissingServerTimestamp
              (try_get (parse_timestamp env) ''x-last-modified'' (resp_headers r))) (\<lambda>lm.
     Ok \<lparr>pr_status = resp_status r, pr_result = result, pr_last_modified = lm\<rparr>))"

text \<open>The poster of a collection, \<^verbatim>\<open>PostWrapper::post\<close>.\<close>

definition post_wrapper ::
    "('w, 'k) ClientEnv \<Rightarrow> (bytes \<Rightarrow> (string, UploadResult) outcome) \<Rightarrow> string \<Rightarrow>
     ('w \<times> 'k TokenState) poster" where
  "post_wrapper env from_slice coll bytes xius batch_id commit =
     abind (api_endpoint (ce_token env)) (\<lambda>e.
     abind (lift (omap_err MalformedUrl (ce_parse_url env e))) (\<lambda>base.
     abind (lift (build_url env
         ((collection_request_new coll)\<lparr>rq_batch := batch_id, rq_commit := commit\<rparr>) base)) (\<lambda>url.
     abind (build_request env Post url) (\<lambda>req.
     abind (lift (omap_err request_error
        (obind (req_header ''content-type'' ''application/json'' req) (\<lambda>req.
         obind (req_header ''x-if-unmodified-since'' (ce_show_ts env xius) req) (\<lambda>req.
         Ok (body bytes req)))))) (\<lambda>req.
     abind (exec_request env req False) (\<lambda>resp.
     lift (post_response_from_response env from_slice resp)))))))"

section \<open>Observing the requests\<close>

text \<open>The same client with the storage requests it sends written down.\<close>

definition logging :: "('w, 'k) ClientEnv \<Rightarrow> ('w \<times> Request list, 'k) ClientEnv" where
  "logging env =
     \<lparr>ce_token = \<lparr>env_fetch_token = on_world (env_fetch_token (ce_token env)),
        env_now = env_now (ce_token env) \<circ> fst, sys_now = sys_now (ce_token env) \<circ> fst,
        hawk_key = hawk_key (ce_token env)\<rparr>,
      ce_url = ce_url env, ce_hawk = ce_hawk env,
      ce_send = (\<lambda>req (w, log). case ce_send env req w of (r, w') \<Rightarrow> (r, (w', log @ [req]))),
      ce_parse_url = ce_parse_url env, ce_join_url = ce_join_url env, ce_extend_path = ce_extend_path env,
      ce_append_pairs = ce_append_pairs env, ce_remove_query = ce_remove_query env,
      ce_show_nat = ce_show_nat env, ce_show_ts = ce_show_ts env, ce_parse_f64 = ce_parse_f64 env\<rparr>"

definition quiet :: "(('w \<times> Request list) \<times> 's, 'e, 'a) action \<Rightarrow> bool" where
  "quiet m \<longleftrightarrow> (\<forall>s. snd (fst (snd (m s))) = snd (fst s))"

text \<open>At most one request, one that satisfies \<open>P\<close>, and exactly one if the call succeeds.\<close>

definition sends_one :: "(Request \<Rightarrow> bool) \<Rightarrow> (('w \<times> Request list) \<times> 's, 'e, 'a) action \<Rightarrow> bool" where
  "sends_one P m \<longleftrightarrow> (\<forall>s r s'. m s = (r, s') \<longrightarrow>
     (snd (fst s') = snd (fst s) \<and> \<not> is_Ok r) \<or>
     (\<exists>req. snd (fst s') = snd (fst s) @ [req] \<and> P req))"

lemma quiet_basic [simp, intro]: "quiet (ret a)" "quiet (throw e)" "quiet (lift r)"
  by (simp_all add: quiet_def action_defs)

lemma quiet_abind [intro]: "quiet m \<Longrightarrow> (\<And>a. quiet (f a)) \<Longrightarrow> quiet (abind m f)"
  unfolding quiet_def
proof
  fix s assume m: "\<forall>s. snd (fst (snd (m s))) = snd (fst s)" and f: "\<And>a. \<forall>s. snd (fst (snd (f a s))) = snd (fst s)"
  obtain r s1 where ms: "m s = (r, s1)" by (rule prod.exhaust)
  then have "snd (fst s1) = snd (fst s)" using m by (metis snd_conv)
  then show "snd (fst (snd (abind m f s))) = snd (fst s)" using ms f [THEN spec, of _ s1]
    by (cases r) (simp_all add: abind_def)
qed

lemma quietD: "quiet m \<Longrightarrow> m s = (r, s') \<Longrightarrow> snd (fst s') = snd (fst s)"
  unfolding quiet_def by (metis snd_conv)

lemma sends_oneD:
  "sends_one P m \<Longrightarrow> m s = (r, s') \<Longrightarrow>
     (snd (fst s') = snd (fst s) \<and> \<not> is_Ok r) \<or> (\<exists>req. snd (fst s') = snd (fst s) @ [req] \<and> P req)"
  unfolding sends_one_def by blast

lemma sends_one_before:
  assumes "quiet m" "\<And>s a s'. m s = (Ok a, s') \<Longrightarrow> sends_one P (f a)"
  shows "sends_one P (abind m f)"
  unfolding sends_one_def
proof (intro allI impI)
  fix s r s' assume "abind m f s = (r, s')"
  then show "(snd (fst s') = snd (fst s) \<and> \<not> is_Ok r) \<or> (\<exists>req. snd (fst s') = snd (fst s) @ [req] \<and> P req)"
  proof (cases rule: abind_cases)
    case (Ok a s1)
    show ?thesis using sends_oneD [OF assms(2) [OF Ok(1)] Ok(2)] quietD [OF assms(1) Ok(1)] by simp
  qed (use quietD [OF assms(1)] in auto)
qed

lemma sends_one_after:
  assumes "sends_one P m" "\<And>a. quiet (f a)" shows "sends_one P (abind m f)"
  unfolding sends_one_def
proof (intro allI impI)
  fix s r s' assume "abind m f s = (r, s')"
  then show "(snd (fst s') = snd (fst s) \<and> \<not> is_Ok r) \<or> (\<exists>req. snd (fst s') = snd (fst s) @ [req] \<and> P req)"
  proof (cases rule: abind_cases)
    case (Ok a s1)
    show ?thesis using sends_oneD [OF assms(1) Ok(1)] quietD [OF assms(2) Ok(2)] by simp
  next
    case (Err e)
    show ?thesis using sends_oneD [OF assms(1) Err(1)] Err(2) by simp
  next
    case (Panic p)
    show ?thesis using sends_oneD [OF assms(1) Panic(1)] Panic(2) by simp
  qed
qed

lemma fetch_context_log:
  assumes "fetch_context (ce_token (logging env)) (w, l) = (r, (w', l'))" shows "l' = l"
proof -
  obtain r1 w1 where f: "env_fetch_token (ce_token env) w = (r1, w1)" by fastforce
  show ?thesis using assms f
    by (cases r1) (auto simp: fetch_context_def logging_def abind_def on_world_def get_st_def Let_def ret_def lift_def
        split: outcome.splits)
qed

lemma fetch_token_log:
  assumes "fetch_token (ce_token (logging env)) e (w, l) = (r, (w', l'))" shows "l' = l"
proof -
  obtain r1 w1 l1 where f: "fetch_context (ce_token (logging env)) (w, l) = (r1, (w1, l1))" by (metis prod.collapse)
  show ?thesis using assms f fetch_context_log [OF f] by (cases r1) (auto simp: fetch_token_def)
qed

lemma advance_state_log:
  assumes "advance_state (ce_token (logging env)) st (w, l) = (r, (w', l'))" shows "l' = l"
proof -
  obtain r1 w1 l1 where f: "fetch_token (ce_token (logging env)) (known_endpoint st) (w, l) = (r1, (w1, l1))"
    by (metis prod.collapse)
  show ?thesis using assms f fetch_token_log [OF f] by (cases r1) (auto simp: advance_state_eq split: if_splits)
qed

lemma with_token_quiet: "quiet (with_token (ce_token (logging env)) f)"
  unfolding quiet_def
proof
  fix s :: "('a \<times> Request list) \<times> 'b TokenState"
  obtain w l st where s: "s = ((w, l), st)" by (metis prod.collapse)
  obtain r1 w1 l1 where a: "advance_state (ce_token (logging env)) st (w, l) = (r1, (w1, l1))"
    by (metis prod.collapse)
  show "snd (fst (snd (with_token (ce_token (logging env)) f s))) = snd (fst s)"
    using a advance_state_log [OF a]
    by (cases r1) (auto simp: s with_token_def Let_def split: TokenState.splits option.splits)
qed

lemma with_token_Ok: "with_token env f s = (Ok v, s') \<Longrightarrow> \<exists>c. f c = Ok v"
  by (cases s) (auto simp: with_token_def Let_def split: prod.splits outcome.splits TokenState.splits option.splits)

lemma authorization_Ok:
  assumes "authorization env u mk req s = (Ok v, s')" shows "\<exists>h. v = ''Hawk '' @ h"
  using with_token_Ok [OF assms [unfolded authorization_def]]
  by (auto simp: ctx_authorization_def Let_def obind_Ok_iff)

lemma endpoint_quiet [simp, intro]: "quiet (api_endpoint (ce_token (logging env)))"
  "quiet (authorization (ce_token (logging env)) u mk req)"
  by (simp_all add: api_endpoint_def authorization_def with_token_quiet)

lemma build_request_quiet [simp, intro]: "quiet (build_request (logging env) m url)"
  unfolding build_request_def authorized_def by blast

lemma relative_url_quiet [simp, intro]: "quiet (relative_url (logging env) p)"
  unfolding relative_url_def by blast

lemma exec_request_log:
  assumes "exec_request (logging env) req b s = (r, s')" shows "snd (fst s') = snd (fst s) @ [req]"
proof -
  obtain w l tk where s: "s = ((w, l), tk)" by (metis prod.collapse)
  obtain r1 w1 where x: "ce_send env req w = (r1, w1)" by (rule prod.exhaust)
  show ?thesis using assms x
    by (cases r1) (auto simp: s exec_request_def abind_def on_world_def logging_def throw_def ret_def split: if_splits)
qed

lemma exec_request_sends: "P req \<Longrightarrow> sends_one P (exec_request (logging env) req b)"
  unfolding sends_one_def using exec_request_log by blast

section \<open>The headers of a request\<close>

definition request_is :: "Method \<Rightarrow> string option \<Rightarrow> Request \<Rightarrow> bool" where
  "request_is method xius req \<longleftrightarrow> req_method req = method \<and> headers_ok (req_headers req) \<and>
     headers_get ''accept'' (req_headers req) = Some ''application/json'' \<and>
     (\<exists>h. headers_get ''authorization'' (req_headers req) = Some (trim_string (''Hawk '' @ h))) \<and>
     headers_get ''x-if-unmodified-since'' (req_headers req) = map_option trim_string xius"

lemma trim_json: "trim_string ''application/json'' = ''application/json''"
  by (simp add: trim_string_id printable_def)

lemma names_differ:
  "\<not> eq_ignore_ascii_case ''accept'' ''authorization''"
  "\<not> eq_ignore_ascii_case ''accept'' ''x-if-unmodified-since''" "\<not> eq_ignore_ascii_case ''accept'' ''content-type''"
  "\<not> eq_ignore_ascii_case ''authorization'' ''x-if-unmodified-since''"
  "\<not> eq_ignore_ascii_case ''authorization'' ''content-type''"
  "\<not> eq_ignore_ascii_case ''x-if-unmodified-since'' ''accept''"
  "\<not> eq_ignore_ascii_case ''x-if-unmodified-since'' ''authorization''"
  "\<not> eq_ignore_ascii_case ''x-if-unmodified-since'' ''content-type''"
  by (simp_all add: eq_ignore_ascii_case_def ascii_lower_def)

lemma req_header_Ok:
  assumes "req_header n v r = Ok r'" "headers_ok (req_headers r)"
  shows "headers_ok (req_headers r')" "headers_get n (req_headers r') = Some (trim_string v)"
    "\<not> eq_ignore_ascii_case n' n \<Longrightarrow> headers_get n' (req_headers r') = headers_get n' (req_headers r)"
    "req_method r' = req_method r" "req_body r' = req_body r"
  using assms headers_insert_ok [OF assms(2)] by (auto simp: req_header_def)

lemma build_request_Ok:
  assumes "build_request env m url s = (Ok req, s')"
  shows "request_is m None req" "req_body req = None"
proof -
  obtain r1 v s1 where r1: "req_header ''accept'' ''application/json'' (request_new m url) = Ok r1"
    and v: "authorization (ce_token env) (ce_url env) (ce_hawk env) r1 s = (Ok v, s1)"
    and r: "req_header ''authorization'' v r1 = Ok req"
    using assms
    by (auto simp: build_request_def authorized_def abind_def lift_def
        split: prod.splits outcome.splits)
  have ok0: "headers_ok (req_headers (request_new m url))" by (simp add: request_new_def headers_ok_def)
  have none: "headers_get n (req_headers (request_new m url)) = None" for n
    by (simp add: request_new_def headers_get_def get_header_def)
  note a = req_header_Ok [OF r1 ok0]
  note b = req_header_Ok [OF r a(1)]
  obtain h where h: "v = ''Hawk '' @ h" using authorization_Ok [OF v] by blast
  show "request_is m None req" "req_body req = None"
    using a(2,4,5) a(3) b(1,2,4,5) b(3) h names_differ trim_json none
    by (auto simp: request_is_def request_new_def)
qed

lemma make_storage_request_sends:
  "sends_one (request_is m None) (make_storage_request (logging env) js m url)"
  unfolding make_storage_request_def
proof (rule sends_one_before [OF build_request_quiet], rule sends_one_after)
  fix s req s' assume "build_request (logging env) m url s = (Ok req, s')"
  then show "sends_one (request_is m None) (exec_request (logging env) req False)"
    by (intro exec_request_sends build_request_Ok)
qed (auto simp: Let_def)

lemma relative_storage_request_sends:
  "sends_one (request_is m None) (relative_storage_request (logging env) js m path)"
  unfolding relative_storage_request_def
  by (rule sends_one_before [OF relative_url_quiet]) (rule make_storage_request_sends)

lemma collection_request_sends:
  "sends_one (request_is m None) (collection_request (logging env) js m r)"
  unfolding collection_request_def
  by (intro sends_one_before make_storage_request_sends) auto

lemma insert_if_missing_Ok:
  assumes i: "insert_if_missing n v hs = Ok hs'" and ok: "headers_ok hs"
  shows "headers_ok hs' \<and> (\<not> eq_ignore_ascii_case n' n \<longrightarrow> headers_get n' hs' = headers_get n' hs)"
proof (cases "list_ex (\<lambda>h. eq_ignore_ascii_case n (hd_name h)) hs")
  case True
  then show ?thesis using i ok by (simp add: insert_if_missing_def)
next
  case False
  then have "update_first (\<lambda>h. eq_ignore_ascii_case n (hd_name h)) (set_value v) hs = None"
    by (simp add: update_first_None list_ex_iff)
  then have ins: "headers_insert n v hs = Ok hs'"
    using i False by (simp add: headers_insert_def insert_if_missing_def)
  show ?thesis using headers_insert_ok(1) [OF ok ins] headers_insert_ok(3) [OF ok ins] by blast
qed

lemma request_is_json:
  assumes "request_is m None r" "json to_vec val r = Ok r'"
  shows "request_is m None r' \<and> (\<exists>b. to_vec val = Ok b \<and> req_body r' = Some b)"
proof -
  obtain b hs where b: "to_vec val = Ok b"
    "insert_if_missing ''content-type'' ''application/json'' (req_headers r) = Ok hs"
    "r' = r\<lparr>req_body := Some b, req_headers := hs\<rparr>"
    using assms(2) by (auto simp: json_def split: outcome.splits)
  have ok: "headers_ok (req_headers r)" using assms(1) by (simp add: request_is_def)
  show ?thesis using assms(1) b insert_if_missing_Ok [OF b(2) ok] names_differ by (auto simp: request_is_def)
qed

lemma request_is_header:
  assumes "request_is m x r" "req_header n v r = Ok r'"
    "\<not> eq_ignore_ascii_case ''accept'' n" "\<not> eq_ignore_ascii_case ''authorization'' n"
  shows "n = ''x-if-unmodified-since'' \<Longrightarrow> request_is m (Some v) r'"
    "\<not> eq_ignore_ascii_case ''x-if-unmodified-since'' n \<Longrightarrow> request_is m x r'"
  using assms req_header_Ok [OF assms(2)] by (auto simp: request_is_def)

lemma put_sends:
  "sends_one (\<lambda>req. request_is Put (Some (ce_show_ts env xius)) req \<and> (\<exists>b. to_vec val = Ok b \<and> req_body req = Some b))
     (put (logging env) to_vec path xius val)"
  unfolding put_def
proof (rule sends_one_before [OF relative_url_quiet], rule sends_one_before [OF build_request_quiet],
    rule sends_one_before, simp, rule sends_one_after)
  fix s url s1 s2 req s3 s4 req' s5
  assume b: "build_request (logging env) Put url s2 = (Ok req, s3)"
    and l: "lift (omap_err request_error (obind (json to_vec val req)
       (req_header ''x-if-unmodified-since'' (ce_show_ts (logging env) xius)))) s4 = (Ok req', s5)"
  obtain r where r: "json to_vec val req = Ok r" "req_header ''x-if-unmodified-since'' (ce_show_ts env xius) r = Ok req'"
    using l by (auto simp: lift_def obind_Ok_iff logging_def)
  note j = request_is_json [OF build_request_Ok(1) [OF b] r(1)]
  have "request_is Put (Some (ce_show_ts env xius)) req'"
    using request_is_header(1) [OF conjunct1 [OF j] r(2)] names_differ by simp
  moreover have "req_body req' = req_body r" using req_header_Ok(5) [OF r(2)] j by (simp add: request_is_def)
  ultimately show "sends_one (\<lambda>req. request_is Put (Some (ce_show_ts env xius)) req \<and>
      (\<exists>b. to_vec val = Ok b \<and> req_body req = Some b)) (exec_request (logging env) req' True)"
    using j by (intro exec_request_sends) simp
qed simp

lemma wipe_sends: "sends_one (request_is Delete None) (wipe_all_remote (logging env))"
  unfolding wipe_all_remote_def
proof (rule sends_one_before [OF endpoint_quiet(1)], rule sends_one_before, simp,
    rule sends_one_before [OF build_request_quiet])
  fix s2 req s3 url assume b: "build_request (logging env) Delete url s2 = (Ok req, s3)"
  show "sends_one (request_is Delete None) (\<lambda>s. case exec_request (logging env) req True s of
       (Ok _, s') \<Rightarrow> (Ok (), s')
     | (Err e, s') \<Rightarrow> (if is_not_found e then Ok () else Err e, s')
     | (Panic p, s') \<Rightarrow> (Panic p, s'))"
    unfolding sends_one_def
  proof (intro allI impI)
    fix s r s'
    assume c: "(case exec_request (logging env) req True s of (Ok _, s') \<Rightarrow> (Ok (), s')
     | (Err e, s') \<Rightarrow> (if is_not_found e then Ok () else Err e, s')
     | (Panic p, s') \<Rightarrow> (Panic p, s')) = (r, s')"
    obtain r1 s1 where x: "exec_request (logging env) req True s = (r1, s1)" by (rule prod.exhaust)
    show "(snd (fst s') = snd (fst s) \<and> \<not> is_Ok r) \<or> (\<exists>q. snd (fst s') = snd (fst s) @ [q] \<and> request_is Delete None q)"
      using c x exec_request_log [OF x] build_request_Ok(1) [OF b] by (cases r1) auto
  qed
qed

lemma post_sends:
  "sends_one (\<lambda>req. request_is Post (Some (ce_show_ts env xius)) req \<and> req_body req = Some bs)
     (post_wrapper (logging env) js coll bs xius batch_id commit)"
  unfolding post_wrapper_def
proof (rule sends_one_before [OF endpoint_quiet(1)], rule sends_one_before, simp, rule sends_one_before, simp,
    rule sends_one_before [OF build_request_quiet], rule sends_one_before, simp, rule sends_one_after)
  fix url s2 req s3 s4 req' s5
  assume b: "build_request (logging env) Post url s2 = (Ok req, s3)"
    and l: "lift (omap_err request_error (obind (req_header ''content-type'' ''application/json'' req) (\<lambda>req.
         obind (req_header ''x-if-unmodified-since'' (ce_show_ts (logging env) xius) req) (\<lambda>req. Ok (body bs req))))) s4 =
       (Ok req', s5)"
  obtain r1 r2 where r: "req_header ''content-type'' ''application/json'' req = Ok r1"
      "req_header ''x-if-unmodified-since'' (ce_show_ts env xius) r1 = Ok r2" "req' = body bs r2"
    using l by (auto simp: lift_def obind_Ok_iff logging_def)
  have "request_is Post None r1"
    using request_is_header(2) [OF build_request_Ok(1) [OF b] r(1)] names_differ by simp
  from request_is_header(1) [OF this r(2)] have "request_is Post (Some (ce_show_ts env xius)) r2"
    using names_differ by simp
  then show "sends_one (\<lambda>req. request_is Post (Some (ce_show_ts env xius)) req \<and> req_body req = Some bs)
      (exec_request (logging env) req' False)"
    by (intro exec_request_sends) (simp add: r(3) body_def request_is_def)
qed simp

section \<open>Properties\<close>


text \<open>
  The answers of the client are the server's: a request that comes back names the route, and its
  variant is determined by the status of the response. Only a 2xx response whose body parses and
  whose timestamp is present is a \<open>Success\<close>; the error made from any other variant carries the
  status of the response.
\<close>

theorem storage_answers:
  assumes "make_storage_request env js m url s = (Ok a, s')"
  shows "\<exists>req w resp w'. request_is m None req \<and> ce_send env req w = (Ok resp, w') \<and>
    (let status = resp_status resp; route = url_path (ce_url env) (resp_url resp) in
     (case a of
        Success record lm route' \<Rightarrow> route' = route \<and> 200 \<le> status \<and> status < 300 \<and> js (resp_body resp) = Ok record \<and>
          Option.bind (headers_get ''x-last-modified'' (resp_headers resp)) (parse_timestamp env) = Some lm
      | NotFound route' \<Rightarrow> status = 404
      | Unauthorized route' \<Rightarrow> status = 401
      | ServerError route' st \<Rightarrow> 500 \<le> status \<and> status \<le> 600
      | RequestFailed route' st \<Rightarrow> status \<notin> {200..299} \<union> {401, 404} \<union> {500..600}) \<and>
     (\<not> is_success_code status \<longrightarrow> create_storage_error a = StorageHttpError status route))"
proof -
  obtain req s1 where b: "build_request env m url s = (Ok req, s1)"
    and rest: "abind (exec_request env req False) (\<lambda>resp.
     let route = url_path (ce_url env) (resp_url resp); status = resp_status resp in
     if response_is_success resp then
       abind (lift (omap_err JsonError (js (resp_body resp)))) (\<lambda>record.
       abind (lift (ok_or MissingServerTimestamp
                (Option.bind (headers_get ''x-last-modified'' (resp_headers resp)) (parse_timestamp env)))) (\<lambda>lm.
       ret (Success record lm route)))
     else ret
       (if status = 404 then NotFound route
        else if status = 401 then Unauthorized route
        else if 500 \<le> status \<and> status \<le> 600 then ServerError route status
        else RequestFailed route status)) s1 = (Ok a, s')"
    using assms unfolding make_storage_request_def by (rule abind_OkE)
  then obtain resp s2 where x: "exec_request env req False s1 = (Ok resp, s2)"
    and k: "(let route = url_path (ce_url env) (resp_url resp); status = resp_status resp in
     if response_is_success resp then
       abind (lift (omap_err JsonError (js (resp_body resp)))) (\<lambda>record.
       abind (lift (ok_or MissingServerTimestamp
                (Option.bind (headers_get ''x-last-modified'' (resp_headers resp)) (parse_timestamp env)))) (\<lambda>lm.
       ret (Success record lm route)))
     else ret
       (if status = 404 then NotFound route
        else if status = 401 then Unauthorized route
        else if 500 \<le> status \<and> status \<le> 600 then ServerError route status
        else RequestFailed route status)) s2 = (Ok a, s')"
    by (elim abind_OkE)
  obtain w tk where s1: "s1 = (w, tk)" by (rule prod.exhaust)
  obtain r1 w1 where snd: "ce_send env req w = (r1, w1)" by (rule prod.exhaust)
  have sent: "ce_send env req w = (Ok resp, w1)"
    using x snd by (cases r1) (auto simp: exec_request_def s1 on_world_def abind_def ret_def)
  show ?thesis
  proof (intro exI conjI)
    show "request_is m None req" by (rule build_request_Ok(1) [OF b])
    show "ce_send env req w = (Ok resp, w1)" by (rule sent)
  qed (use k in \<open>auto simp: Let_def response_is_success_def is_success_code_def abind_lift ret_def
      split: if_splits outcome.splits option.splits\<close>)
qed

text \<open>A server that is overloaded, for the witness.\<close>

definition env2 :: "(nat, unit) ClientEnv" where
  "env2 = \<lparr>ce_token = env1,
     ce_url = \<lparr>url_query = \<lambda>_. None, url_path = \<lambda>_. ''/x'', url_host_str = \<lambda>_. Some ''node'',
       url_port_or_known_default = \<lambda>_. Some 443\<rparr>,
     ce_hawk = \<lambda>_ _ _ _ _. Ok ''h'',
     ce_send = \<lambda>req w. (Ok \<lparr>resp_method = Get, resp_url = req_url req, resp_status = 503, resp_headers = [], resp_body = []\<rparr>, w),
     ce_parse_url = Ok, ce_join_url = \<lambda>a b. Ok (a @ b), ce_extend_path = \<lambda>u _. Some u,
     ce_append_pairs = \<lambda>u _. u, ce_remove_query = \<lambda>u. u, ce_show_nat = \<lambda>_. ''0'', ce_show_ts = \<lambda>_. ''0'',
     ce_parse_f64 = \<lambda>_. Ok 0\<rparr>"

lemma header_Hawk: "header_new ''authorization'' ''Hawk h'' = Ok \<lparr>hd_name = ''authorization'', hd_value = ''Hawk h''\<rparr>"
  by (simp add: header_new_def header_name_from_def validate_header_eq valid_name_char_def valid_name_code_def
      ascii_lower_def trim_string_id printable_def is_valid_header_value_def)

lemma header_accept: "header_new ''accept'' ''application/json'' = Ok \<lparr>hd_name = ''accept'', hd_value = ''application/json''\<rparr>"
  by (simp add: header_new_def header_name_from_def validate_header_eq valid_name_char_def valid_name_code_def
      ascii_lower_def trim_string_id printable_def is_valid_header_value_def)

lemma env2_request:
  "make_storage_request env2 (\<lambda>_. Ok ()) Get ''u'' (5, NoToken) =
     (Ok (ServerError ''/x'' 503), snd (make_storage_request env2 (\<lambda>_. Ok ()) Get ''u'' (5, NoToken)))"
  by (simp add: make_storage_request_def build_request_def authorized_def authorization_def with_token_def
      advance_state_def fetch_token_def fetch_context_def time_add_def env1_def env2_def abind_def action_defs
      ctx_authorization_def req_header_def headers_insert_def header_accept header_Hawk request_new_def names_differ
      eq_ignore_ascii_case_def ascii_lower_def
      exec_request_def on_world_def response_is_success_def is_success_code_def Let_def)

theorem storage_answers_witness:
  "\<exists>req w resp w'. ce_send env2 req w = (Ok resp, w') \<and> 500 \<le> resp_status resp \<and> resp_status resp \<le> 600"
  using storage_answers [OF env2_request] by (auto simp: Let_def)

end
