(* ===== verification/SqlChunks.thy ===== *)
theory SqlChunks
  imports Prelude
begin

text \<open>
  Statements over long lists, in chunks of as many items as SQLite binds variables
  (\<^verbatim>\<open>components/support/sql/src/each_chunk.rs\<close>).
\<close>

function chunks :: "usize \<Rightarrow> 'a list \<Rightarrow> 'a list list" where
  "chunks n xs = (if xs = [] \<or> n = 0 then [] else take n xs # chunks n (drop n xs))"
  by auto
termination by (relation "measure (\<lambda>(n, xs). length xs)") auto

declare chunks.simps [simp del]

fun chunk_loop :: "('a list \<Rightarrow> usize \<Rightarrow> ('s, 'e, unit) action) \<Rightarrow> usize \<Rightarrow> 'a list list \<Rightarrow> ('s, 'e, unit) action" where
  "chunk_loop do_chunk offset [] = ret ()"
| "chunk_loop do_chunk offset (c # cs) =
     abind (do_chunk c offset) (\<lambda>_. chunk_loop do_chunk (offset + length c) cs)"

definition each_sized_chunk ::
    "'a list \<Rightarrow> usize \<Rightarrow> ('a list \<Rightarrow> usize \<Rightarrow> ('s, 'e, unit) action) \<Rightarrow> ('s, 'e, unit) action" where
  "each_sized_chunk items chunk_size do_chunk =
     (if items = [] then ret ()
      else if chunk_size = 0 then panic ''chunk size must be non-zero''
      else chunk_loop do_chunk 0 (chunks chunk_size items))"

definition each_sized_chunk_mapped ::
    "'a list \<Rightarrow> usize \<Rightarrow> ('a \<Rightarrow> 'b) \<Rightarrow> ('b list \<Rightarrow> usize \<Rightarrow> ('s, 'e, unit) action) \<Rightarrow> ('s, 'e, unit) action" where
  "each_sized_chunk_mapped items chunk_size to_sql do_chunk =
     (if items = [] then ret ()
      else if chunk_size = 0 then panic ''chunk size must be non-zero''
      else chunk_loop (\<lambda>c. do_chunk (map to_sql c)) 0 (chunks chunk_size items))"

lemma chunks_Nil [simp]: "chunks n [] = []"
  by (simp add: chunks.simps)

lemma concat_chunks: "0 < n \<Longrightarrow> concat (chunks n xs) = xs"
proof (induction n xs rule: chunks.induct)
  case (1 n xs)
  then show ?case by (cases "xs = []") (simp_all add: chunks.simps [of n xs])
qed

lemma chunks_bounds: "0 < n \<Longrightarrow> c \<in> set (chunks n xs) \<Longrightarrow> c \<noteq> [] \<and> length c \<le> n"
proof (induction n xs rule: chunks.induct)
  case (1 n xs)
  then show ?case by (cases "xs = []") (auto simp: chunks.simps [of n xs])
qed

text \<open>
  Batching loses nothing: on a non-empty list and a positive limit, the callback sees, in
  order, consecutive non-empty slices no longer than the limit whose concatenation is the whole
  list, each with the offset at which it starts.
\<close>

theorem each_sized_chunk_correct:
  assumes "0 < chunk_size"
  shows "\<exists>cs. each_sized_chunk items chunk_size do_chunk = chunk_loop do_chunk 0 cs \<and> concat cs = items \<and>
     (\<forall>c \<in> set cs. c \<noteq> [] \<and> length c \<le> chunk_size)"
  using assms by (intro exI [of _ "chunks chunk_size items"]) (auto simp: each_sized_chunk_def concat_chunks chunks_bounds)

theorem each_sized_chunk_correct_witness:
  "\<exists>cs. each_sized_chunk [1, 2, 3::int] 2 (\<lambda>c off log. (Ok () :: (string, unit) outcome, log @ [(off, c)])) =
       chunk_loop (\<lambda>c off log. (Ok (), log @ [(off, c)])) 0 cs \<and> concat cs = [1, 2, 3] \<and>
     (\<forall>c \<in> set cs. c \<noteq> [] \<and> length c \<le> 2)"
  by (rule each_sized_chunk_correct) simp

end
