(* ===== verification/LoginTables.thy ===== *)
theory LoginTables
  imports LoginTypes Client SqlChunks
begin

text \<open>
  The tables of the logins database (\<^verbatim>\<open>components/logins/src/schema.rs\<close>), the SQL statements
  the code runs on them, and transactions.

  A table is the list of its rows in the order of their row numbers; \<^verbatim>\<open>guid\<close> is unique. SQLite
  itself is outside the model: before each statement, and to begin and to commit a transaction,
  the action \<open>le_sql\<close> says whether the engine succeeds, so that every statement may fail.
\<close>

section \<open>Rows\<close>

record LoginRow =
  col_guid :: string
  col_username :: "string option"
  col_password :: string
  col_hostname :: string
  col_httpRealm :: "string option"
  col_formSubmitURL :: "string option"
  col_usernameField :: "string option"
  col_passwordField :: "string option"
  col_timeCreated :: int
  col_timeLastUsed :: "int option"
  col_timePasswordChanged :: int
  col_timesUsed :: int

record LocalRow = LoginRow +
  col_local_modified :: "int option"
  col_is_deleted :: bool
  col_sync_status :: nat

record MirrorRow = LoginRow +
  col_server_modified :: int
  col_is_overridden :: bool

datatype MetaValue = MetaText string | MetaInt int

record LoginTables =
  loginsL :: "LocalRow list"
  loginsM :: "MirrorRow list"
  loginsSyncMeta :: "string \<rightharpoonup> MetaValue"

definition empty_tables :: LoginTables where
  "empty_tables = \<lparr>loginsL = [], loginsM = [], loginsSyncMeta = Map.empty\<rparr>"

definition login_from_row :: "'a LoginRow_scheme \<Rightarrow> Login" where
  "login_from_row r =
     \<lparr>login_id = col_guid r, hostname = col_hostname r, form_submit_url = col_formSubmitURL r,
      http_realm = col_httpRealm r, username = or_empty (col_username r), password = col_password r,
      username_field = or_empty (col_usernameField r), password_field = or_empty (col_passwordField r),
      time_created = col_timeCreated r, time_password_changed = col_timePasswordChanged r,
      time_last_used = (case col_timeLastUsed r of Some t \<Rightarrow> t | None \<Rightarrow> 0), times_used = col_timesUsed r\<rparr>"

definition mirror_from_row :: "MirrorRow \<Rightarrow> MirrorLogin" where
  "mirror_from_row r =
     \<lparr>ml_login = login_from_row r, ml_is_overridden = col_is_overridden r,
      ml_server_modified = of_int (col_server_modified r) / 1000\<rparr>"

text \<open>\<^verbatim>\<open>as u64\<close> of a negative number wraps.\<close>

definition system_time_millis_from_row :: "int option \<Rightarrow> nat" where
  "system_time_millis_from_row c = nat ((case c of Some t \<Rightarrow> t | None \<Rightarrow> 0) mod 2 ^ 64)"

definition local_from_row :: "LocalRow \<Rightarrow> (LoginError, LocalLogin) outcome" where
  "local_from_row r =
     obind (if col_sync_status r < 256 then sync_status_from_u8 (col_sync_status r)
            else Err (SqlError ''integer out of range'')) (\<lambda>st.
     Ok \<lparr>ll_login = login_from_row r, ll_sync_status = st, ll_is_deleted = col_is_deleted r,
         ll_local_modified = system_time_millis_from_row (col_local_modified r)\<rparr>)"

text \<open>The columns of a row that a statement binds from a login.\<close>

definition row_of_login :: "Login \<Rightarrow> LoginRow" where
  "row_of_login l =
     \<lparr>col_guid = login_id l, col_username = Some (username l), col_password = password l,
      col_hostname = hostname l, col_httpRealm = http_realm l, col_formSubmitURL = form_submit_url l,
      col_usernameField = Some (username_field l), col_passwordField = Some (password_field l),
      col_timeCreated = time_created l, col_timeLastUsed = Some (time_last_used l),
      col_timePasswordChanged = time_password_changed l, col_timesUsed = times_used l\<rparr>"

definition local_row :: "'a LoginRow_scheme \<Rightarrow> int option \<Rightarrow> bool \<Rightarrow> nat \<Rightarrow> LocalRow" where
  "local_row r modified deleted st =
     LoginRow.extend (LoginRow.truncate r)
       \<lparr>col_local_modified = modified, col_is_deleted = deleted, col_sync_status = st\<rparr>"

definition mirror_row :: "'a LoginRow_scheme \<Rightarrow> int \<Rightarrow> bool \<Rightarrow> MirrorRow" where
  "mirror_row r modified overridden =
     LoginRow.extend (LoginRow.truncate r) \<lparr>col_server_modified = modified, col_is_overridden = overridden\<rparr>"

text \<open>A tombstone: the columns it leaves out take their defaults.\<close>

definition tombstone_row :: "int \<Rightarrow> 'a LoginRow_scheme \<Rightarrow> LocalRow" where
  "tombstone_row now_ms m =
     local_row
       \<lparr>col_guid = col_guid m, col_username = Some [], col_password = [], col_hostname = [],
        col_httpRealm = None, col_formSubmitURL = None, col_usernameField = None, col_passwordField = None,
        col_timeCreated = col_timeCreated m, col_timeLastUsed = None, col_timePasswordChanged = now_ms,
        col_timesUsed = 0\<rparr>
       (Some now_ms) True (sync_status_u8 Changed)"

section \<open>Statements\<close>

definition with_guid :: "string \<Rightarrow> 'a LoginRow_scheme list \<Rightarrow> 'a LoginRow_scheme option" where
  "with_guid g rows = find (\<lambda>r. col_guid r = g) rows"

definition delete_guids :: "string list \<Rightarrow> 'a LoginRow_scheme list \<Rightarrow> 'a LoginRow_scheme list" where
  "delete_guids gs rows = filter (\<lambda>r. col_guid r \<notin> set gs) rows"

definition update_where ::
    "('a LoginRow_scheme \<Rightarrow> bool) \<Rightarrow> ('a LoginRow_scheme \<Rightarrow> 'a LoginRow_scheme) \<Rightarrow>
     'a LoginRow_scheme list \<Rightarrow> 'a LoginRow_scheme list" where
  "update_where P f rows = map (\<lambda>r. if P r then f r else r) rows"

definition insert_or_ignore :: "'a LoginRow_scheme \<Rightarrow> 'a LoginRow_scheme list \<Rightarrow> 'a LoginRow_scheme list" where
  "insert_or_ignore r rows = (if col_guid r \<in> col_guid ` set rows then rows else rows @ [r])"

definition insert_select :: "'a LoginRow_scheme list \<Rightarrow> 'a LoginRow_scheme list \<Rightarrow> 'a LoginRow_scheme list" where
  "insert_select new rows = fold insert_or_ignore new rows"

section \<open>The engine and transactions\<close>

record 'w LoginEnv =
  le_sql :: "('w, LoginError, unit) action"
  le_err_if_interrupted :: "('w, LoginError, unit) action"
  le_now :: "'w \<Rightarrow> int"
  le_random_guid :: "('w, string, string) action"
  le_max_vars :: usize
  le_url_parse :: "string \<Rightarrow> (string option \<times> usize option) option"
  le_show_port :: "usize \<Rightarrow> string"

type_synonym ('w, 'a) login_op = "('w \<times> LoginTables, LoginError, 'a) action"

definition sql_write :: "'w LoginEnv \<Rightarrow> (LoginTables \<Rightarrow> LoginTables) \<Rightarrow> ('w, unit) login_op" where
  "sql_write env f = abind (on_world (le_sql env)) (\<lambda>_. abind get_st (\<lambda>(w, t). put_st (w, f t)))"

definition sql_read :: "'w LoginEnv \<Rightarrow> (LoginTables \<Rightarrow> 'a) \<Rightarrow> ('w, 'a) login_op" where
  "sql_read env q = abind (on_world (le_sql env)) (\<lambda>_. abind get_st (\<lambda>(w, t). ret (q t)))"

text \<open>A transaction that is not committed is rolled back when it is dropped.\<close>

definition rollback :: "LoginTables \<Rightarrow> ('w, 'a) login_op \<Rightarrow> ('w, 'a) login_op" where
  "rollback t0 m s = (case m s of (Ok a, s') \<Rightarrow> (Ok a, s') | (r, (w, _)) \<Rightarrow> (r, (w, t0)))"

definition transaction :: "'w LoginEnv \<Rightarrow> ('w, 'a) login_op \<Rightarrow> ('w, 'a) login_op" where
  "transaction env m =
     abind get_st (\<lambda>(_, t0).
     abind (on_world (le_sql env)) (\<lambda>_.
     rollback t0 (abind m (\<lambda>a. abind (on_world (le_sql env)) (\<lambda>_. ret a)))))"

definition scope_check :: "'w LoginEnv \<Rightarrow> ('w, unit) login_op" where
  "scope_check env = on_world (le_err_if_interrupted env)"

text \<open>The time of day in nanoseconds since the epoch, and \<^verbatim>\<open>system_time_ms_i64\<close> of it.\<close>

definition duration_ms_i64 :: "Duration \<Rightarrow> int" where
  "duration_ms_i64 d = int (dur_secs d) * 1000 + int (dur_nanos d div 1000000)"

definition system_time_ms_i64 :: "int \<Rightarrow> int" where
  "system_time_ms_i64 t =
     duration_ms_i64
       (if t < 0 then \<lparr>dur_secs = 0, dur_nanos = 0\<rparr>
        else \<lparr>dur_secs = nat (t div 1000000000), dur_nanos = nat (t mod 1000000000)\<rparr>)"

definition now_ns :: "'w LoginEnv \<Rightarrow> ('w, int) login_op" where
  "now_ns env = abind get_st (\<lambda>(w, t). ret (le_now env w))"

definition now_millis :: "'w LoginEnv \<Rightarrow> ('w, int) login_op" where
  "now_millis env = abind (now_ns env) (\<lambda>t. ret (system_time_ms_i64 t))"

section \<open>Chunks\<close>

text \<open>\<open>le_max_vars\<close> is what \<^verbatim>\<open>default_max_variable_number\<close> reads from SQLite.\<close>

definition each_chunk ::
    "'w LoginEnv \<Rightarrow> 'a list \<Rightarrow> ('a list \<Rightarrow> usize \<Rightarrow> ('w, unit) login_op) \<Rightarrow> ('w, unit) login_op" where
  "each_chunk env items do_chunk = each_sized_chunk items (le_max_vars env) do_chunk"

definition each_chunk_mapped ::
    "'w LoginEnv \<Rightarrow> 'a list \<Rightarrow> ('a \<Rightarrow> 'b) \<Rightarrow> ('b list \<Rightarrow> usize \<Rightarrow> ('w, unit) login_op) \<Rightarrow> ('w, unit) login_op" where
  "each_chunk_mapped env items to_sql do_chunk = each_sized_chunk_mapped items (le_max_vars env) to_sql do_chunk"

section \<open>Statements and lookups\<close>

named_theorems lookups

lemma with_guid_guid: "with_guid g rows = Some r \<Longrightarrow> col_guid r = g"
  by (induction rows) (auto simp: with_guid_def split: if_splits)

lemma with_guid_SomeD: "with_guid g rows = Some r \<Longrightarrow> r \<in> set rows \<and> col_guid r = g"
  by (induction rows) (auto simp: with_guid_def split: if_splits)

lemma with_guid_None_iff: "with_guid g rows = None \<longleftrightarrow> g \<notin> col_guid ` set rows"
  by (auto simp: with_guid_def find_None_iff)

lemma with_guid_distinct:
  "distinct (map col_guid rows) \<Longrightarrow> r \<in> set rows \<Longrightarrow> with_guid (col_guid r) rows = Some r"
  by (induction rows) (auto simp: with_guid_def)

lemma with_guid_Nil [lookups, simp]: "with_guid g [] = None"
  by (simp add: with_guid_def)

lemma with_guid_delete [lookups]:
  "with_guid g (delete_guids gs rows) = (if g \<in> set gs then None else with_guid g rows)"
  by (induction rows) (auto simp: with_guid_def delete_guids_def)

lemma with_guid_filter:
  assumes "\<And>r. with_guid g rows = Some r \<Longrightarrow> P r" shows "with_guid g (filter P rows) = with_guid g rows"
  using assms by (induction rows) (auto simp: with_guid_def split: if_splits)

lemma with_guid_append:
  "with_guid g (xs @ ys) = (case with_guid g xs of Some r \<Rightarrow> Some r | None \<Rightarrow> with_guid g ys)"
  by (induction xs) (auto simp: with_guid_def)

lemma with_guid_filter_distinct:
  "distinct (map col_guid rows) \<Longrightarrow>
   with_guid g (filter P rows) = (case with_guid g rows of Some r \<Rightarrow> if P r then Some r else None | None \<Rightarrow> None)"
proof (induction rows)
  case (Cons r rows)
  show ?case
  proof (cases "col_guid r = g")
    case True
    then have "with_guid g (filter P rows) = None" using Cons.prems by (auto simp: with_guid_None_iff)
    then show ?thesis using True by (simp add: with_guid_def)
  next
    case False
    then show ?thesis using Cons by (simp add: with_guid_def)
  qed
qed (simp add: with_guid_def)

lemma with_guid_map:
  "(\<And>r. col_guid (f r) = col_guid r) \<Longrightarrow> with_guid g (map f rows) = map_option f (with_guid g rows)"
  by (induction rows) (auto simp: with_guid_def)

lemma with_guid_update [lookups]:
  "(\<And>r. col_guid (f r) = col_guid r) \<Longrightarrow>
   with_guid g (update_where P f rows) = map_option (\<lambda>r. if P r then f r else r) (with_guid g rows)"
  unfolding update_where_def by (rule with_guid_map) simp

lemma with_guid_insert [lookups]:
  "with_guid g (insert_or_ignore r rows) =
     (case with_guid g rows of Some x \<Rightarrow> Some x | None \<Rightarrow> if col_guid r = g then Some r else None)"
proof (cases "col_guid r \<in> col_guid ` set rows")
  case True
  then have "with_guid g rows = None \<Longrightarrow> col_guid r \<noteq> g" by (auto simp: with_guid_None_iff)
  then show ?thesis using True by (auto simp: insert_or_ignore_def split: option.splits)
next
  case False
  have "with_guid g [r] = (if col_guid r = g then Some r else None)" by (simp add: with_guid_def)
  then show ?thesis using False by (simp add: insert_or_ignore_def with_guid_append split: option.split)
qed

lemma with_guid_insert_select [lookups]:
  "with_guid g (insert_select new rows) =
     (case with_guid g rows of Some x \<Rightarrow> Some x | None \<Rightarrow> with_guid g new)"
  unfolding insert_select_def
proof (induction new arbitrary: rows)
  case (Cons r new)
  then show ?case by (auto simp: with_guid_insert split: option.splits) (auto simp: with_guid_def)
qed (auto split: option.splits)

lemma distinct_delete_guids: "distinct (map col_guid rows) \<Longrightarrow> distinct (map col_guid (delete_guids gs rows))"
  by (simp add: delete_guids_def distinct_map_filter)

lemma distinct_update_where:
  assumes "\<And>r. col_guid (f r) = col_guid r"
  shows "distinct (map col_guid (update_where P f rows)) = distinct (map col_guid rows)"
proof -
  have "map col_guid (update_where P f rows) = map col_guid rows" using assms by (simp add: update_where_def)
  then show ?thesis by simp
qed

lemma distinct_insert_row: "distinct (map col_guid rows) \<Longrightarrow> distinct (map col_guid (insert_or_ignore r rows))"
  by (auto simp: insert_or_ignore_def)

lemma distinct_insert_select: "distinct (map col_guid rows) \<Longrightarrow> distinct (map col_guid (insert_select new rows))"
  unfolding insert_select_def by (induction new arbitrary: rows) (auto simp: distinct_insert_row)

lemma row_of_login_from_row [simp]: "login_from_row (row_of_login l) = l"
  by (simp add: login_from_row_def row_of_login_def or_empty_def)

lemma local_row_simps [simp]:
  "col_guid (local_row r ms d st) = col_guid r" "col_local_modified (local_row r ms d st) = ms"
  "col_is_deleted (local_row r ms d st) = d" "col_sync_status (local_row r ms d st) = st"
  "login_from_row (local_row r ms d st) = login_from_row r"
  by (simp_all add: local_row_def LoginRow.defs login_from_row_def)

lemma mirror_row_simps [simp]:
  "col_guid (mirror_row r ms d) = col_guid r" "col_server_modified (mirror_row r ms d) = ms"
  "col_is_overridden (mirror_row r ms d) = d" "login_from_row (mirror_row r ms d) = login_from_row r"
  by (simp_all add: mirror_row_def LoginRow.defs login_from_row_def)

lemma tombstone_row_simps [simp]:
  "col_guid (tombstone_row n m) = col_guid m" "col_is_deleted (tombstone_row n m)"
  "col_sync_status (tombstone_row n m) = 1" "col_local_modified (tombstone_row n m) = Some n"
  by (simp_all add: tombstone_row_def)

lemma row_of_login_guid [simp]: "col_guid (row_of_login l) = login_id l"
  by (simp add: row_of_login_def)

section \<open>What an operation does when it succeeds\<close>

definition does :: "('w, 'a) login_op \<Rightarrow> (LoginTables \<Rightarrow> 'a \<Rightarrow> LoginTables \<Rightarrow> bool) \<Rightarrow> bool" where
  "does m R \<longleftrightarrow> (\<forall>w t a w' t'. m (w, t) = (Ok a, (w', t')) \<longrightarrow> R t a t')"

definition atomic :: "('w, 'a) login_op \<Rightarrow> bool" where
  "atomic m \<longleftrightarrow> (\<forall>w t r w' t'. m (w, t) = (r, (w', t')) \<longrightarrow> \<not> is_Ok r \<longrightarrow> t' = t)"

lemma doesD: "does m R \<Longrightarrow> m (w, t) = (Ok a, (w', t')) \<Longrightarrow> R t a t'"
  by (simp add: does_def)

lemma does_weaken: "does m P \<Longrightarrow> (\<And>t a t'. P t a t' \<Longrightarrow> Q t a t') \<Longrightarrow> does m Q"
  by (simp add: does_def)

lemma does_abind:
  assumes "does m P" "\<And>a. does (f a) (Q a)"
  shows "does (abind m f) (\<lambda>t b t'. \<exists>a t1. P t a t1 \<and> Q a t1 b t')"
  unfolding does_def
proof (intro allI impI)
  fix w t b w' t' assume "abind m f (w, t) = (Ok b, (w', t'))"
  then obtain a s1 where "m (w, t) = (Ok a, s1)" "f a s1 = (Ok b, (w', t'))" by (rule abind_OkE)
  then show "\<exists>a t1. P t a t1 \<and> Q a t1 b t'" using assms by (cases s1) (metis does_def)
qed

lemma does_ret: "does (ret a) (\<lambda>t b t'. b = a \<and> t' = t)"
  by (simp add: does_def ret_def)

lemma does_throw: "does (throw e) (\<lambda>t b t'. False)"
  by (simp add: does_def throw_def)

lemma does_lift: "does (lift r) (\<lambda>t b t'. r = Ok b \<and> t' = t)"
  by (simp add: does_def lift_def)

lemma on_world_tables: "on_world m (w, t) = (r, (w', t')) \<Longrightarrow> t' = t"
  by (auto simp: on_world_def split: prod.splits)

lemma on_world_snd: "on_world m s = (r, s') \<Longrightarrow> snd s' = snd s"
  by (auto simp: on_world_def split: prod.splits)

lemma does_on_world: "does (on_world m) (\<lambda>t b t'. t' = t)"
  by (auto simp: does_def dest: on_world_tables)

lemma does_write: "does (sql_write env f) (\<lambda>t _ t'. t' = f t)"
  by (auto simp: does_def sql_write_def abind_def on_world_def get_st_def put_st_def split: prod.splits outcome.splits)

lemma does_read: "does (sql_read env q) (\<lambda>t a t'. a = q t \<and> t' = t)"
  by (auto simp: does_def sql_read_def abind_def on_world_def get_st_def ret_def split: prod.splits outcome.splits)

lemma does_scope: "does (scope_check env) (\<lambda>t _ t'. t' = t)"
  unfolding scope_check_def by (rule does_on_world)

lemma does_now_ns: "does (now_ns env) (\<lambda>t _ t'. t' = t)"
  by (auto simp: does_def now_ns_def ret_def)

lemma does_now: "does (now_millis env) (\<lambda>t n t'. t' = t)"
  by (auto simp: does_def now_millis_def now_ns_def ret_def get_st_def abind_def)

lemma rollback_Ok: "rollback t0 m s = (Ok a, s') \<longleftrightarrow> m s = (Ok a, s')"
  by (auto simp: rollback_def split: prod.splits outcome.splits)

lemma does_transaction: "does m R \<Longrightarrow> does (transaction env m) R"
  unfolding does_def
proof (intro allI impI)
  fix w t a w' t' assume m: "\<forall>w t a w' t'. m (w, t) = (Ok a, w', t') \<longrightarrow> R t a t'"
    and "transaction env m (w, t) = (Ok a, (w', t'))"
  then have "abind (on_world (le_sql env)) (\<lambda>_. rollback t (abind m (\<lambda>a. abind (on_world (le_sql env)) (\<lambda>_. ret a))))
      (w, t) = (Ok a, (w', t'))" by (simp add: transaction_def)
  then obtain u s1 where s1: "on_world (le_sql env) (w, t) = (Ok u, s1)"
      "rollback t (abind m (\<lambda>a. abind (on_world (le_sql env)) (\<lambda>_. ret a))) s1 = (Ok a, (w', t'))" by (rule abind_OkE)
  obtain a1 s2 where s2: "m s1 = (Ok a1, s2)" "abind (on_world (le_sql env)) (\<lambda>_. ret a1) s2 = (Ok a, (w', t'))"
    using s1(2) unfolding rollback_Ok by (rule abind_OkE)
  obtain u' s3 where s3: "on_world (le_sql env) s2 = (Ok u', s3)" "ret a1 s3 = (Ok a :: (LoginError, _) outcome, (w', t'))"
    using s2(2) by (rule abind_OkE)
  have "snd s1 = t" "t' = snd s2" "a1 = a"
    using on_world_snd [OF s1(1)] on_world_snd [OF s3(1)] s3(2) by (auto simp: ret_def)
  then show "R t a t'" using m s2(1) by (metis prod.collapse)
qed

lemma atomic_transaction: "atomic (transaction env m)"
  by (auto simp: atomic_def transaction_def abind_def on_world_def get_st_def rollback_def
      split: prod.splits outcome.splits)

lemma atomic_abind_throw:
  assumes "\<And>e. r \<noteq> Ok e" shows "atomic (abind (lift r) f)"
  using assms by (auto simp: atomic_def abind_def lift_def split: outcome.splits)

lemma atomic_lift_then: "(\<And>a. atomic (f a)) \<Longrightarrow> atomic (abind (lift r) f)"
  by (auto simp: atomic_def abind_def lift_def split: outcome.splits)

lemma atomic_then_ret: "atomic m \<Longrightarrow> atomic (abind m (\<lambda>a. ret (g a)))"
  by (auto simp: atomic_def abind_def ret_def split: prod.splits outcome.splits)

section \<open>Chunks\<close>

lemma does_chunk_loop:
  assumes "\<And>c off. does (do_chunk c off) (\<lambda>t _ t'. R c t t')"
    "\<And>t. R [] t t" "\<And>a b t t1 t2. R a t t1 \<Longrightarrow> R b t1 t2 \<Longrightarrow> R (a @ b) t t2"
  shows "does (chunk_loop do_chunk off cs) (\<lambda>t _ t'. R (concat cs) t t')"
proof (induction cs arbitrary: off)
  case Nil
  show ?case using assms(2) by (simp add: does_def ret_def)
next
  case (Cons c cs)
  show ?case
    by (simp, rule does_weaken [OF does_abind [OF assms(1) Cons.IH]]) (auto intro: assms(3))
qed

lemma does_each_chunk:
  assumes "\<And>c off. does (do_chunk c off) (\<lambda>t _ t'. R c t t')"
    "\<And>t. R [] t t" "\<And>a b t t1 t2. R a t t1 \<Longrightarrow> R b t1 t2 \<Longrightarrow> R (a @ b) t t2"
  shows "does (each_chunk env xs do_chunk) (\<lambda>t _ t'. R xs t t')"
proof (cases "xs = [] \<or> le_max_vars env = 0")
  case True
  then show ?thesis
    using assms(2) by (auto simp: each_chunk_def each_sized_chunk_def does_def ret_def panic_def)
next
  case False
  then have "concat (chunks (le_max_vars env) xs) = xs" by (simp add: concat_chunks)
  then show ?thesis
    using does_chunk_loop [where R = R, OF assms, where off = 0 and cs = "chunks (le_max_vars env) xs"] False
    by (simp add: each_chunk_def each_sized_chunk_def)
qed

end
