(* ===== verification/LoginPlan.thy ===== *)
theory LoginPlan
  imports LoginTables
begin

text \<open>
  Plans for applying incoming logins (\<^verbatim>\<open>components/logins/src/update_plan.rs\<close>): what is
  planned for one record, among it the three-way merge, and the statements that carry a plan out.
\<close>

record UpdatePlan =
  delete_mirror :: "string list"
  delete_local :: "string list"
  local_updates :: "MirrorLogin list"
  mirror_inserts :: "(Login \<times> int \<times> bool) list"
  mirror_updates :: "(Login \<times> int) list"

definition empty_plan :: UpdatePlan where
  "empty_plan = \<lparr>delete_mirror = [], delete_local = [], local_updates = [], mirror_inserts = [], mirror_updates = []\<rparr>"

definition millis_i64 :: "ServerTimestamp \<Rightarrow> int" where
  "millis_i64 ts = wrap_i64 (int (as_millis ts))"

definition plan_two_way_merge :: "Login \<Rightarrow> Login \<times> ServerTimestamp \<Rightarrow> UpdatePlan \<Rightarrow> UpdatePlan" where
  "plan_two_way_merge local upstream plan =
     (let is_override = time_password_changed local > time_password_changed (fst upstream);
          plan1 = plan\<lparr>mirror_inserts := mirror_inserts plan @ [(fst upstream, millis_i64 (snd upstream), is_override)]\<rparr>
      in if is_override then plan1 else plan1\<lparr>delete_local := delete_local plan1 @ [login_id local]\<rparr>)"

text \<open>Ages in nanoseconds; a time in the future has age zero. \<open>now\<close> is the time of day.\<close>

definition local_age :: "int \<Rightarrow> LocalLogin \<Rightarrow> nat" where
  "local_age now local = nat (now - int (ll_local_modified local) * 1000000)"

definition remote_age :: "ServerTimestamp \<Rightarrow> ServerTimestamp \<Rightarrow> nat" where
  "remote_age server_now upstream_time =
     (case duration_since server_now upstream_time of
        Some d \<Rightarrow> dur_secs d * 1000000000 + dur_nanos d | None \<Rightarrow> 0)"

definition plan_three_way_merge ::
    "bool \<Rightarrow> int \<Rightarrow> LocalLogin \<Rightarrow> MirrorLogin \<Rightarrow> Login \<Rightarrow> ServerTimestamp \<Rightarrow> ServerTimestamp \<Rightarrow> UpdatePlan \<Rightarrow>
     (LoginError, UpdatePlan) outcome" where
  "plan_three_way_merge dbg now local shared upstream upstream_time server_now plan =
     obind (delta dbg (ll_login local) (ml_login shared)) (\<lambda>local_delta.
     obind (delta dbg upstream (ml_login shared)) (\<lambda>upstream_delta.
     obind (delta_merge dbg local_delta upstream_delta (remote_age server_now upstream_time < local_age now local)) (\<lambda>merged_delta.
     obind (apply_delta dbg merged_delta (ml_login shared)) (\<lambda>new.
     Ok (plan\<lparr>mirror_updates := mirror_updates plan @ [(upstream, millis_i64 upstream_time)],
              local_updates := local_updates plan @ [shared\<lparr>ml_login := new, ml_server_modified := upstream_time\<rparr>]\<rparr>)))))"

definition plan_delete :: "string \<Rightarrow> UpdatePlan \<Rightarrow> UpdatePlan" where
  "plan_delete i plan = plan\<lparr>delete_local := delete_local plan @ [i], delete_mirror := delete_mirror plan @ [i]\<rparr>"

definition plan_mirror_update :: "Login \<Rightarrow> ServerTimestamp \<Rightarrow> UpdatePlan \<Rightarrow> UpdatePlan" where
  "plan_mirror_update login ts plan = plan\<lparr>mirror_updates := mirror_updates plan @ [(login, millis_i64 ts)]\<rparr>"

definition plan_mirror_insert :: "Login \<Rightarrow> ServerTimestamp \<Rightarrow> bool \<Rightarrow> UpdatePlan \<Rightarrow> UpdatePlan" where
  "plan_mirror_insert login ts is_override plan =
     plan\<lparr>mirror_inserts := mirror_inserts plan @ [(login, millis_i64 ts, is_override)]\<rparr>"

section \<open>Carrying out a plan\<close>

definition delete_locals :: "string list \<Rightarrow> LoginTables \<Rightarrow> LoginTables" where
  "delete_locals gs t = t\<lparr>loginsL := delete_guids gs (loginsL t)\<rparr>"

definition delete_mirrors :: "string list \<Rightarrow> LoginTables \<Rightarrow> LoginTables" where
  "delete_mirrors gs t = t\<lparr>loginsM := delete_guids gs (loginsM t)\<rparr>"

definition perform_deletes :: "'w LoginEnv \<Rightarrow> UpdatePlan \<Rightarrow> ('w, unit) login_op" where
  "perform_deletes env plan =
     abind (each_chunk env (delete_local plan) (\<lambda>chunk _.
       abind (sql_write env (delete_locals chunk)) (\<lambda>_. scope_check env))) (\<lambda>_.
     each_chunk env (delete_mirror plan) (\<lambda>chunk _. sql_write env (delete_mirrors chunk)))"

fun afor :: "('a \<Rightarrow> ('s, 'e, unit) action) \<Rightarrow> 'a list \<Rightarrow> ('s, 'e, unit) action" where
  "afor f [] = ret ()"
| "afor f (x # xs) = abind (f x) (\<lambda>_. afor f xs)"

text \<open>\<^verbatim>\<open>coalesce(nullif(:new, 0), old)\<close>\<close>

definition nonzero_or :: "int \<Rightarrow> int \<Rightarrow> int" where
  "nonzero_or new old = (if new = 0 then old else new)"

definition update_mirror_row :: "Login \<Rightarrow> int \<Rightarrow> MirrorRow \<Rightarrow> MirrorRow" where
  "update_mirror_row l ts r =
     r\<lparr>col_server_modified := ts, col_httpRealm := http_realm l, col_formSubmitURL := form_submit_url l,
       col_usernameField := Some (username_field l), col_passwordField := Some (password_field l),
       col_password := password l, col_hostname := hostname l, col_username := Some (username l),
       col_timesUsed := nonzero_or (times_used l) (col_timesUsed r),
       col_timeLastUsed := (if time_last_used l = 0 then col_timeLastUsed r else Some (time_last_used l)),
       col_timePasswordChanged := nonzero_or (time_password_changed l) (col_timePasswordChanged r),
       col_timeCreated := nonzero_or (time_created l) (col_timeCreated r)\<rparr>"

definition update_mirror :: "Login \<times> int \<Rightarrow> LoginTables \<Rightarrow> LoginTables" where
  "update_mirror u t =
     t\<lparr>loginsM := update_where (\<lambda>r. col_guid r = login_id (fst u)) (update_mirror_row (fst u) (snd u)) (loginsM t)\<rparr>"

definition perform_mirror_updates :: "'w LoginEnv \<Rightarrow> UpdatePlan \<Rightarrow> ('w, unit) login_op" where
  "perform_mirror_updates env plan =
     abind (on_world (le_sql env)) (\<lambda>_.
     afor (\<lambda>u. abind (sql_write env (update_mirror u)) (\<lambda>_. scope_check env)) (mirror_updates plan))"

definition insert_mirror :: "Login \<times> int \<times> bool \<Rightarrow> LoginTables \<Rightarrow> LoginTables" where
  "insert_mirror i t =
     (case i of (l, ts, is_overridden) \<Rightarrow>
        t\<lparr>loginsM := insert_or_ignore (mirror_row (row_of_login l) ts is_overridden) (loginsM t)\<rparr>)"

definition perform_mirror_inserts :: "'w LoginEnv \<Rightarrow> UpdatePlan \<Rightarrow> ('w, unit) login_op" where
  "perform_mirror_inserts env plan =
     abind (on_world (le_sql env)) (\<lambda>_.
     afor (\<lambda>i. abind (sql_write env (insert_mirror i)) (\<lambda>_. scope_check env)) (mirror_inserts plan))"

definition update_local_row :: "int \<Rightarrow> Login \<Rightarrow> LocalRow \<Rightarrow> LocalRow" where
  "update_local_row local_ms l r =
     r\<lparr>col_local_modified := Some local_ms, col_httpRealm := http_realm l, col_formSubmitURL := form_submit_url l,
       col_usernameField := Some (username_field l), col_passwordField := Some (password_field l),
       col_timeLastUsed := Some (time_last_used l), col_timePasswordChanged := time_password_changed l,
       col_timesUsed := times_used l, col_password := password l, col_hostname := hostname l,
       col_username := Some (username l), col_sync_status := sync_status_u8 Changed\<rparr>"

definition update_local :: "int \<Rightarrow> MirrorLogin \<Rightarrow> LoginTables \<Rightarrow> LoginTables" where
  "update_local local_ms l t =
     t\<lparr>loginsL := update_where (\<lambda>r. col_guid r = login_id (ml_login l)) (update_local_row local_ms (ml_login l)) (loginsL t)\<rparr>"

definition perform_local_updates :: "'w LoginEnv \<Rightarrow> UpdatePlan \<Rightarrow> ('w, unit) login_op" where
  "perform_local_updates env plan =
     abind (on_world (le_sql env)) (\<lambda>_.
     abind (now_millis env) (\<lambda>local_ms.
     afor (\<lambda>l. abind (sql_write env (update_local local_ms l)) (\<lambda>_. scope_check env)) (local_updates plan)))"

definition execute :: "'w LoginEnv \<Rightarrow> UpdatePlan \<Rightarrow> ('w, unit) login_op" where
  "execute env plan =
     abind (perform_deletes env plan) (\<lambda>_.
     abind (perform_mirror_updates env plan) (\<lambda>_.
     abind (perform_mirror_inserts env plan) (\<lambda>_.
     perform_local_updates env plan)))"

section \<open>What a plan does\<close>

lemma does_afor: "(\<And>x. does (f x) (\<lambda>t _ t'. t' = g x t)) \<Longrightarrow> does (afor f xs) (\<lambda>t _ t'. t' = fold g xs t)"
proof (induction xs)
  case (Cons x xs)
  show ?case by (simp, rule does_weaken [OF does_abind [OF Cons.prems Cons.IH [OF Cons.prems]]]) auto
qed (simp add: does_def ret_def)

lemma does_then_scope:
  "does m (\<lambda>t _ t'. t' = f t) \<Longrightarrow> does (abind m (\<lambda>_. scope_check env)) (\<lambda>t _ t'. t' = f t)"
  by (rule does_weaken [OF does_abind [OF _ does_scope]]) auto

lemma delete_locals_append: "delete_locals b (delete_locals a t) = delete_locals (a @ b) t"
  by (auto simp: delete_locals_def delete_guids_def intro: filter_cong)

lemma delete_mirrors_append: "delete_mirrors b (delete_mirrors a t) = delete_mirrors (a @ b) t"
  by (auto simp: delete_mirrors_def delete_guids_def intro: filter_cong)

lemma delete_none: "delete_locals [] t = t" "delete_mirrors [] t = t"
  by (simp_all add: delete_locals_def delete_mirrors_def delete_guids_def)

lemma does_perform_deletes:
  "does (perform_deletes env plan) (\<lambda>t _ t'. t' = delete_mirrors (delete_mirror plan) (delete_locals (delete_local plan) t))"
  unfolding perform_deletes_def
proof (rule does_weaken [OF does_abind])
  show "does (each_chunk env (delete_local plan) (\<lambda>chunk _. abind (sql_write env (delete_locals chunk)) (\<lambda>_. scope_check env)))
      (\<lambda>t _ t'. t' = delete_locals (delete_local plan) t)"
    by (rule does_each_chunk [where R = "\<lambda>c t t'. t' = delete_locals c t"])
      (auto simp: delete_locals_append delete_none intro: does_then_scope does_write)
  show "does (each_chunk env (delete_mirror plan) (\<lambda>chunk _. sql_write env (delete_mirrors chunk)))
      (\<lambda>t _ t'. t' = delete_mirrors (delete_mirror plan) t)" for a
    by (rule does_each_chunk [where R = "\<lambda>c t t'. t' = delete_mirrors c t"])
      (auto simp: delete_mirrors_append delete_none intro: does_write)
qed auto

definition run_plan :: "int \<Rightarrow> UpdatePlan \<Rightarrow> LoginTables \<Rightarrow> LoginTables" where
  "run_plan local_ms plan t =
     fold (update_local local_ms) (local_updates plan)
       (fold insert_mirror (mirror_inserts plan)
         (fold update_mirror (mirror_updates plan)
           (delete_mirrors (delete_mirror plan) (delete_locals (delete_local plan) t))))"

lemma does_sql_then:
  "(\<And>x. does (f x) (\<lambda>t _ t'. t' = g x t)) \<Longrightarrow> does (abind (on_world m) (\<lambda>_. afor f xs)) (\<lambda>t _ t'. t' = fold g xs t)"
  by (rule does_weaken [OF does_abind [OF does_on_world does_afor [where g = g]]]) auto

lemma does_perform_local_updates:
  "does (perform_local_updates env plan) (\<lambda>t _ t'. \<exists>ms. t' = fold (update_local ms) (local_updates plan) t)"
proof -
  have a: "does (afor (\<lambda>l. abind (sql_write env (update_local ms l)) (\<lambda>_. scope_check env)) (local_updates plan))
      (\<lambda>t _ t'. t' = fold (update_local ms) (local_updates plan) t)" for ms
    by (intro does_afor does_then_scope does_write)
  have "does (abind (now_millis env) (\<lambda>ms. afor (\<lambda>l. abind (sql_write env (update_local ms l)) (\<lambda>_. scope_check env)) (local_updates plan)))
      (\<lambda>t _ t'. \<exists>ms. t' = fold (update_local ms) (local_updates plan) t)"
    by (rule does_weaken [OF does_abind [OF does_now a]]) auto
  then show ?thesis unfolding perform_local_updates_def
    by (rule does_weaken [OF does_abind [OF does_on_world]]) auto
qed

lemma does_execute: "does (execute env plan) (\<lambda>t _ t'. \<exists>ms. t' = run_plan ms plan t)"
proof -
  have u: "does (perform_mirror_updates env plan) (\<lambda>t _ t'. t' = fold update_mirror (mirror_updates plan) t)"
    and i: "does (perform_mirror_inserts env plan) (\<lambda>t _ t'. t' = fold insert_mirror (mirror_inserts plan) t)"
    unfolding perform_mirror_updates_def perform_mirror_inserts_def
    by (intro does_sql_then does_then_scope does_write)+
  show ?thesis unfolding execute_def
    by (rule does_weaken [OF does_abind [OF does_perform_deletes does_abind [OF u does_abind [OF i does_perform_local_updates]]]])
      (auto simp: run_plan_def)
qed

section \<open>The three-way merge\<close>

text \<open>
  One field of the merge: a side that did not change it yields to the other; if both changed it
  the newer side wins.
\<close>

definition merged :: "bool \<Rightarrow> 'a \<Rightarrow> 'a \<Rightarrow> 'a \<Rightarrow> 'a" where
  "merged upstream_is_newer base local upstream =
     (if upstream = base then local else if local = base then upstream
      else if upstream_is_newer then upstream else local)"

definition merged_login :: "bool \<Rightarrow> Login \<Rightarrow> Login \<Rightarrow> Login \<Rightarrow> Login" where
  "merged_login newer base local upstream =
     \<lparr>login_id = login_id base,
      hostname = merged newer (hostname base) (hostname local) (hostname upstream),
      form_submit_url = merged newer (form_submit_url base) (form_submit_url local) (form_submit_url upstream),
      http_realm = merged newer (http_realm base) (http_realm local) (http_realm upstream),
      username = merged newer (username base) (username local) (username upstream),
      password = merged newer (password base) (password local) (password upstream),
      username_field = merged newer (username_field base) (username_field local) (username_field upstream),
      password_field = merged newer (password_field base) (password_field local) (password_field upstream),
      time_created = merged newer (time_created base) (time_created local) (time_created upstream),
      time_password_changed =
        merged newer (time_password_changed base) (time_password_changed local) (time_password_changed upstream),
      time_last_used = merged newer (time_last_used base) (time_last_used local) (time_last_used upstream),
      times_used = times_used local + times_used upstream - times_used base\<rparr>"

lemma merge_changed:
  "(case merge_field p (changed l b) (changed u b) of Some x \<Rightarrow> x | None \<Rightarrow> b) = merged p b l u"
  by (auto simp: changed_def merged_def)

lemma merge_changed_time:
  "l > 0 \<Longrightarrow> u > 0 \<Longrightarrow>
   (case merge_field p (changed_time l b) (changed_time u b) of Some x \<Rightarrow> x | None \<Rightarrow> b) = merged p b l u"
  by (auto simp: changed_time_def merged_def)

lemma merge_changed_target:
  "l \<noteq> Some [] \<Longrightarrow> u \<noteq> Some [] \<Longrightarrow>
   apply_target (merge_field p (changed_target l b) (changed_target u b)) b = merged p b l u"
  by (auto simp: apply_target_def changed_target_def merged_def or_empty_def split: option.splits)

text \<open>
  C33. The three-way merge of a login that changed here and on the server since the last sync: the
  mirror is to take the server's version, and the local record gets, field by field, the value of
  the side that changed it, of the newer side if both did, and a usage count to which both sides'
  uses are added. The plan is otherwise left as it was.
\<close>

theorem three_way_merge_correct:
  assumes "plain_login (ml_login shared)" and "plain_login (ll_login local)" and "plain_login upstream"
    and "in_i64 (times_used (ll_login local) + times_used upstream - times_used (ml_login shared))"
    and "in_i64 (times_used (ll_login local) + times_used upstream - 2 * times_used (ml_login shared))"
  shows "plan_three_way_merge dbg now local shared upstream upstream_time server_now plan =
     Ok (plan\<lparr>mirror_updates := mirror_updates plan @ [(upstream, millis_i64 upstream_time)],
              local_updates := local_updates plan @
                [shared\<lparr>ml_login := merged_login (remote_age server_now upstream_time < local_age now local)
                            (ml_login shared) (ll_login local) upstream,
                        ml_server_modified := upstream_time\<rparr>]\<rparr>)"
proof -
  have sum: "add_i64 dbg (times_used (ll_login local) - times_used (ml_login shared))
        (times_used upstream - times_used (ml_login shared)) =
      Ok (times_used (ll_login local) + times_used upstream - 2 * times_used (ml_login shared))"
    using assms(5) by (simp add: add_i64_def algebra_simps)
  have app: "add_i64 dbg (times_used (ml_login shared))
        (times_used (ll_login local) + times_used upstream - 2 * times_used (ml_login shared)) =
      Ok (times_used (ll_login local) + times_used upstream - times_used (ml_login shared))"
    using assms(4) by (simp add: add_i64_def algebra_simps)
  show ?thesis
    using assms(1-3)
    unfolding plan_three_way_merge_def delta_def delta_times_used [OF assms(2,1)] delta_times_used [OF assms(3,1)]
    by (simp add: delta_merge_def sum apply_delta_def app merged_login_def plain_login_def
        merge_changed merge_changed_time merge_changed_target)
qed

theorem three_way_merge_correct_witness:
  "plan_three_way_merge True 0
       \<lparr>ll_login = login1\<lparr>username := ''v''\<rparr>, ll_sync_status = Changed, ll_is_deleted = False, ll_local_modified = 0\<rparr>
       \<lparr>ml_login = login1, ml_is_overridden = True, ml_server_modified = 0\<rparr> (login1\<lparr>password := ''q'', times_used := 4\<rparr>) 5 6 empty_plan =
     Ok (empty_plan\<lparr>mirror_updates := mirror_updates empty_plan @ [(login1\<lparr>password := ''q'', times_used := 4\<rparr>, millis_i64 5)],
              local_updates := local_updates empty_plan @
                [\<lparr>ml_login = login1, ml_is_overridden = True, ml_server_modified = 0\<rparr>
                  \<lparr>ml_login := merged_login
                      (remote_age 6 5 < local_age 0 \<lparr>ll_login = login1\<lparr>username := ''v''\<rparr>, ll_sync_status = Changed, ll_is_deleted = False, ll_local_modified = 0\<rparr>)
                      (ml_login \<lparr>ml_login = login1, ml_is_overridden = True, ml_server_modified = 0\<rparr>)
                      (ll_login \<lparr>ll_login = login1\<lparr>username := ''v''\<rparr>, ll_sync_status = Changed, ll_is_deleted = False, ll_local_modified = 0\<rparr>)
                      (login1\<lparr>password := ''q'', times_used := 4\<rparr>),
                   ml_server_modified := 5\<rparr>]\<rparr>)"
  by (rule three_way_merge_correct) (simp_all add: login1_def plain_login_def in_i64_def)

end
