(* ===== verification/SetupState.thy ===== *)
theory SetupState
  imports Client
begin

text \<open>
  The setup state machine (\<^verbatim>\<open>components/sync15/src/state.rs\<close>) that brings a client from
  scratch, or from the state of the previous sync, to a \<open>GlobalState\<close>. The trait
  \<^verbatim>\<open>SetupStorageClient\<close> is a record of actions; \<open>storage_client\<close> is the implementation the
  storage client gives. The log of visited states is part of the machine.
\<close>

section \<open>The trait and its implementation\<close>

record 'w SetupStorageClient =
  sc_fetch_info_configuration :: "('w, ErrorKind, InfoConfiguration Sync15ClientResponse) action"
  sc_fetch_info_collections :: "('w, ErrorKind, InfoCollections Sync15ClientResponse) action"
  sc_fetch_meta_global :: "('w, ErrorKind, MetaGlobalRecord Sync15ClientResponse) action"
  sc_fetch_crypto_keys :: "('w, ErrorKind, EncryptedBso Sync15ClientResponse) action"
  sc_put_meta_global :: "ServerTimestamp \<Rightarrow> MetaGlobalRecord \<Rightarrow> ('w, ErrorKind, unit) action"
  sc_put_crypto_keys :: "ServerTimestamp \<Rightarrow> EncryptedBso \<Rightarrow> ('w, ErrorKind, unit) action"
  sc_wipe_all_remote :: "('w, ErrorKind, unit) action"

text \<open>The JSON conversions the storage client needs.\<close>

record StorageJson =
  sj_configuration :: "bytes \<Rightarrow> (string, InfoConfiguration) outcome"
  sj_collections :: "bytes \<Rightarrow> (string, InfoCollections) outcome"
  sj_meta_global :: "bytes \<Rightarrow> (string, MetaGlobalRecord BsoRecord) outcome"
  sj_encrypted_bso :: "bytes \<Rightarrow> (string, EncryptedBso) outcome"
  sj_meta_global_to_vec :: "MetaGlobalRecord BsoRecord \<Rightarrow> (string, bytes) outcome"
  sj_encrypted_bso_to_vec :: "EncryptedBso \<Rightarrow> (string, bytes) outcome"

definition storage_client ::
    "('w, 'k) ClientEnv \<Rightarrow> StorageJson \<Rightarrow> ('w \<times> 'k TokenState) SetupStorageClient" where
  "storage_client env js =
     \<lparr>sc_fetch_info_configuration = fetch_info_configuration env (sj_configuration js),
      sc_fetch_info_collections = fetch_info_collections env (sj_collections js),
      sc_fetch_meta_global = fetch_meta_global env (sj_meta_global js),
      sc_fetch_crypto_keys = fetch_crypto_keys env (sj_encrypted_bso js),
      sc_put_meta_global = put_meta_global env (sj_meta_global_to_vec js),
      sc_put_crypto_keys = put_crypto_keys env (sj_encrypted_bso_to_vec js),
      sc_wipe_all_remote = wipe_all_remote env\<rparr>"

text \<open>
  What the machine uses besides: cryptography with its random generator, the random generator
  and the URL-safe base64 of \<^verbatim>\<open>random_guid\<close>, JSON, and the interruption flag.
\<close>

record 'w SetupEnv =
  se_client :: "'w SetupStorageClient"
  se_root_key :: KeyBundle
  se_crypto :: "'w Crypto"
  se_rand_bytes :: "usize \<Rightarrow> ('w, string, bytes) action"
  se_b64url_encode :: "bytes \<Rightarrow> string"
  se_payload :: PayloadJson
  se_keys_from_value :: "(string \<rightharpoonup> JsonValue) \<Rightarrow> (string, CryptoKeysRecord) outcome"
  se_keys_from_record :: "CryptoKeysRecord \<Rightarrow> (string, Payload) outcome"
  se_was_interrupted :: "'w \<Rightarrow> bool"

definition random_guid :: "'w SetupEnv \<Rightarrow> ('w, ErrorKind, string) action" where
  "random_guid env =
     abind (try_as OpensslError (se_rand_bytes env 9)) (\<lambda>bs. ret (se_b64url_encode env bs))"

definition err_if_interrupted :: "'w SetupEnv \<Rightarrow> ('w, ErrorKind, unit) action" where
  "err_if_interrupted env w = (if se_was_interrupted env w then (Err Interrupted, w) else (Ok (), w))"

section \<open>Global state\<close>

definition STORAGE_VERSION :: usize where
  "STORAGE_VERSION = 5"

definition DEFAULT_ENGINES :: "(string \<times> usize) list" where
  "DEFAULT_ENGINES =
     [(''passwords'', 1), (''clients'', 1), (''addons'', 1), (''addresses'', 1), (''bookmarks'', 2),
      (''creditcards'', 1), (''forms'', 1), (''history'', 1), (''prefs'', 2), (''tabs'', 1)]"

definition DEFAULT_DECLINED :: "string list" where
  "DEFAULT_DECLINED = []"

datatype PersistedGlobalState = V2 "string list option"

definition pgs_default :: PersistedGlobalState where
  "pgs_default = V2 None"

record GlobalState =
  gs_config :: InfoConfiguration
  gs_collections :: InfoCollections
  gs_global :: MetaGlobalRecord
  gs_global_timestamp :: ServerTimestamp
  gs_keys :: CollectionKeys

fun insert_engines ::
    "'w SetupEnv \<Rightarrow> (string \<times> usize) list \<Rightarrow> (string \<rightharpoonup> MetaGlobalEngine) \<Rightarrow>
     ('w, ErrorKind, string \<rightharpoonup> MetaGlobalEngine) action" where
  "insert_engines env [] engines = ret engines"
| "insert_engines env ((name, version) # es) engines =
     abind (random_guid env) (\<lambda>sync_id.
     insert_engines env es (engines(name \<mapsto> \<lparr>eng_version = version, eng_sync_id = sync_id\<rparr>)))"

definition new_global :: "'w SetupEnv \<Rightarrow> PersistedGlobalState \<Rightarrow> ('w, ErrorKind, MetaGlobalRecord) action" where
  "new_global env pgs =
     abind (random_guid env) (\<lambda>sync_id.
     abind (insert_engines env DEFAULT_ENGINES Map.empty) (\<lambda>engines.
     let declined = (case pgs of V2 (Some d) \<Rightarrow> d | _ \<Rightarrow> DEFAULT_DECLINED) in
     ret \<lparr>mg_sync_id = sync_id, mg_storage_version = STORAGE_VERSION, mg_engines = engines,
          mg_declined = declined\<rparr>))"

section \<open>The machine\<close>

datatype SetupState =
    Initial
  | InitialWithConfig InfoConfiguration
  | InitialWithInfo InfoConfiguration InfoCollections
  | InitialWithMetaGlobal InfoConfiguration InfoCollections MetaGlobalRecord ServerTimestamp
  | WithPreviousState GlobalState
  | Ready GlobalState
  | FreshStartRequired InfoConfiguration

fun label :: "SetupState \<Rightarrow> string" where
  "label Initial = ''Initial''"
| "label (InitialWithConfig _) = ''InitialWithConfig''"
| "label (InitialWithInfo _ _) = ''InitialWithInfo''"
| "label (InitialWithMetaGlobal _ _ _ _) = ''InitialWithMetaGlobal''"
| "label (Ready _) = ''Ready''"
| "label (WithPreviousState _) = ''WithPreviousState''"
| "label (FreshStartRequired _) = ''FreshStartRequired''"

definition is_fresh :: "ServerTimestamp \<Rightarrow> InfoCollections \<Rightarrow> string \<Rightarrow> bool" where
  "is_fresh local collections key = (case collections key of Some ts \<Rightarrow> local \<ge> ts | None \<Rightarrow> False)"

record SetupStateMachine =
  sm_pgs :: PersistedGlobalState
  allowed_states :: "string list"
  seen :: "string list"

definition with_allowed_states :: "PersistedGlobalState \<Rightarrow> string list \<Rightarrow> SetupStateMachine" where
  "with_allowed_states pgs allowed = \<lparr>sm_pgs = pgs, allowed_states = allowed, seen = []\<rparr>"

definition for_full_sync :: "PersistedGlobalState \<Rightarrow> SetupStateMachine" where
  "for_full_sync pgs = with_allowed_states pgs
     [''Initial'', ''InitialWithConfig'', ''InitialWithInfo'', ''InitialWithMetaGlobal'', ''Ready'',
      ''FreshStartRequired'', ''WithPreviousState'']"

definition for_fast_sync :: "PersistedGlobalState \<Rightarrow> SetupStateMachine" where
  "for_fast_sync pgs = with_allowed_states pgs [''Ready'', ''WithPreviousState'']"

definition for_readonly_sync :: "PersistedGlobalState \<Rightarrow> SetupStateMachine" where
  "for_readonly_sync pgs = with_allowed_states pgs
     [''Initial'', ''InitialWithConfig'', ''InitialWithInfo'', ''InitialWithMetaGlobal'', ''Ready'',
      ''WithPreviousState'']"

text \<open>
  One step, on the outside world and the persisted state. The persisted state is written in one
  place, before the keys are fetched.
\<close>

definition fresh_start ::
    "'w SetupEnv \<Rightarrow> InfoConfiguration \<Rightarrow> PersistedGlobalState \<Rightarrow> ('w, ErrorKind, SetupState) action" where
  "fresh_start env config pgs =
     abind (sc_wipe_all_remote (se_client env)) (\<lambda>_.
     abind (new_global env pgs) (\<lambda>g.
     abind (sc_put_meta_global (se_client env) 0 g) (\<lambda>_.
     abind (abind (keys_new_random (se_crypto env)) (\<lambda>k.
            to_encrypted_bso (se_crypto env) (payload_to_str (se_payload env)) (se_keys_from_record env) k
              (se_root_key env))) (\<lambda>new_keys.
     abind (sc_put_crypto_keys (se_client env) 0 new_keys) (\<lambda>_.
     ret (InitialWithConfig config))))))"

definition fetch_keys ::
    "'w SetupEnv \<Rightarrow> InfoConfiguration \<Rightarrow> InfoCollections \<Rightarrow> MetaGlobalRecord \<Rightarrow> ServerTimestamp \<Rightarrow>
     ('w, ErrorKind, SetupState) action" where
  "fetch_keys env config collections global global_timestamp =
     abind (sc_fetch_crypto_keys (se_client env)) (\<lambda>resp.
     case resp of
       Success record lm _ \<Rightarrow>
         abind (assert_that (lm = bso_modified record) ''assertion failed: (left == right)'') (\<lambda>_.
         abind (lift (from_encrypted_bso (se_crypto env) (payload_from_str (se_payload env))
                        (se_keys_from_value env) record (se_root_key env))) (\<lambda>new_keys.
         ret (Ready \<lparr>gs_config = config, gs_collections = collections, gs_global = global,
                     gs_global_timestamp = global_timestamp, gs_keys = new_keys\<rparr>)))
     | NotFound _ \<Rightarrow> ret (FreshStartRequired config)
     | other \<Rightarrow> throw (create_storage_error other))"

fun advance :: "'w SetupEnv \<Rightarrow> SetupState \<Rightarrow> ('w \<times> PersistedGlobalState, ErrorKind, SetupState) action" where
  "advance env Initial =
     on_world (abind (sc_fetch_info_configuration (se_client env)) (\<lambda>resp.
       case resp of
         Success record _ _ \<Rightarrow> ret (InitialWithConfig record)
       | NotFound _ \<Rightarrow> ret (InitialWithConfig info_configuration_default)
       | other \<Rightarrow> throw (create_storage_error other)))"
| "advance env (InitialWithConfig config) =
     on_world (abind (sc_fetch_info_collections (se_client env)) (\<lambda>resp.
       case resp of
         Success collections _ _ \<Rightarrow> ret (InitialWithInfo config collections)
       | NotFound _ \<Rightarrow> ret (FreshStartRequired config)
       | other \<Rightarrow> throw (create_storage_error other)))"
| "advance env (InitialWithInfo config collections) =
     on_world (abind (sc_fetch_meta_global (se_client env)) (\<lambda>resp.
       case resp of
         Success global global_timestamp _ \<Rightarrow>
           (if mg_storage_version global > STORAGE_VERSION then throw ClientUpgradeRequired
            else if mg_storage_version global < STORAGE_VERSION then ret (FreshStartRequired config)
            else ret (InitialWithMetaGlobal config collections global global_timestamp))
       | NotFound _ \<Rightarrow> ret (FreshStartRequired config)
       | other \<Rightarrow> throw (create_storage_error other)))"
| "advance env (InitialWithMetaGlobal config collections global global_timestamp) =
     (\<lambda>(w, pgs). on_world (fetch_keys env config collections global global_timestamp)
        (w, V2 (Some (mg_declined global))))"
| "advance env (WithPreviousState old_state) =
     on_world (abind (sc_fetch_info_collections (se_client env)) (\<lambda>resp.
       case resp of
         Success collections _ _ \<Rightarrow>
           ret (if is_fresh (gs_global_timestamp old_state) collections ''meta'' \<and>
                   is_fresh (keys_timestamp (gs_keys old_state)) collections ''crypto''
                then Ready (old_state\<lparr>gs_collections := collections\<rparr>)
                else InitialWithConfig (gs_config old_state))
       | _ \<Rightarrow> ret (InitialWithConfig (gs_config old_state))))"
| "advance env (Ready state) = ret (Ready state)"
| "advance env (FreshStartRequired config) = (\<lambda>(w, pgs). on_world (fresh_start env config pgs) (w, pgs))"

text \<open>
  The number of states the loop can still enter, given whether a fresh start has been made; it
  is what makes the loop terminate.
\<close>

fun steps_left :: "bool \<Rightarrow> SetupState \<Rightarrow> nat" where
  "steps_left fresh Initial = 9"
| "steps_left fresh (WithPreviousState _) = 9"
| "steps_left fresh (InitialWithConfig _) = (if fresh then 4 else 8)"
| "steps_left fresh (InitialWithInfo _ _) = (if fresh then 3 else 7)"
| "steps_left fresh (InitialWithMetaGlobal _ _ _ _) = (if fresh then 2 else 6)"
| "steps_left fresh (Ready _) = 1"
| "steps_left fresh (FreshStartRequired _) = (if fresh then 0 else 5)"

lemma on_world_Ok: "on_world m s = (Ok a, s') \<Longrightarrow> \<exists>w'. m (fst s) = (Ok a, w') \<and> s' = (w', snd s)"
  by (cases s) (auto simp: on_world_def split: prod.splits)

fun restarts :: "SetupState \<Rightarrow> bool" where
  "restarts (FreshStartRequired _) = True"
| "restarts (WithPreviousState _) = True"
| "restarts Initial = True"
| "restarts _ = False"

fun ready_state :: "SetupState \<Rightarrow> GlobalState option" where
  "ready_state (Ready state) = Some state"
| "ready_state _ = None"

lemma advance_decreases:
  assumes "advance env s ws = (Ok s', ws')" "ready_state s = None" "restarts s \<longrightarrow> label s \<notin> set sq"
  shows "steps_left (''FreshStartRequired'' \<in> set (sq @ [label s])) s' <
         steps_left (''FreshStartRequired'' \<in> set sq) s"
  using assms
  by (cases s)
    (auto simp: abind_def action_defs fetch_keys_def fresh_start_def dest!: on_world_Ok
      split: prod.splits outcome.splits Sync15ClientResponse.splits if_splits elim!: abind_OkE)

text \<open>The loop of \<^verbatim>\<open>run_to_ready\<close>, with the world, the persisted state and the states seen so far.\<close>

function run_loop ::
    "'w SetupEnv \<Rightarrow> string list \<Rightarrow> SetupState \<Rightarrow> 'w \<times> PersistedGlobalState \<Rightarrow> string list \<Rightarrow>
     (ErrorKind, GlobalState) outcome \<times> ('w \<times> PersistedGlobalState) \<times> string list" where
  "run_loop env allowed s ws sq =
     (if se_was_interrupted env (fst ws) then (Err Interrupted, ws, sq)
      else (case ready_state s of
          Some state \<Rightarrow> (Ok state, ws, sq @ [label s])
        | None \<Rightarrow>
            if restarts s \<and> label s \<in> set sq then (Err SetupRace, ws, sq)
            else if \<not> restarts s \<and> label s \<notin> set allowed then (Err SetupRequired, ws, sq)
            else (case advance env s ws of
                    (Ok s', ws') \<Rightarrow> run_loop env allowed s' ws' (sq @ [label s])
                  | (Err e, ws') \<Rightarrow> (Err e, ws', sq @ [label s])
                  | (Panic p, ws') \<Rightarrow> (Panic p, ws', sq @ [label s]))))"
  by pat_completeness auto
termination
proof (relation "measure (\<lambda>(env, allowed, s, ws, sq). steps_left (''FreshStartRequired'' \<in> set sq) s)", goal_cases)
  case (2 env allowed s ws sq r ws' s')
  then show ?case using advance_decreases [of env s ws s' ws' sq] by auto
qed simp

declare run_loop.simps [simp del]

definition run_to_ready ::
    "'w SetupEnv \<Rightarrow> GlobalState option \<Rightarrow> ('w \<times> SetupStateMachine, ErrorKind, GlobalState) action" where
  "run_to_ready env state = (\<lambda>(w, m).
     let s = (case state of Some old_state \<Rightarrow> WithPreviousState old_state | None \<Rightarrow> Initial) in
     case run_loop env (allowed_states m) s (w, sm_pgs m) (seen m) of
       (r, (w', pgs), sq) \<Rightarrow> (r, (w', m\<lparr>sm_pgs := pgs, seen := sq\<rparr>)))"

section \<open>Invariants of a run\<close>

text \<open>The machine may take a step from \<open>s\<close>.\<close>

definition may_advance :: "string list \<Rightarrow> SetupState \<Rightarrow> string list \<Rightarrow> bool" where
  "may_advance allowed s sq \<longleftrightarrow> ready_state s = None \<and>
     (if restarts s then label s \<notin> set sq else label s \<in> set allowed)"

lemma run_loop_stop:
  "ready_state s = None \<Longrightarrow> \<not> may_advance allowed s sq \<Longrightarrow>
     \<exists>e. run_loop env allowed s ws sq = (Err e, ws, sq)"
  by (subst run_loop.simps) (auto simp: may_advance_def split: if_splits)

lemma run_loop_step:
  "\<not> se_was_interrupted env (fst ws) \<Longrightarrow> may_advance allowed s sq \<Longrightarrow>
     run_loop env allowed s ws sq =
       (case advance env s ws of
          (Ok s', ws') \<Rightarrow> run_loop env allowed s' ws' (sq @ [label s])
        | (Err e, ws') \<Rightarrow> (Err e, ws', sq @ [label s])
        | (Panic p, ws') \<Rightarrow> (Panic p, ws', sq @ [label s]))"
  by (subst run_loop.simps) (auto simp: may_advance_def split: if_splits)

lemma run_loop_ready:
  "\<not> se_was_interrupted env (fst ws) \<Longrightarrow> ready_state s = Some g \<Longrightarrow>
     run_loop env allowed s ws sq = (Ok g, ws, sq @ [label s])"
  by (subst run_loop.simps) simp

lemma run_loop_interrupted:
  "se_was_interrupted env (fst ws) \<Longrightarrow> run_loop env allowed s ws sq = (Err Interrupted, ws, sq)"
  by (subst run_loop.simps) simp

text \<open>
  The proof rule for the loop: \<open>Q\<close> holds of the states entered, every step keeps it, so the run
  ended in a state with \<open>Q\<close>, either there or inside a step from there.
\<close>

definition run_ends ::
    "(SetupState \<Rightarrow> 'w \<times> PersistedGlobalState \<Rightarrow> string list \<Rightarrow> bool) \<Rightarrow> 'w SetupEnv \<Rightarrow> string list \<Rightarrow>
     (ErrorKind, GlobalState) outcome \<Rightarrow> 'w \<times> PersistedGlobalState \<Rightarrow> string list \<Rightarrow> bool" where
  "run_ends Q env allowed r ws' sq' \<longleftrightarrow>
    (\<exists>s e. Q s ws' sq' \<and> r = Err e) \<or>
    (\<exists>g sq1. Q (Ready g) ws' sq1 \<and> r = Ok g \<and> sq' = sq1 @ [''Ready'']) \<or>
    (\<exists>s ws1 sq1 r1. Q s ws1 sq1 \<and> may_advance allowed s sq1 \<and> advance env s ws1 = (r1, ws') \<and> \<not> is_Ok r1 \<and>
       \<not> is_Ok r \<and> sq' = sq1 @ [label s])"

lemma run_loop_invariant:
  assumes "run_loop env allowed s ws sq = (r, ws', sq')" "Q s ws sq"
    and step: "\<And>s ws sq s' ws'. Q s ws sq \<Longrightarrow> may_advance allowed s sq \<Longrightarrow> advance env s ws = (Ok s', ws') \<Longrightarrow>
        Q s' ws' (sq @ [label s])"
  shows "run_ends Q env allowed r ws' sq'"
  using assms unfolding run_ends_def
proof (induction env allowed s ws sq rule: run_loop.induct)
  case (1 env allowed s ws sq)
  consider (i) "se_was_interrupted env (fst ws)"
    | (ready) g where "\<not> se_was_interrupted env (fst ws)" "ready_state s = Some g"
    | (stop) "ready_state s = None" "\<not> may_advance allowed s sq"
    | (go) "\<not> se_was_interrupted env (fst ws)" "may_advance allowed s sq"
    by (cases "ready_state s") (auto simp: may_advance_def)
  then show ?case
  proof cases
    case i
    then show ?thesis using "1.prems"(1,2) by (auto simp: run_loop_interrupted)
  next
    case (ready g)
    then have "s = Ready g" by (cases s) auto
    then show ?thesis using "1.prems"(1,2) ready by (auto simp: run_loop_ready)
  next
    case stop
    obtain e where "run_loop env allowed s ws sq = (Err e, ws, sq)" using run_loop_stop [OF stop] by blast
    then show ?thesis using "1.prems"(1,2) by auto
  next
    case go
    obtain r1 ws1 where a: "advance env s ws = (r1, ws1)" by (rule prod.exhaust)
    show ?thesis
    proof (cases r1)
      case (Ok s')
      have "run_loop env allowed s' ws1 (sq @ [label s]) = (r, ws', sq')"
        using "1.prems"(1) a Ok by (simp add: run_loop_step [OF go])
      moreover have "Q s' ws1 (sq @ [label s])" by (rule "1.prems"(3) [OF "1.prems"(2) go(2) a [unfolded Ok]])
      moreover have "ready_state s = None" "\<not> (restarts s \<and> label s \<in> set sq)"
        "\<not> (\<not> restarts s \<and> label s \<notin> set allowed)"
        using go(2) by (auto simp: may_advance_def split: if_splits)
      ultimately show ?thesis using "1.IH" [OF go(1) _ _ _ a [symmetric] Ok] "1.prems"(3) by blast
    next
      case (Err e)
      then have "Q s ws sq \<and> may_advance allowed s sq \<and> advance env s ws = (r1, ws') \<and> \<not> is_Ok r1 \<and>
          \<not> is_Ok r \<and> sq' = sq @ [label s]"
        using "1.prems"(1,2) a go run_loop_step [OF go] by auto
      then show ?thesis by blast
    next
      case (Panic p)
      then have "Q s ws sq \<and> may_advance allowed s sq \<and> advance env s ws = (r1, ws') \<and> \<not> is_Ok r1 \<and>
          \<not> is_Ok r \<and> sq' = sq @ [label s]"
        using "1.prems"(1,2) a go run_loop_step [OF go] by auto
      then show ?thesis by blast
    qed
  qed
qed

section \<open>What a step does to the outside world\<close>

definition fetches_keep :: "('w \<Rightarrow> bool) \<Rightarrow> 'w SetupEnv \<Rightarrow> bool" where
  "fetches_keep I env \<longleftrightarrow> keeps I (sc_fetch_info_configuration (se_client env)) \<and>
     keeps I (sc_fetch_info_collections (se_client env)) \<and> keeps I (sc_fetch_meta_global (se_client env)) \<and>
     keeps I (sc_fetch_crypto_keys (se_client env))"

text \<open>Everything but the wipe: the fetches, the uploads and the random generators.\<close>

definition others_keep :: "('w \<Rightarrow> bool) \<Rightarrow> 'w SetupEnv \<Rightarrow> bool" where
  "others_keep I env \<longleftrightarrow> fetches_keep I env \<and>
     (\<forall>ts g. keeps I (sc_put_meta_global (se_client env) ts g)) \<and>
     (\<forall>ts k. keeps I (sc_put_crypto_keys (se_client env) ts k)) \<and>
     (\<forall>n. keeps I (se_rand_bytes env n)) \<and> (\<forall>n. keeps I (rand_fill (se_crypto env) n))"

lemma on_world_keeps: "keeps I m \<Longrightarrow> I (fst ws) \<Longrightarrow> I (fst (snd (on_world m ws)))"
  by (cases ws) (auto simp: keeps_def on_world_def split: prod.splits)

lemma keeps_resp:
  "(\<And>a ts r. keeps I (f a ts r)) \<Longrightarrow> (\<And>r. keeps I (g r)) \<Longrightarrow> (\<And>r. keeps I (h r)) \<Longrightarrow>
   (\<And>r st. keeps I (i r st)) \<Longrightarrow> (\<And>r st. keeps I (j r st)) \<Longrightarrow>
   keeps I (case resp of Success a ts r \<Rightarrow> f a ts r | NotFound r \<Rightarrow> g r | Unauthorized r \<Rightarrow> h r
     | ServerError r st \<Rightarrow> i r st | RequestFailed r st \<Rightarrow> j r st)"
  by (cases resp) auto

lemma keeps_if: "keeps I m \<Longrightarrow> keeps I n \<Longrightarrow> keeps I (if b then m else n)"
  by simp

lemmas keeps_rules = keeps_abind keeps_resp keeps_if keeps_basic

lemma advance_keeps:
  assumes f: "fetches_keep I env" and "\<not> (\<exists>c. s = FreshStartRequired c)" and i: "I (fst ws)"
    and "advance env s ws = (r, ws')"
  shows "I (fst ws')"
proof -
  note f = f [unfolded fetches_keep_def]
  have k: "keeps I (fetch_keys env c cs g ts)" for c cs g ts
    unfolding fetch_keys_def using f by (intro keeps_rules) auto
  have "I (fst (snd (advance env s ws)))"
  proof (cases s)
    case (InitialWithMetaGlobal c cs g ts)
    then show ?thesis using i on_world_keeps [where I = I, OF k, of "(fst ws, V2 (Some (mg_declined g)))"] by (simp add: split_beta)
  next
    case (Ready g)
    then show ?thesis using i by (simp add: ret_def)
  next
    case (FreshStartRequired c)
    then show ?thesis using assms(2) by blast
  qed (simp_all only: advance.simps, (rule on_world_keeps [where I = I and ws = ws, OF _ i], intro keeps_rules; simp add: f)+)
  then show ?thesis using assms(4) by simp
qed

lemma try_as_keeps [intro]: "keeps I m \<Longrightarrow> keeps I (try_as f m)"
  by (simp add: keeps_def try_as_def split_beta)

lemma bso_encrypt_keeps:
  assumes "\<forall>n. keeps I (rand_fill c n)" shows "keeps I (bso_encrypt c to_str key b)"
  unfolding bso_encrypt_def from_cleartext_payload_def encrypt_bytes_rand_iv_def
  using assms by (auto simp: Let_def split_beta intro!: keeps_rules try_as_keeps)

lemma insert_engines_keeps:
  "\<forall>n. keeps I (se_rand_bytes env n) \<Longrightarrow> keeps I (insert_engines env es m)"
proof (induction es arbitrary: m)
  case (Cons e es)
  then show ?case by (cases e) (auto simp: random_guid_def intro!: keeps_abind try_as_keeps)
qed simp

lemma fresh_start_counts:
  assumes o: "\<forall>n. others_keep (\<lambda>w. cnt w = n) env" and wipe: "\<forall>w. cnt (snd (sc_wipe_all_remote (se_client env) w)) \<le> Suc (cnt w)"
  shows "cnt (snd (fresh_start env config pgs w)) \<le> Suc (cnt w)"
proof -
  obtain r w1 where w1: "sc_wipe_all_remote (se_client env) w = (r, w1)" by (rule prod.exhaust)
  have le: "cnt w1 \<le> Suc (cnt w)" using wipe w1 by (metis snd_conv)
  define rest where "rest = abind (new_global env pgs) (\<lambda>g.
     abind (sc_put_meta_global (se_client env) 0 g) (\<lambda>_.
     abind (abind (keys_new_random (se_crypto env)) (\<lambda>k.
            to_encrypted_bso (se_crypto env) (payload_to_str (se_payload env)) (se_keys_from_record env) k
              (se_root_key env))) (\<lambda>new_keys.
     abind (sc_put_crypto_keys (se_client env) 0 new_keys) (\<lambda>_. ret (InitialWithConfig config)))))"
  have "keeps (\<lambda>w. cnt w = n) rest" for n
    unfolding rest_def new_global_def keys_new_random_def key_bundle_new_random_def to_encrypted_bso_def random_guid_def
    using o by (auto simp: others_keep_def Let_def intro!: keeps_abind try_as_keeps insert_engines_keeps bso_encrypt_keeps)
  then have "cnt (snd (rest w1)) = cnt w1" by (simp add: keeps_def)
  then show ?thesis using le w1 by (cases r) (simp_all add: fresh_start_def abind_def rest_def)
qed

section \<open>Properties\<close>

lemma may_advance_fresh: "may_advance allowed (FreshStartRequired c) sq \<Longrightarrow> ''FreshStartRequired'' \<notin> set sq"
  by (simp add: may_advance_def)

lemma label_fresh: "label s = ''FreshStartRequired'' \<longleftrightarrow> (\<exists>c. s = FreshStartRequired c)"
  by (cases s) auto

text \<open>The part of the loop invariant that counts states and wipes.\<close>

definition bounded_run :: "('w \<Rightarrow> nat) \<Rightarrow> nat \<Rightarrow> SetupState \<Rightarrow> 'w \<times> PersistedGlobalState \<Rightarrow> string list \<Rightarrow> bool" where
  "bounded_run cnt n s ws sq \<longleftrightarrow> length sq + steps_left (''FreshStartRequired'' \<in> set sq) s \<le> 9 \<and>
     cnt (fst ws) \<le> n + (if ''FreshStartRequired'' \<in> set sq then 1 else 0)"

lemma advance_counts:
  assumes o: "\<forall>n. others_keep (\<lambda>w. cnt w = n) env"
    and wipe: "\<forall>w. cnt (snd (sc_wipe_all_remote (se_client env) w)) \<le> Suc (cnt w)"
    and a: "advance env s ws = (r, ws')"
  shows "cnt (fst ws') \<le> cnt (fst ws) + (if \<exists>c. s = FreshStartRequired c then 1 else 0)"
proof (cases "\<exists>c. s = FreshStartRequired c")
  case True
  then obtain c where s: "s = FreshStartRequired c" ..
  have "cnt (snd (fresh_start env c (snd ws) (fst ws))) \<le> Suc (cnt (fst ws))"
    by (rule fresh_start_counts [OF o wipe])
  moreover have "fst ws' = snd (fresh_start env c (snd ws) (fst ws))"
    using a by (auto simp: s on_world_def split_beta)
  ultimately show ?thesis using True by simp
next
  case False
  have "fetches_keep (\<lambda>w. cnt w = cnt (fst ws)) env" using o by (simp add: others_keep_def)
  from advance_keeps [OF this False _ a] show ?thesis by simp
qed

lemma bounded_run_step:
  assumes o: "\<forall>n. others_keep (\<lambda>w. cnt w = n) env"
    and wipe: "\<forall>w. cnt (snd (sc_wipe_all_remote (se_client env) w)) \<le> Suc (cnt w)"
    and q: "bounded_run cnt n s ws sq" and m: "may_advance allowed s sq" and a: "advance env s ws = (r, ws')"
  shows "length sq < 9" "cnt (fst ws') \<le> Suc n" "r = Ok s' \<Longrightarrow> bounded_run cnt n s' ws' (sq @ [label s])"
proof -
  note c = advance_counts [OF o wipe a]
  have fr: "(\<exists>c. s = FreshStartRequired c) \<Longrightarrow> ''FreshStartRequired'' \<notin> set sq"
    using m may_advance_fresh by blast
  have pos: "steps_left (''FreshStartRequired'' \<in> set sq) s > 0"
    using m by (cases s) (auto simp: may_advance_def)
  then show "length sq < 9" using q by (simp add: bounded_run_def)
  show "cnt (fst ws') \<le> Suc n" using q c fr by (auto simp: bounded_run_def split: if_splits)
  assume "r = Ok s'"
  then have "steps_left (''FreshStartRequired'' \<in> set (sq @ [label s])) s' < steps_left (''FreshStartRequired'' \<in> set sq) s"
    using m a by (intro advance_decreases) (auto simp: may_advance_def split: if_splits)
  then show "bounded_run cnt n s' ws' (sq @ [label s])"
    using q c fr label_fresh [of s] by (auto simp: bounded_run_def split: if_splits)
qed

text \<open>
  C15. Setup ends and wipes at most once. Whatever the server answers, \<^verbatim>\<open>run_to_ready\<close> of a new
  machine returns after entering at most nine states, and it wipes the server at most once: a
  server that keeps losing its \<^verbatim>\<open>meta/global\<close> makes it give up, not loop. The wipes are counted
  by any measure of the outside world that the other operations leave alone.
\<close>

theorem setup_ends_with_at_most_one_wipe:
  assumes "\<forall>n. others_keep (\<lambda>w. cnt w = n) env"
    and "\<forall>w. cnt (snd (sc_wipe_all_remote (se_client env) w)) \<le> Suc (cnt w)"
    and "seen m = []" and "run_to_ready env state (w, m) = (r, (w', m'))"
  shows "length (seen m') \<le> 9 \<and> cnt w' \<le> Suc (cnt w)"
proof -
  let ?s = "case state of Some old_state \<Rightarrow> WithPreviousState old_state | None \<Rightarrow> Initial"
  obtain pgs sq where l: "run_loop env (allowed_states m) ?s (w, sm_pgs m) [] = (r, (w', pgs), sq)" "seen m' = sq"
    using assms(3,4) by (auto simp: run_to_ready_def Let_def split: prod.splits)
  have start: "bounded_run cnt (cnt w) ?s (w, sm_pgs m) []"
    by (auto simp: bounded_run_def split: option.splits)
  have step: "bounded_run cnt (cnt w) s' ws' (sq @ [label s])"
    if "bounded_run cnt (cnt w) s ws sq" "may_advance (allowed_states m) s sq" "advance env s ws = (Ok s', ws')"
    for s ws sq s' ws'
    by (rule bounded_run_step(3) [OF assms(1,2) that refl])
  have "run_ends (bounded_run cnt (cnt w)) env (allowed_states m) r (w', pgs) sq"
    by (rule run_loop_invariant [OF l(1)], rule start, rule step)
  then show ?thesis unfolding l(2) run_ends_def
  proof (elim disjE exE conjE)
    fix s ws1 sq1 r1
    assume x: "bounded_run cnt (cnt w) s ws1 sq1" "may_advance (allowed_states m) s sq1"
      "advance env s ws1 = (r1, (w', pgs))" "sq = sq1 @ [label s]"
    show "length sq \<le> 9 \<and> cnt w' \<le> Suc (cnt w)" using bounded_run_step(1,2) [OF assms(1,2) x(1-3)] x(4) by simp
  qed (auto simp: bounded_run_def split: if_splits)
qed

text \<open>
  C4. A fast sync writes nothing: whatever the fetching operations leave alone in the outside world
  is the same after \<^verbatim>\<open>run_to_ready\<close> of a machine made by \<^verbatim>\<open>for_fast_sync\<close>. It succeeds
  only with a previous state that the server's timestamps show to be current, and then returns that
  state with the new timestamps.
\<close>

theorem fast_sync_writes_nothing:
  assumes "fetches_keep I env" and "I w" and "run_to_ready env state (w, for_fast_sync pgs) = (r, (w', m'))"
  shows "I w' \<and> (\<forall>g. r = Ok g \<longrightarrow> (\<exists>old collections. state = Some old \<and> g = old\<lparr>gs_collections := collections\<rparr> \<and>
     is_fresh (gs_global_timestamp old) collections ''meta'' \<and>
     is_fresh (keys_timestamp (gs_keys old)) collections ''crypto''))"
proof -
  let ?s = "case state of Some old_state \<Rightarrow> WithPreviousState old_state | None \<Rightarrow> Initial"
  let ?allowed = "[''Ready'', ''WithPreviousState'']"
  let ?Q = "\<lambda>s ws (sq :: string list). I (fst ws) \<and> (s = ?s \<or> (\<exists>c. s = InitialWithConfig c) \<or>
     (\<exists>old cs. state = Some old \<and> s = Ready (old\<lparr>gs_collections := cs\<rparr>) \<and> is_fresh (gs_global_timestamp old) cs ''meta'' \<and>
       is_fresh (keys_timestamp (gs_keys old)) cs ''crypto''))"
  obtain pgs' sq where l: "run_loop env ?allowed ?s (w, pgs) [] = (r, (w', pgs'), sq)"
    using assms(3) by (auto simp: run_to_ready_def for_fast_sync_def with_allowed_states_def Let_def split: prod.splits)
  have keep: "I (fst ws')" if "?Q s ws sq" "may_advance ?allowed s sq" "advance env s ws = (r, ws')" for s ws sq ws' r
    using that by (intro advance_keeps [OF assms(1) _ _ that(3)]) (auto split: option.splits)
  have step: "?Q s' ws' (sq @ [label s])"
    if q: "?Q s ws sq" and m: "may_advance ?allowed s sq" and a: "advance env s ws = (Ok s', ws')" for s ws sq s' ws'
  proof -
    have "I (fst ws')" by (rule keep [OF q m a])
    moreover have s: "s = ?s" using q m by (auto simp: may_advance_def)
    ultimately show ?thesis using a
      by (cases state) (auto simp: abind_def action_defs dest!: on_world_Ok
          split: prod.splits outcome.splits Sync15ClientResponse.splits if_splits)
  qed
  have start: "?Q ?s (w, pgs) []" using assms(2) by simp
  have "run_ends ?Q env ?allowed r (w', pgs') sq"
    by (rule run_loop_invariant [OF l], rule start, rule step)
  then show ?thesis unfolding run_ends_def
  proof (elim disjE exE conjE)
    fix s ws1 sq1 r1
    assume x: "I (fst ws1)" "s = ?s" "may_advance ?allowed s sq1" "advance env s ws1 = (r1, (w', pgs'))" "\<not> is_Ok r"
    show ?thesis using keep [OF _ x(3,4)] x(1,2,5) by auto
  qed (auto split: option.splits simp: may_advance_def)
qed

text \<open>A server that has nothing, and a random generator that fails; the world is the list of wipes.\<close>

definition env3 :: "string list SetupEnv" where
  "env3 =
     \<lparr>se_client = \<lparr>sc_fetch_info_configuration = ret (NotFound ''r''), sc_fetch_info_collections = ret (NotFound ''r''),
        sc_fetch_meta_global = ret (NotFound ''r''), sc_fetch_crypto_keys = ret (NotFound ''r''),
        sc_put_meta_global = \<lambda>_ _. ret (), sc_put_crypto_keys = \<lambda>_ _. ret (),
        sc_wipe_all_remote = \<lambda>w. (Ok (), w @ [''DELETE''])\<rparr>,
      se_root_key = \<lparr>enc_key = [], mac_key = []\<rparr>,
      se_crypto = \<lparr>b64_encode = id, b64_decode = Some, b64url_decode = Some, b16_encode = id, b16_decode_slice = Ok,
        hmac_sign = \<lambda>_ _. Ok [], hmac_verify = \<lambda>_ _ _. Ok (), aes_encrypt = \<lambda>_ _ d. Ok d, aes_decrypt = \<lambda>_ _ d. Ok d,
        utf8_valid = \<lambda>_. True, rand_fill = \<lambda>_. throw ''no entropy''\<rparr>,
      se_rand_bytes = \<lambda>_. throw ''no entropy'', se_b64url_encode = id,
      se_payload = \<lparr>payload_to_str = \<lambda>_. Ok [], payload_from_str = \<lambda>_. Err []\<rparr>,
      se_keys_from_value = \<lambda>_. Err [], se_keys_from_record = \<lambda>_. Err [], se_was_interrupted = \<lambda>_. False\<rparr>"

lemmas run_eval = run_to_ready_def with_allowed_states_def Let_def run_loop.simps env3_def on_world_def abind_def
  action_defs fresh_start_def new_global_def random_guid_def try_as_def

lemma env3_readonly:
  "run_to_ready env3 None ([], for_readonly_sync pgs) =
     (Err (OpensslError ''no entropy''), ([''DELETE''], (for_readonly_sync pgs)\<lparr>seen := [''Initial'', ''InitialWithConfig'', ''FreshStartRequired'']\<rparr>))"
  by (simp add: for_readonly_sync_def run_eval)


theorem setup_ends_with_at_most_one_wipe_witness:
  "length (seen ((for_readonly_sync pgs_default)\<lparr>seen := [''Initial'', ''InitialWithConfig'', ''FreshStartRequired'']\<rparr>)) \<le> 9 \<and>
   length [''DELETE''] \<le> Suc (length ([] :: string list))"
proof (rule setup_ends_with_at_most_one_wipe [of length, OF _ _ _ env3_readonly])
  show "\<forall>n. others_keep (\<lambda>w. length w = n) env3"
    by (simp add: others_keep_def fetches_keep_def env3_def)
  show "\<forall>w. length (snd (sc_wipe_all_remote (se_client env3) w)) \<le> Suc (length w)" by (simp add: env3_def)
qed (simp add: for_readonly_sync_def with_allowed_states_def)

lemma env3_fast:
  "run_to_ready env3 None ([], for_fast_sync pgs) =
     (Err SetupRequired, ([], (for_fast_sync pgs)\<lparr>seen := [''Initial'']\<rparr>))"
  by (simp add: for_fast_sync_def run_eval)

theorem fast_sync_writes_nothing_witness:
  "fetches_keep (\<lambda>w. w = []) env3 \<and> fst (snd (run_to_ready env3 None ([], for_fast_sync pgs_default))) = []"
proof -
  have k: "fetches_keep (\<lambda>w. w = []) env3" by (simp add: fetches_keep_def env3_def)
  from fast_sync_writes_nothing [OF k refl env3_fast] show ?thesis using k by (simp add: env3_fast)
qed

text \<open>The part of the loop invariant about the versions and the declined engines.\<close>

fun supported :: "PersistedGlobalState \<Rightarrow> GlobalState option \<Rightarrow> SetupState \<Rightarrow> PersistedGlobalState \<Rightarrow> bool" where
  "supported pgs0 state (InitialWithMetaGlobal _ _ g _) pgs = (mg_storage_version g = STORAGE_VERSION)"
| "supported pgs0 state (WithPreviousState old) pgs = (state = Some old \<and> pgs = pgs0)"
| "supported pgs0 state (Ready g) pgs =
     ((mg_storage_version (gs_global g) = STORAGE_VERSION \<and> pgs = V2 (Some (mg_declined (gs_global g)))) \<or>
      (\<exists>old cs. state = Some old \<and> g = old\<lparr>gs_collections := cs\<rparr> \<and> pgs = pgs0 \<and>
         is_fresh (gs_global_timestamp old) cs ''meta'' \<and> is_fresh (keys_timestamp (gs_keys old)) cs ''crypto''))"
| "supported pgs0 state _ pgs = True"

lemma supported_step:
  "supported pgs0 state s (snd ws) \<Longrightarrow> advance env s ws = (Ok s', ws') \<Longrightarrow> supported pgs0 state s' (snd ws')"
  by (cases s)
    (auto simp: abind_def action_defs fetch_keys_def fresh_start_def dest!: on_world_Ok
      split: prod.splits outcome.splits Sync15ClientResponse.splits if_splits)

text \<open>
  C25. What a successful setup returns: either the previous state, which the server's timestamps of
  \<^verbatim>\<open>meta\<close> and \<^verbatim>\<open>crypto\<close> show to be current, with the persisted state untouched; or a state
  whose \<^verbatim>\<open>meta/global\<close> has exactly the storage version this client supports, and the declined
  engines of that record are what is persisted for the next sync.
\<close>

theorem setup_result:
  assumes "run_to_ready env state (w, m) = (Ok g, (w', m'))"
  shows "(mg_storage_version (gs_global g) = STORAGE_VERSION \<and> sm_pgs m' = V2 (Some (mg_declined (gs_global g)))) \<or>
    (\<exists>old collections. state = Some old \<and> g = old\<lparr>gs_collections := collections\<rparr> \<and> sm_pgs m' = sm_pgs m \<and>
       is_fresh (gs_global_timestamp old) collections ''meta'' \<and>
       is_fresh (keys_timestamp (gs_keys old)) collections ''crypto'')"
proof -
  let ?s = "case state of Some old_state \<Rightarrow> WithPreviousState old_state | None \<Rightarrow> Initial"
  let ?Q = "\<lambda>s ws (sq :: string list). supported (sm_pgs m) state s (snd ws)"
  obtain sq where l: "run_loop env (allowed_states m) ?s (w, sm_pgs m) (seen m) = (Ok g, (w', sm_pgs m'), sq)"
    using assms by (auto simp: run_to_ready_def Let_def split: prod.splits)
  have start: "?Q ?s (w, sm_pgs m) (seen m)" by (cases state) auto
  have "run_ends ?Q env (allowed_states m) (Ok g) (w', sm_pgs m') sq"
    by (rule run_loop_invariant [OF l], rule start, rule supported_step)
  then show ?thesis unfolding run_ends_def by auto
qed

definition gs1 :: GlobalState where
  "gs1 = \<lparr>gs_config = info_configuration_default, gs_collections = Map.empty,
     gs_global = \<lparr>mg_sync_id = ''s'', mg_storage_version = 5, mg_engines = Map.empty, mg_declined = []\<rparr>,
     gs_global_timestamp = 2, gs_keys = \<lparr>keys_timestamp = 2, keys_default = \<lparr>enc_key = [], mac_key = []\<rparr>, keys_collections = []\<rparr>\<rparr>"

definition env4 :: "string list SetupEnv" where
  "env4 = env3\<lparr>se_client := (se_client env3)\<lparr>sc_fetch_info_collections :=
     ret (Success [''meta'' \<mapsto> 1, ''crypto'' \<mapsto> 2] 2 ''r'')\<rparr>\<rparr>"

lemma env4_full:
  "run_to_ready env4 (Some gs1) ([], for_full_sync pgs) =
     (Ok (gs1\<lparr>gs_collections := [''meta'' \<mapsto> 1, ''crypto'' \<mapsto> 2]\<rparr>),
      ([], (for_full_sync pgs)\<lparr>seen := [''WithPreviousState'', ''Ready'']\<rparr>))"
  by (simp add: for_full_sync_def run_eval env4_def gs1_def is_fresh_def)

theorem setup_result_witness:
  "fst (run_to_ready env4 (Some gs1) ([], for_full_sync pgs_default)) =
     Ok (gs1\<lparr>gs_collections := [''meta'' \<mapsto> 1, ''crypto'' \<mapsto> 2]\<rparr>) \<and>
   (\<exists>collections. gs1\<lparr>gs_collections := [''meta'' \<mapsto> 1, ''crypto'' \<mapsto> 2]\<rparr> = gs1\<lparr>gs_collections := collections\<rparr> \<and>
       is_fresh (gs_global_timestamp gs1) collections ''meta'')"
proof -
  have "sm_pgs ((for_full_sync pgs_default)\<lparr>seen := [''WithPreviousState'', ''Ready'']\<rparr>) \<noteq> V2 (Some d)" for d
    by (simp add: for_full_sync_def with_allowed_states_def pgs_default_def)
  then show ?thesis using setup_result [OF env4_full [of pgs_default]] unfolding env4_full by auto
qed

end
