(* ===== verification/CollStateMachine.thy ===== *)
theory CollStateMachine
  imports SetupState
begin

text \<open>
  The state machine of one collection (\<^verbatim>\<open>components/sync15/src/coll_state.rs\<close>) and the trait
  \<^verbatim>\<open>Store\<close> of \<^verbatim>\<open>sync.rs\<close> it works on. A store is a record of actions on the outside
  world, which includes the store's own state; its errors become \<open>StoreError\<close>.
\<close>

record CollSyncIds =
  ids_global :: string
  ids_coll :: string

datatype StoreSyncAssociation = Disconnected | Connected CollSyncIds

record 'w Store =
  collection_name :: string
  apply_incoming :: "IncomingChangeset \<Rightarrow> ('w, string, OutgoingChangeset) action"
  sync_finished :: "ServerTimestamp \<Rightarrow> string list \<Rightarrow> ('w, string, unit) action"
  get_collection_request :: "('w, string, CollectionRequest) action"
  get_sync_assoc :: "('w, string, StoreSyncAssociation) action"
  reset :: "StoreSyncAssociation \<Rightarrow> ('w, string, unit) action"
  wipe :: "('w, string, unit) action"

datatype LocalCollState =
    Unknown StoreSyncAssociation
  | Declined
  | NoSuchCollection
  | SyncIdChanged CollSyncIds
  | CollReady KeyBundle

fun coll_advance :: "GlobalState \<Rightarrow> 'w Store \<Rightarrow> LocalCollState \<Rightarrow> ('w, ErrorKind, LocalCollState) action" where
  "coll_advance gs store (Unknown assoc) =
     (if collection_name store \<in> set (mg_declined (gs_global gs)) then ret Declined
      else (case mg_engines (gs_global gs) (collection_name store) of
          Some engine_meta \<Rightarrow>
            (case assoc of
               Disconnected \<Rightarrow>
                 ret (SyncIdChanged \<lparr>ids_global = mg_sync_id (gs_global gs), ids_coll = eng_sync_id engine_meta\<rparr>)
             | Connected ids \<Rightarrow>
                 if ids_global ids = mg_sync_id (gs_global gs) \<and> ids_coll ids = eng_sync_id engine_meta
                 then ret (CollReady (keys_default (gs_keys gs)))
                 else ret (SyncIdChanged \<lparr>ids_global = mg_sync_id (gs_global gs), ids_coll = eng_sync_id engine_meta\<rparr>))
        | None \<Rightarrow> ret NoSuchCollection))"
| "coll_advance gs store Declined = panic ''can't advance from declined''"
| "coll_advance gs store NoSuchCollection = panic ''the collection is unknown''"
| "coll_advance gs store (SyncIdChanged ids) =
     (let assoc = Connected ids in
      abind (try_as StoreError (reset store assoc)) (\<lambda>_. ret (Unknown assoc)))"
| "coll_advance gs store (CollReady _) = panic ''can't advance from ready''"

text \<open>
  The loop counts the steps it takes and gives up at the eleventh; the argument \<open>goes\<close> is
  the number of steps left.
\<close>

fun coll_loop ::
    "GlobalState \<Rightarrow> 'w Store \<Rightarrow> nat \<Rightarrow> LocalCollState \<Rightarrow> ('w, ErrorKind, CollState option) action" where
  "coll_loop gs store goes (CollReady key) =
     ret (Some \<lparr>cs_config = gs_config gs,
                cs_last_modified = (case gs_collections gs (collection_name store) of Some ts \<Rightarrow> ts | None \<Rightarrow> 0),
                cs_key = key\<rparr>)"
| "coll_loop gs store goes Declined = ret None"
| "coll_loop gs store goes NoSuchCollection = ret None"
| "coll_loop gs store 0 s = ret None"
| "coll_loop gs store (Suc goes) s = abind (coll_advance gs store s) (coll_loop gs store goes)"

definition get_state :: "GlobalState \<Rightarrow> 'w Store \<Rightarrow> ('w, ErrorKind, CollState option) action" where
  "get_state gs store =
     abind (try_as StoreError (get_sync_assoc store)) (\<lambda>assoc. coll_loop gs store 10 (Unknown assoc))"

section \<open>What the machine computes\<close>

text \<open>
  The same without a loop: nothing for a declined or unknown collection; otherwise make sure that
  the store is associated with the server's current sync identifiers, resetting it if it is not.
\<close>

definition coll_state_spec :: "GlobalState \<Rightarrow> 'w Store \<Rightarrow> ('w, ErrorKind, CollState option) action" where
  "coll_state_spec gs store =
     abind (try_as StoreError (get_sync_assoc store)) (\<lambda>assoc.
     if collection_name store \<in> set (mg_declined (gs_global gs)) then ret None
     else (case mg_engines (gs_global gs) (collection_name store) of
        None \<Rightarrow> ret None
      | Some e \<Rightarrow>
          (let ids = Connected \<lparr>ids_global = mg_sync_id (gs_global gs), ids_coll = eng_sync_id e\<rparr> in
           abind (if assoc = ids then ret () else try_as StoreError (reset store ids)) (\<lambda>_.
           ret (Some \<lparr>cs_config = gs_config gs,
                cs_last_modified = (case gs_collections gs (collection_name store) of Some ts \<Rightarrow> ts | None \<Rightarrow> 0),
                cs_key = keys_default (gs_keys gs)\<rparr>)))))"

lemma abind_ret_fun: "abind (ret a) f = f a"
  by (rule ext) simp

lemma abind_panic_fun: "abind (panic p) f = panic p"
  by (rule ext) (simp add: panic_def abind_def)

lemma abind_assoc: "abind (abind m f) g = abind m (\<lambda>a. abind (f a) g)"
  by (rule ext) (simp add: abind_def split: prod.splits outcome.splits)

lemma coll_loop_connected:
  assumes "collection_name store \<notin> set (mg_declined (gs_global gs))"
    "mg_engines (gs_global gs) (collection_name store) = Some e"
  shows "coll_loop gs store (Suc n)
       (Unknown (Connected \<lparr>ids_global = mg_sync_id (gs_global gs), ids_coll = eng_sync_id e\<rparr>)) =
     ret (Some \<lparr>cs_config = gs_config gs,
       cs_last_modified = (case gs_collections gs (collection_name store) of Some ts \<Rightarrow> ts | None \<Rightarrow> 0),
       cs_key = keys_default (gs_keys gs)\<rparr>)"
  using assms by (simp add: abind_ret_fun)

lemma coll_loop_changed:
  assumes "collection_name store \<notin> set (mg_declined (gs_global gs))"
    "mg_engines (gs_global gs) (collection_name store) = Some e"
    "assoc \<noteq> Connected \<lparr>ids_global = mg_sync_id (gs_global gs), ids_coll = eng_sync_id e\<rparr>"
  shows "coll_loop gs store (Suc (Suc (Suc n))) (Unknown assoc) =
     abind (try_as StoreError (reset store (Connected \<lparr>ids_global = mg_sync_id (gs_global gs), ids_coll = eng_sync_id e\<rparr>)))
       (\<lambda>_. coll_loop gs store (Suc n)
          (Unknown (Connected \<lparr>ids_global = mg_sync_id (gs_global gs), ids_coll = eng_sync_id e\<rparr>)))"
proof -
  have "coll_advance gs store (Unknown assoc) =
      ret (SyncIdChanged \<lparr>ids_global = mg_sync_id (gs_global gs), ids_coll = eng_sync_id e\<rparr>)"
    using assms by (cases assoc) auto
  then show ?thesis by (simp add: abind_ret_fun abind_assoc Let_def del: coll_advance.simps(1))
qed

lemma coll_loop_spec:
  "coll_loop gs store (Suc (Suc (Suc n))) (Unknown assoc) =
     (if collection_name store \<in> set (mg_declined (gs_global gs)) then ret None
     else (case mg_engines (gs_global gs) (collection_name store) of
        None \<Rightarrow> ret None
      | Some e \<Rightarrow>
          (let ids = Connected \<lparr>ids_global = mg_sync_id (gs_global gs), ids_coll = eng_sync_id e\<rparr> in
           abind (if assoc = ids then ret () else try_as StoreError (reset store ids)) (\<lambda>_.
           ret (Some \<lparr>cs_config = gs_config gs,
                cs_last_modified = (case gs_collections gs (collection_name store) of Some ts \<Rightarrow> ts | None \<Rightarrow> 0),
                cs_key = keys_default (gs_keys gs)\<rparr>)))))"
proof (cases "collection_name store \<in> set (mg_declined (gs_global gs))")
  case False
  show ?thesis
  proof (cases "mg_engines (gs_global gs) (collection_name store)")
    case None
    then show ?thesis using False by (simp add: abind_ret_fun)
  next
    case (Some e)
    note c = coll_loop_connected [OF False Some] coll_loop_changed [OF False Some]
    show ?thesis
      by (cases "assoc = Connected \<lparr>ids_global = mg_sync_id (gs_global gs), ids_coll = eng_sync_id e\<rparr>")
        (simp_all only: False Some if_False if_True option.case Let_def c abind_ret_fun simp_thms)
  qed
qed (simp add: abind_ret_fun)

lemma coll_state_machine_eq: "get_state gs store = coll_state_spec gs store"
  using coll_loop_spec [of gs store 7] by (simp add: get_state_def coll_state_spec_def eval_nat_numeral)

text \<open>
  C14. The state machine of a collection is the straight line it is meant to be: for every global
  state and store, \<^verbatim>\<open>get_state\<close> does what \<open>coll_state_spec\<close> says. In particular it never
  reaches its limit of ten steps nor one of its \<^verbatim>\<open>unreachable!\<close> branches, it resets the store
  at most once, and only if its identifiers differ from the server's.
\<close>

theorem coll_state_machine_correct: "get_state gs store = coll_state_spec gs store"
  by (rule coll_state_machine_eq)

end
