(* ===== verification/MigrateState.thy ===== *)
theory MigrateState
  imports CollStateMachine
begin

text \<open>
  Reading the old form of the persisted sync state
  (\<^verbatim>\<open>components/sync15/src/migrate_state.rs\<close>). The JSON parser and the printer are a parameter.
\<close>

record MigrateJson =
  mj_parse :: "string \<Rightarrow> (string, JsonValue) outcome"
  mj_meta_global :: "string \<Rightarrow> (string, MetaGlobalRecord) outcome"
  mj_pgs_to_string :: "PersistedGlobalState \<Rightarrow> (string, string) outcome"

fun as_str :: "JsonValue \<Rightarrow> string option" where
  "as_str (JString s) = Some s"
| "as_str _ = None"

fun as_array :: "JsonValue \<Rightarrow> JsonValue list option" where
  "as_array (JArray xs) = Some xs"
| "as_array _ = None"

fun as_object :: "JsonValue \<Rightarrow> (string \<times> JsonValue) list option" where
  "as_object (JObject kvs) = Some kvs"
| "as_object _ = None"

fun json_get :: "string \<Rightarrow> JsonValue \<Rightarrow> JsonValue option" where
  "json_get k (JObject kvs) = map_of kvs k"
| "json_get k _ = None"

fun ok :: "('e, 'a) outcome \<Rightarrow> 'a option" where
  "ok (Ok a) = Some a"
| "ok _ = None"

text \<open>Whether a recorded change of the engines resets the collection.\<close>

definition resets :: "string \<Rightarrow> JsonValue \<Rightarrow> bool" where
  "resets collection change \<longleftrightarrow>
     as_str change = Some ''ResetAll'' \<or>
     (case as_object change of
        None \<Rightarrow> False
      | Some kvs \<Rightarrow>
          Option.bind (map_of kvs ''Reset'') as_str = Some collection \<or>
          (case Option.bind (map_of kvs ''ResetAllExcept'') as_array of
             Some except_array \<Rightarrow> list_all (\<lambda>s. s \<noteq> collection) (List.map_filter as_str except_array)
           | None \<Rightarrow> False))"

fun any_resets :: "string \<Rightarrow> JsonValue list \<Rightarrow> bool" where
  "any_resets collection [] = False"
| "any_resets collection (c # cs) = (if resets collection c then True else any_resets collection cs)"

text \<open>\<^verbatim>\<open>global["payload"]\<close> panics when the object has no such key.\<close>

definition extract_v1_state ::
    "MigrateJson \<Rightarrow> string option \<Rightarrow> string \<Rightarrow> ('e, CollSyncIds option \<times> string option) outcome" where
  "extract_v1_state js state collection =
     (case state of None \<Rightarrow> Ok (None, None) | Some s \<Rightarrow>
     (case ok (mj_parse js s) of None \<Rightarrow> Ok (None, None) | Some j \<Rightarrow>
      if Option.bind (json_get ''schema_version'' j) as_str \<noteq> Some ''V1'' then Ok (None, None)
      else
     (case Option.bind (json_get ''global'' j) as_object of None \<Rightarrow> Ok (None, None) | Some global \<Rightarrow>
     (case map_of global ''payload'' of None \<Rightarrow> Panic ''no entry found for key'' | Some payload \<Rightarrow>
     (case Option.bind (as_str payload) (\<lambda>p. ok (mj_meta_global js p)) of None \<Rightarrow> Ok (None, None) | Some meta_global \<Rightarrow>
      let new_global_state = ok (mj_pgs_to_string js (V2 (Some (mg_declined meta_global))));
          state_changes = (case Option.bind (json_get ''engine_state_changes'' j) as_array of Some xs \<Rightarrow> xs | None \<Rightarrow> []) in
      if any_resets collection state_changes then Ok (None, new_global_state)
      else Ok (map_option (\<lambda>coll. \<lparr>ids_global = mg_sync_id meta_global, ids_coll = eng_sync_id coll\<rparr>)
                 (mg_engines meta_global collection), new_global_state))))))"

lemma any_resets_iff: "any_resets collection cs \<longleftrightarrow> (\<exists>c \<in> set cs. resets collection c)"
  by (induction cs) auto


definition js2 :: MigrateJson where
  "js2 = \<lparr>mj_parse = (\<lambda>s. Ok (JObject [(''schema_version'', JString ''V1''), (''global'', JObject [(''payload'', JString ''m'')])])),
          mj_meta_global = (\<lambda>s. Ok \<lparr>mg_sync_id = ''g'', mg_storage_version = 5,
             mg_engines = [''passwords'' \<mapsto> \<lparr>eng_version = 1, eng_sync_id = ''c''\<rparr>], mg_declined = []\<rparr>),
          mj_pgs_to_string = (\<lambda>_. Ok ''v2'')\<rparr>"


end
