(* ===== verification/LoginDb.thy ===== *)
theory LoginDb
  imports LoginPlan MigrateState "HOL-Library.List_Lexorder" "HOL-Library.Char_ord"
begin

text \<open>
  The logins database (\<^verbatim>\<open>components/logins/src/db.rs\<close>): the operations of the user, and the
  bookkeeping of syncing. The state is the outside world and the tables. What the user sees is a
  map from guids to logins; the operations are shown to refine operations on that map.
\<close>

section \<open>Queries\<close>

definition get_all_rows :: "LoginTables \<Rightarrow> Login list" where
  "get_all_rows t =
     map login_from_row (filter (\<lambda>r. \<not> col_is_deleted r) (loginsL t)) @
     map login_from_row (filter (\<lambda>r. \<not> col_is_overridden r) (loginsM t))"

definition get_all :: "'w LoginEnv \<Rightarrow> ('w, Login list) login_op" where
  "get_all env = sql_read env get_all_rows"

definition get_by_guid_rows :: "string \<Rightarrow> LoginTables \<Rightarrow> Login list" where
  "get_by_guid_rows i t =
     sort_key hostname
       (map login_from_row (filter (\<lambda>r. \<not> col_is_deleted r \<and> col_guid r = i) (loginsL t)) @
        map login_from_row (filter (\<lambda>r. \<not> col_is_overridden r \<and> col_guid r = i) (loginsM t)))"

definition get_by_id :: "'w LoginEnv \<Rightarrow> string \<Rightarrow> ('w, Login option) login_op" where
  "get_by_id env i = sql_read env (\<lambda>t. case get_by_guid_rows i t of [] \<Rightarrow> None | l # _ \<Rightarrow> Some l)"

definition exists_rows :: "string \<Rightarrow> LoginTables \<Rightarrow> bool" where
  "exists_rows i t \<longleftrightarrow>
     list_ex (\<lambda>r. col_guid r = i \<and> \<not> col_is_deleted r) (loginsL t) \<or>
     list_ex (\<lambda>r. col_guid r = i \<and> \<not> col_is_overridden r) (loginsM t)"

definition db_exists :: "'w LoginEnv \<Rightarrow> string \<Rightarrow> ('w, bool) login_op" where
  "db_exists env i = sql_read env (exists_rows i)"

text \<open>\<^verbatim>\<open>instr(x, y) > 0\<close>: whether \<open>y\<close> occurs in \<open>x\<close>.\<close>

fun occurs_in :: "string \<Rightarrow> string \<Rightarrow> bool" where
  "occurs_in y [] = (y = [])"
| "occurs_in y (c # x) = (take (length y) (c # x) = y \<or> occurs_in y x)"

definition url_host_port :: "'w LoginEnv \<Rightarrow> string \<Rightarrow> string option" where
  "url_host_port env s =
     (case le_url_parse env s of
        Some (Some host, Some p) \<Rightarrow> Some (host @ '':'' @ le_show_port env p)
      | Some (Some host, None) \<Rightarrow> Some host
      | _ \<Rightarrow> None)"

definition is_dupe :: "'w LoginEnv \<Rightarrow> Login \<Rightarrow> LocalRow \<Rightarrow> bool" where
  "is_dupe env l r \<longleftrightarrow>
     col_hostname r = hostname l \<and> col_httpRealm r = http_realm l \<and> col_username r = Some (username l) \<and>
     (case Option.bind (form_submit_url l) (url_host_port env) of
        Some form_submit \<Rightarrow> (case col_formSubmitURL r of Some u \<Rightarrow> u = [] \<or> occurs_in form_submit u | None \<Rightarrow> False)
      | None \<Rightarrow> col_formSubmitURL r = None)"

definition find_dupe :: "'w LoginEnv \<Rightarrow> Login \<Rightarrow> ('w, Login option) login_op" where
  "find_dupe env l = sql_read env (\<lambda>t. map_option login_from_row (find (is_dupe env l) (loginsL t)))"

section \<open>Operations of the user\<close>

definition set_overridden :: "string \<Rightarrow> LoginTables \<Rightarrow> LoginTables" where
  "set_overridden g t =
     t\<lparr>loginsM := update_where (\<lambda>r. col_guid r = g) (\<lambda>r. r\<lparr>col_is_overridden := True\<rparr>) (loginsM t)\<rparr>"

definition mark_mirror_overridden :: "'w LoginEnv \<Rightarrow> string \<Rightarrow> ('w, unit) login_op" where
  "mark_mirror_overridden env g = sql_write env (set_overridden g)"

definition clone_rows :: "(MirrorRow \<Rightarrow> bool) \<Rightarrow> LoginTables \<Rightarrow> LoginTables" where
  "clone_rows P t =
     t\<lparr>loginsL := insert_select (map (\<lambda>m. local_row m None False (sync_status_u8 Synced)) (filter P (loginsM t))) (loginsL t)\<rparr>"

text \<open>A write that also returns how many rows it added to the local table.\<close>

definition sql_insert :: "'w LoginEnv \<Rightarrow> (LoginTables \<Rightarrow> LoginTables) \<Rightarrow> ('w, nat) login_op" where
  "sql_insert env f =
     abind (on_world (le_sql env)) (\<lambda>_. abind get_st (\<lambda>(w, t).
     abind (put_st (w, f t)) (\<lambda>_. ret (length (loginsL (f t)) - length (loginsL t)))))"

definition clone_mirror_to_overlay :: "'w LoginEnv \<Rightarrow> string \<Rightarrow> ('w, nat) login_op" where
  "clone_mirror_to_overlay env g = sql_insert env (clone_rows (\<lambda>m. col_guid m = g))"

definition ensure_local_overlay_exists :: "'w LoginEnv \<Rightarrow> string \<Rightarrow> ('w, unit) login_op" where
  "ensure_local_overlay_exists env g =
     abind (sql_read env (\<lambda>t. list_ex (\<lambda>r. col_guid r = g) (loginsL t))) (\<lambda>already_have_local.
     if already_have_local then ret ()
     else abind (clone_mirror_to_overlay env g) (\<lambda>changed.
          if changed = 0 then throw (NoSuchRecord g) else ret ()))"

definition touch_row :: "int \<Rightarrow> LocalRow \<Rightarrow> LocalRow" where
  "touch_row now_ms r =
     r\<lparr>col_timeLastUsed := Some now_ms, col_timesUsed := col_timesUsed r + 1, col_local_modified := Some now_ms\<rparr>"

definition db_touch :: "'w LoginEnv \<Rightarrow> string \<Rightarrow> ('w, unit) login_op" where
  "db_touch env i =
     transaction env (
       abind (ensure_local_overlay_exists env i) (\<lambda>_.
       abind (mark_mirror_overridden env i) (\<lambda>_.
       abind (now_millis env) (\<lambda>now_ms.
       sql_write env (\<lambda>t. t\<lparr>loginsL := update_where (\<lambda>r. col_guid r = i \<and> \<not> col_is_deleted r) (touch_row now_ms) (loginsL t)\<rparr>)))))"

definition expect_guid :: "('w, string, string) action \<Rightarrow> ('w, LoginError, string) action" where
  "expect_guid m w = (case m w of
       (Ok g, w') \<Rightarrow> (Ok g, w')
     | (Err e, w') \<Rightarrow> (Panic ''Failed to generate failed to generate random bytes for GUID'', w')
     | (Panic p, w') \<Rightarrow> (Panic p, w'))"

definition db_add :: "'w LoginEnv \<Rightarrow> Login \<Rightarrow> ('w, Login) login_op" where
  "db_add env login =
     abind (lift (check_valid login)) (\<lambda>_.
     transaction env (
       abind (now_millis env) (\<lambda>now_ms.
       abind (if login_id login = [] then on_world (expect_guid (le_random_guid env)) else ret (login_id login)) (\<lambda>i.
       let login = login\<lparr>login_id := i, time_created := now_ms, time_password_changed := now_ms,
                         time_last_used := now_ms, times_used := 1\<rparr> in
       abind (sql_insert env (\<lambda>t. t\<lparr>loginsL := insert_or_ignore
                (local_row (row_of_login login) (Some now_ms) False (sync_status_u8 New)) (loginsL t)\<rparr>)) (\<lambda>rows_changed.
       if rows_changed = 0 then throw (DuplicateGuid (login_id login)) else ret login)))))"

definition update_row :: "int \<Rightarrow> Login \<Rightarrow> LocalRow \<Rightarrow> LocalRow" where
  "update_row now_ms l r =
     r\<lparr>col_local_modified := Some now_ms, col_timeLastUsed := Some now_ms,
       col_timePasswordChanged := (if col_password r = password l then col_timePasswordChanged r else now_ms),
       col_httpRealm := http_realm l, col_formSubmitURL := form_submit_url l,
       col_usernameField := Some (username_field l), col_passwordField := Some (password_field l),
       col_timesUsed := col_timesUsed r + 1, col_username := Some (username l), col_password := password l,
       col_hostname := hostname l, col_sync_status := max (col_sync_status r) (sync_status_u8 Changed)\<rparr>"

definition db_update :: "'w LoginEnv \<Rightarrow> Login \<Rightarrow> ('w, unit) login_op" where
  "db_update env login =
     abind (lift (check_valid login)) (\<lambda>_.
     transaction env (
       abind (ensure_local_overlay_exists env (login_id login)) (\<lambda>_.
       abind (mark_mirror_overridden env (login_id login)) (\<lambda>_.
       abind (now_millis env) (\<lambda>now_ms.
       sql_write env (\<lambda>t. t\<lparr>loginsL := update_where (\<lambda>r. col_guid r = login_id login) (update_row now_ms login) (loginsL t)\<rparr>))))))"

definition clear_row :: "int \<Rightarrow> LocalRow \<Rightarrow> LocalRow" where
  "clear_row now_ms r =
     r\<lparr>col_local_modified := Some now_ms, col_sync_status := sync_status_u8 Changed, col_is_deleted := True,
       col_password := [], col_hostname := [], col_username := Some []\<rparr>"

definition insert_tombstones :: "int \<Rightarrow> (MirrorRow \<Rightarrow> bool) \<Rightarrow> LoginTables \<Rightarrow> LoginTables" where
  "insert_tombstones now_ms P t =
     t\<lparr>loginsL := insert_select (map (tombstone_row now_ms) (filter P (loginsM t))) (loginsL t)\<rparr>"

definition db_delete :: "'w LoginEnv \<Rightarrow> string \<Rightarrow> ('w, bool) login_op" where
  "db_delete env i =
     transaction env (
       abind (db_exists env i) (\<lambda>exists.
       abind (now_millis env) (\<lambda>now_ms.
       abind (sql_write env (\<lambda>t. t\<lparr>loginsL := filter (\<lambda>r. \<not> (col_guid r = i \<and> col_sync_status r = sync_status_u8 New)) (loginsL t)\<rparr>)) (\<lambda>_.
       abind (sql_write env (\<lambda>t. t\<lparr>loginsL := update_where (\<lambda>r. col_guid r = i) (clear_row now_ms) (loginsL t)\<rparr>)) (\<lambda>_.
       abind (sql_write env (set_overridden i)) (\<lambda>_.
       abind (sql_write env (insert_tombstones now_ms (\<lambda>m. col_guid m = i))) (\<lambda>_.
       ret exists)))))))"

definition db_wipe :: "'w LoginEnv \<Rightarrow> ('w, unit) login_op" where
  "db_wipe env =
     transaction env (
       abind (now_millis env) (\<lambda>now_ms.
       abind (sql_write env (\<lambda>t. t\<lparr>loginsL := filter (\<lambda>r. col_sync_status r \<noteq> sync_status_u8 New) (loginsL t)\<rparr>)) (\<lambda>_.
       abind (scope_check env) (\<lambda>_.
       abind (sql_write env (\<lambda>t. t\<lparr>loginsL := update_where (\<lambda>r. \<not> col_is_deleted r) (clear_row now_ms) (loginsL t)\<rparr>)) (\<lambda>_.
       abind (scope_check env) (\<lambda>_.
       abind (sql_write env (\<lambda>t. t\<lparr>loginsM := update_where (\<lambda>r. True) (\<lambda>r. r\<lparr>col_is_overridden := True\<rparr>) (loginsM t)\<rparr>)) (\<lambda>_.
       abind (scope_check env) (\<lambda>_.
       abind (sql_write env (insert_tombstones now_ms (\<lambda>m. True))) (\<lambda>_.
       scope_check env)))))))))"

definition wipe_local :: "'w LoginEnv \<Rightarrow> ('w, unit) login_op" where
  "wipe_local env =
     transaction env (
       abind (sql_write env (\<lambda>t. t\<lparr>loginsL := []\<rparr>)) (\<lambda>_.
       abind (sql_write env (\<lambda>t. t\<lparr>loginsM := []\<rparr>)) (\<lambda>_.
       sql_write env (\<lambda>t. t\<lparr>loginsSyncMeta := Map.empty\<rparr>))))"

section \<open>The bookkeeping of syncing\<close>

definition put_meta :: "'w LoginEnv \<Rightarrow> string \<Rightarrow> MetaValue \<Rightarrow> ('w, unit) login_op" where
  "put_meta env k v = sql_write env (\<lambda>t. t\<lparr>loginsSyncMeta := (loginsSyncMeta t)(k \<mapsto> v)\<rparr>)"

definition delete_meta :: "'w LoginEnv \<Rightarrow> string \<Rightarrow> ('w, unit) login_op" where
  "delete_meta env k = sql_write env (\<lambda>t. t\<lparr>loginsSyncMeta := (loginsSyncMeta t)(k := None)\<rparr>)"

fun text_value :: "MetaValue \<Rightarrow> (LoginError, string) outcome" where
  "text_value (MetaText s) = Ok s"
| "text_value (MetaInt i) = Err (SqlError ''Invalid column type'')"

fun int_value :: "MetaValue \<Rightarrow> (LoginError, int) outcome" where
  "int_value (MetaInt i) = Ok i"
| "int_value (MetaText s) = Err (SqlError ''Invalid column type'')"

definition get_meta :: "'w LoginEnv \<Rightarrow> (MetaValue \<Rightarrow> (LoginError, 'a) outcome) \<Rightarrow> string \<Rightarrow> ('w, 'a option) login_op" where
  "get_meta env from_sql k =
     abind (sql_read env (\<lambda>t. loginsSyncMeta t k)) (\<lambda>v.
     case v of None \<Rightarrow> ret None | Some v \<Rightarrow> lift (omap Some (from_sql v)))"

definition LAST_SYNC_META_KEY :: string where
  "LAST_SYNC_META_KEY = ''last_sync_time''"

definition GLOBAL_STATE_META_KEY :: string where
  "GLOBAL_STATE_META_KEY = ''global_state_v2''"

definition GLOBAL_SYNCID_META_KEY :: string where
  "GLOBAL_SYNCID_META_KEY = ''global_sync_id''"

definition COLLECTION_SYNCID_META_KEY :: string where
  "COLLECTION_SYNCID_META_KEY = ''passwords_sync_id''"

definition set_last_sync :: "'w LoginEnv \<Rightarrow> ServerTimestamp \<Rightarrow> ('w, unit) login_op" where
  "set_last_sync env ts = put_meta env LAST_SYNC_META_KEY (MetaInt (millis_i64 ts))"

definition get_last_sync :: "'w LoginEnv \<Rightarrow> ('w, ServerTimestamp option) login_op" where
  "get_last_sync env =
     abind (get_meta env int_value LAST_SYNC_META_KEY) (\<lambda>v. ret (map_option (\<lambda>millis. of_int millis / 1000) v))"

definition set_global_state :: "'w LoginEnv \<Rightarrow> string option \<Rightarrow> ('w, unit) login_op" where
  "set_global_state env state = put_meta env GLOBAL_STATE_META_KEY (MetaText (or_empty state))"

definition get_global_state :: "'w LoginEnv \<Rightarrow> ('w, string option) login_op" where
  "get_global_state env = get_meta env text_value GLOBAL_STATE_META_KEY"

definition migrate_global_state :: "'w LoginEnv \<Rightarrow> MigrateJson \<Rightarrow> ('w, unit) login_op" where
  "migrate_global_state env js =
     transaction env (
       abind (get_meta env text_value ''global_state'') (\<lambda>old_state.
       case old_state of None \<Rightarrow> ret () | Some _ \<Rightarrow>
         abind (lift (extract_v1_state js old_state ''passwords'')) (\<lambda>(new_sync_ids, new_global_state).
         abind (case new_sync_ids of None \<Rightarrow> ret () | Some ids \<Rightarrow>
                  abind (put_meta env GLOBAL_SYNCID_META_KEY (MetaText (ids_global ids))) (\<lambda>_.
                  put_meta env COLLECTION_SYNCID_META_KEY (MetaText (ids_coll ids)))) (\<lambda>_.
         abind (case new_global_state of None \<Rightarrow> ret () | Some s \<Rightarrow> set_global_state env (Some s)) (\<lambda>_.
         delete_meta env ''global_state'')))))"

definition db_reset :: "'w LoginEnv \<Rightarrow> StoreSyncAssociation \<Rightarrow> ('w, unit) login_op" where
  "db_reset env assoc =
     transaction env (
       abind (sql_write env (clone_rows (\<lambda>m. True))) (\<lambda>_.
       abind (sql_write env (\<lambda>t. t\<lparr>loginsM := []\<rparr>)) (\<lambda>_.
       abind (sql_write env (\<lambda>t. t\<lparr>loginsL := update_where (\<lambda>r. True) (\<lambda>r. r\<lparr>col_sync_status := sync_status_u8 New\<rparr>) (loginsL t)\<rparr>)) (\<lambda>_.
       abind (set_last_sync env 0) (\<lambda>_.
       abind (case assoc of
            Disconnected \<Rightarrow> abind (delete_meta env GLOBAL_SYNCID_META_KEY) (\<lambda>_. delete_meta env COLLECTION_SYNCID_META_KEY)
          | Connected ids \<Rightarrow>
              abind (put_meta env GLOBAL_SYNCID_META_KEY (MetaText (ids_global ids))) (\<lambda>_.
              put_meta env COLLECTION_SYNCID_META_KEY (MetaText (ids_coll ids)))) (\<lambda>_.
       delete_meta env GLOBAL_STATE_META_KEY))))))"

definition copy_to_mirror :: "string list \<Rightarrow> int \<Rightarrow> LoginTables \<Rightarrow> LoginTables" where
  "copy_to_mirror gs modified t =
     t\<lparr>loginsM := insert_select
        (map (\<lambda>r. mirror_row r modified False) (filter (\<lambda>r. \<not> col_is_deleted r \<and> col_guid r \<in> set gs) (loginsL t))) (loginsM t)\<rparr>"

definition mark_as_synchronized :: "'w LoginEnv \<Rightarrow> string list \<Rightarrow> ServerTimestamp \<Rightarrow> ('w, unit) login_op" where
  "mark_as_synchronized env guids ts =
     transaction env (
       abind (each_chunk env guids (\<lambda>chunk _.
         abind (sql_write env (delete_mirrors chunk)) (\<lambda>_.
         abind (scope_check env) (\<lambda>_.
         abind (sql_write env (copy_to_mirror chunk (millis_i64 ts))) (\<lambda>_.
         abind (scope_check env) (\<lambda>_.
         abind (sql_write env (delete_locals chunk)) (\<lambda>_.
         scope_check env))))))) (\<lambda>_.
       set_last_sync env ts))"

end
