(* ===== verification/LoginDbCorrect.thy ===== *)
theory LoginDbCorrect
  imports LoginDb
begin

text \<open>
  The invariant of the logins database, the map from guids to logins that its user sees, and the
  proof that every operation of the user keeps the invariant, implements the corresponding
  operation on the map, and changes nothing when it fails.
\<close>

section \<open>The invariant and the view of the user\<close>

text \<open>A guid has at most one row in a table, and a mirror row below a local row is overridden.\<close>

definition db_ok :: "LoginTables \<Rightarrow> bool" where
  "db_ok t \<longleftrightarrow> distinct (map col_guid (loginsL t)) \<and> distinct (map col_guid (loginsM t)) \<and>
     (\<forall>g m. with_guid g (loginsM t) = Some m \<longrightarrow> with_guid g (loginsL t) \<noteq> None \<longrightarrow> col_is_overridden m)"

definition visible :: "LoginTables \<Rightarrow> string \<rightharpoonup> Login" where
  "visible t g =
     (case with_guid g (loginsL t) of
        Some r \<Rightarrow> if col_is_deleted r then None else Some (login_from_row r)
      | None \<Rightarrow> (case with_guid g (loginsM t) of
          Some m \<Rightarrow> if col_is_overridden m then None else Some (login_from_row m)
        | None \<Rightarrow> None))"

text \<open>An overridden mirror row with no local row above it.\<close>

definition hidden :: "LoginTables \<Rightarrow> string \<Rightarrow> bool" where
  "hidden t g \<longleftrightarrow> with_guid g (loginsL t) = None \<and> (\<exists>m. with_guid g (loginsM t) = Some m \<and> col_is_overridden m)"

lemma db_ok_shown:
  "db_ok t \<Longrightarrow> with_guid g (loginsM t) = Some m \<Longrightarrow> \<not> col_is_overridden m \<Longrightarrow> with_guid g (loginsL t) = None"
  unfolding db_ok_def by blast

lemma db_ok_overridden:
  "db_ok t \<Longrightarrow> with_guid g (loginsM t) = Some m \<Longrightarrow> with_guid g (loginsL t) \<noteq> None \<Longrightarrow> col_is_overridden m"
  unfolding db_ok_def by blast

lemma db_ok_empty: "db_ok empty_tables"
  by (simp add: db_ok_def empty_tables_def)

lemma login_from_row_id [simp]: "login_id (login_from_row r) = col_guid r"
  by (simp add: login_from_row_def)

lemma filter_guid:
  assumes "distinct (map col_guid rows)"
  shows "filter (\<lambda>r. P r \<and> col_guid r = g) rows =
     (case with_guid g rows of Some r \<Rightarrow> if P r then [r] else [] | None \<Rightarrow> [])"
  using assms
proof (induction rows)
  case (Cons r rows)
  show ?case
  proof (cases "col_guid r = g")
    case True
    then have "with_guid g rows = None" using Cons.prems by (auto simp: with_guid_None_iff)
    then show ?thesis using Cons True by (simp add: with_guid_def)
  next
    case False
    then show ?thesis using Cons by (simp add: with_guid_def)
  qed
qed simp

lemma get_by_guid_rows_visible:
  assumes "db_ok t"
  shows "get_by_guid_rows g t = (case visible t g of Some l \<Rightarrow> [l] | None \<Rightarrow> [])"
proof (cases "with_guid g (loginsL t)")
  case None
  then show ?thesis
    using assms by (auto simp: get_by_guid_rows_def visible_def db_ok_def filter_guid split: option.splits)
next
  case (Some r)
  then have "with_guid g (loginsM t) = Some m \<Longrightarrow> col_is_overridden m" for m
    using assms by (auto simp: db_ok_def)
  then show ?thesis
    using assms Some by (auto simp: get_by_guid_rows_def visible_def db_ok_def filter_guid split: option.splits)
qed

lemma exists_rows_visible:
  assumes "db_ok t" shows "exists_rows g t \<longleftrightarrow> visible t g \<noteq> None"
proof -
  have "exists_rows g t \<longleftrightarrow> get_by_guid_rows g t \<noteq> []"
    using set_sort [of hostname] by (fastforce simp: exists_rows_def get_by_guid_rows_def list_ex_iff simp flip: set_empty)
  then show ?thesis using get_by_guid_rows_visible [OF assms, of g] by (auto split: option.splits)
qed

lemma get_all_rows_visible:
  assumes "db_ok t"
  shows "set (get_all_rows t) = ran (visible t)" "distinct (map login_id (get_all_rows t))"
proof -
  have L: "with_guid (col_guid r) (loginsL t) = Some r" if "r \<in> set (loginsL t)" for r
    using assms that by (auto simp: db_ok_def intro: with_guid_distinct)
  have M: "with_guid (col_guid r) (loginsM t) = Some r" if "r \<in> set (loginsM t)" for r
    using assms that by (auto simp: db_ok_def intro: with_guid_distinct)
  have sep: "with_guid (col_guid m) (loginsL t) = None" if "m \<in> set (loginsM t)" "\<not> col_is_overridden m" for m
    by (rule db_ok_shown [OF assms M [OF that(1)] that(2)])
  show "set (get_all_rows t) = ran (visible t)"
  proof (intro equalityI subsetI)
    fix l assume "l \<in> set (get_all_rows t)"
    then consider (L) r where "r \<in> set (loginsL t)" "\<not> col_is_deleted r" "l = login_from_row r"
      | (M) m where "m \<in> set (loginsM t)" "\<not> col_is_overridden m" "l = login_from_row m"
      by (auto simp: get_all_rows_def)
    then have "visible t (login_id l) = Some l" by cases (auto simp: visible_def L M sep)
    then show "l \<in> ran (visible t)" by (rule ranI)
  next
    fix l assume "l \<in> ran (visible t)"
    then obtain g where "visible t g = Some l" by (auto simp: ran_def)
    then show "l \<in> set (get_all_rows t)"
      by (auto simp: visible_def get_all_rows_def dest!: with_guid_SomeD split: option.splits if_splits)
  qed
  have "col_guid ` set (filter (\<lambda>r. \<not> col_is_deleted r) (loginsL t)) \<inter>
      col_guid ` set (filter (\<lambda>r. \<not> col_is_overridden r) (loginsM t)) = {}"
    using sep by (force simp: with_guid_None_iff)
  then show "distinct (map login_id (get_all_rows t))"
    using assms by (auto simp: get_all_rows_def comp_def db_ok_def distinct_map_filter)
qed

lemma sql_read_eq: "sql_read env q (w, t) = apfst (omap (\<lambda>_. q t)) (on_world (le_sql env) (w, t))"
  by (auto simp: sql_read_def abind_def on_world_def get_st_def ret_def split: prod.splits outcome.splits)

text \<open>
  What the user reads is one map: in a database that satisfies the invariant, and whenever the
  SQL engine answers, \<^verbatim>\<open>get_by_id\<close> returns the login the map has for the guid, \<^verbatim>\<open>exists\<close>
  says whether there is one, \<^verbatim>\<open>get_all\<close> returns all its logins, each guid once, and none of
  them changes the tables.
\<close>

theorem queries_correct:
  assumes "db_ok t"
  shows "get_by_id env g (w, t) = apfst (omap (\<lambda>_. visible t g)) (on_world (le_sql env) (w, t)) \<and>
    db_exists env g (w, t) = apfst (omap (\<lambda>_. visible t g \<noteq> None)) (on_world (le_sql env) (w, t)) \<and>
    (\<exists>ls. get_all env (w, t) = apfst (omap (\<lambda>_. ls)) (on_world (le_sql env) (w, t)) \<and>
       set ls = ran (visible t) \<and> distinct (map login_id ls))"
proof (intro conjI exI)
  have "(case get_by_guid_rows g t of [] \<Rightarrow> None | l # _ \<Rightarrow> Some l) = visible t g"
    by (auto simp: get_by_guid_rows_visible [OF assms] split: option.splits)
  then show "get_by_id env g (w, t) = apfst (omap (\<lambda>_. visible t g)) (on_world (le_sql env) (w, t))"
    by (simp add: get_by_id_def sql_read_eq)
  show "db_exists env g (w, t) = apfst (omap (\<lambda>_. visible t g \<noteq> None)) (on_world (le_sql env) (w, t))"
    by (simp add: db_exists_def sql_read_eq exists_rows_visible [OF assms])
  show "get_all env (w, t) = apfst (omap (\<lambda>_. get_all_rows t)) (on_world (le_sql env) (w, t))"
    by (simp add: get_all_def sql_read_eq)
qed (use get_all_rows_visible [OF assms] in auto)

section \<open>Effects of the operations\<close>

lemma does_insert: "does (sql_insert env f) (\<lambda>t n t'. t' = f t \<and> n = length (loginsL (f t)) - length (loginsL t))"
  by (auto simp: does_def sql_insert_def abind_def on_world_def get_st_def put_st_def ret_def
      split: prod.splits outcome.splits)

lemma insert_select_Nil [simp]: "insert_select [] rows = rows"
  by (simp add: insert_select_def)

lemma insert_select_present: "col_guid ` set new \<subseteq> col_guid ` set rows \<Longrightarrow> insert_select new rows = rows"
  unfolding insert_select_def by (induction new) (auto simp: insert_or_ignore_def)

lemma clone_present:
  assumes "with_guid g (loginsL t) \<noteq> None" shows "clone_rows (\<lambda>m. col_guid m = g) t = t"
proof -
  have "g \<in> col_guid ` set (loginsL t)" using assms by (simp add: with_guid_None_iff)
  then have "insert_select (map (\<lambda>m. local_row m None False (sync_status_u8 Synced))
      (filter (\<lambda>m. col_guid m = g) (loginsM t))) (loginsL t) = loginsL t"
    by (intro insert_select_present) auto
  then show ?thesis by (simp add: clone_rows_def)
qed

lemma list_ex_with_guid: "list_ex (\<lambda>r. col_guid r = g) rows \<longleftrightarrow> with_guid g rows \<noteq> None"
  by (auto simp: with_guid_None_iff list_ex_iff)

lemma does_ensure:
  "does (ensure_local_overlay_exists env g)
     (\<lambda>t _ t'. t' = clone_rows (\<lambda>m. col_guid m = g) t \<and> (with_guid g (loginsL t) \<noteq> None \<or> with_guid g (loginsM t) \<noteq> None))"
proof -
  have c: "does (clone_mirror_to_overlay env g)
      (\<lambda>t n t'. t' = clone_rows (\<lambda>m. col_guid m = g) t \<and> (n \<noteq> 0 \<longrightarrow> with_guid g (loginsM t) \<noteq> None))"
    unfolding clone_mirror_to_overlay_def
    by (rule does_weaken [OF does_insert])
      (auto simp: clone_rows_def with_guid_None_iff filter_empty_conv image_iff
        intro!: insert_select_present [THEN arg_cong [where f = length], THEN eq_refl])
  have "does (if b then ret () else abind (clone_mirror_to_overlay env g) (\<lambda>n. if n = 0 then throw (NoSuchRecord g) else ret ()))
      (\<lambda>t _ t'. if b then t' = t else t' = clone_rows (\<lambda>m. col_guid m = g) t \<and> with_guid g (loginsM t) \<noteq> None)" for b
  proof (cases b)
    case False
    have d: "does (if n = 0 then throw (NoSuchRecord g) else ret ()) (\<lambda>t _ t'. n \<noteq> 0 \<and> t' = t)" for n :: nat
      by (simp add: does_def throw_def ret_def)
    show ?thesis using False by (simp, intro does_weaken [OF does_abind [OF c d]]) auto
  qed (simp add: does_def ret_def)
  then show ?thesis
    unfolding ensure_local_overlay_exists_def
    by (rule does_weaken [OF does_abind [OF does_read]])
      (auto simp: list_ex_with_guid clone_present split: if_splits)
qed

lemma login_from_touch_row:
  "login_from_row (touch_row now r) = (login_from_row r)\<lparr>time_last_used := now, times_used := col_timesUsed r + 1\<rparr>"
  by (simp add: login_from_row_def touch_row_def)

lemma row_guids [simp]:
  "col_guid (touch_row now r) = col_guid r" "col_guid (update_row now l r) = col_guid r"
  "col_guid (clear_row now r) = col_guid r" "col_is_deleted (touch_row now r) = col_is_deleted r"
  "col_is_deleted (update_row now l r) = col_is_deleted r" "col_is_deleted (clear_row now r)"
  "col_guid (update_mirror_row l ts m) = col_guid m" "col_is_overridden (update_mirror_row l ts m) = col_is_overridden m"
  "col_guid (update_local_row now l r) = col_guid r" "col_is_deleted (update_local_row now l r) = col_is_deleted r"
  by (simp_all add: touch_row_def update_row_def clear_row_def update_mirror_row_def update_local_row_def)

definition overlay_updated :: "string \<Rightarrow> (LocalRow \<Rightarrow> bool) \<Rightarrow> (LocalRow \<Rightarrow> LocalRow) \<Rightarrow> LoginTables \<Rightarrow> LoginTables" where
  "overlay_updated g P f t =
     (let t1 = set_overridden g (clone_rows (\<lambda>m. col_guid m = g) t) in t1\<lparr>loginsL := update_where P f (loginsL t1)\<rparr>)"

lemma does_touch:
  "does (db_touch env g) (\<lambda>t _ t'. \<exists>now. t' = overlay_updated g (\<lambda>r. col_guid r = g \<and> \<not> col_is_deleted r) (touch_row now) t)"
  unfolding db_touch_def mark_mirror_overridden_def overlay_updated_def Let_def
  by (intro does_transaction
      does_weaken [OF does_abind [OF does_ensure does_abind [OF does_write does_abind [OF does_now does_write]]]]) auto

lemma does_lift_then: "(\<And>a. does (f a) R) \<Longrightarrow> does (abind (lift r) f) R"
  by (auto simp: does_def abind_def lift_def split: outcome.splits)

lemma does_update:
  "does (db_update env l) (\<lambda>t _ t'. \<exists>now. t' = overlay_updated (login_id l) (\<lambda>r. col_guid r = login_id l) (update_row now l) t)"
  unfolding db_update_def mark_mirror_overridden_def overlay_updated_def Let_def
  by (intro does_lift_then does_transaction
      does_weaken [OF does_abind [OF does_ensure does_abind [OF does_write does_abind [OF does_now does_write]]]]) auto

lemma with_guid_set_overridden [lookups]:
  "with_guid g (loginsM (set_overridden i t)) =
     map_option (\<lambda>m. if g = i then m\<lparr>col_is_overridden := True\<rparr> else m) (with_guid g (loginsM t))"
  by (auto simp: set_overridden_def with_guid_update dest: with_guid_guid intro!: option.map_cong)

lemma loginsL_set_overridden [simp]: "loginsL (set_overridden i t) = loginsL t"
  by (simp add: set_overridden_def)

lemma loginsM_clone [simp]: "loginsM (clone_rows P t) = loginsM t"
  by (simp add: clone_rows_def)

lemma with_guid_filter_guid:
  "with_guid g (filter (\<lambda>r. col_guid r = i) rows) = (if g = i then with_guid g rows else None)"
  by (induction rows) (auto simp: with_guid_def)

lemma with_guid_clone [lookups]:
  "with_guid g (loginsL (clone_rows (\<lambda>m. col_guid m = i) t)) =
     (case with_guid g (loginsL t) of Some r \<Rightarrow> Some r
      | None \<Rightarrow> if g = i then map_option (\<lambda>m. local_row m None False 0) (with_guid g (loginsM t)) else None)"
  by (simp add: clone_rows_def with_guid_insert_select with_guid_map with_guid_filter_guid split: option.splits)

lemma overlay_updated_lookups:
  assumes "\<And>r. col_guid (f r) = col_guid r"
  shows "with_guid h (loginsM (overlay_updated g P f t)) =
      map_option (\<lambda>m. if h = g then m\<lparr>col_is_overridden := True\<rparr> else m) (with_guid h (loginsM t))"
    and "with_guid h (loginsL (overlay_updated g P f t)) =
      map_option (\<lambda>r. if P r then f r else r)
       (case with_guid h (loginsL t) of Some r \<Rightarrow> Some r
        | None \<Rightarrow> if h = g then map_option (\<lambda>m. local_row m None False 0) (with_guid h (loginsM t)) else None)"
  using assms by (simp_all add: overlay_updated_def Let_def lookups)

lemma overlay_updated_distinct:
  assumes "\<And>r. col_guid (f r) = col_guid r" "db_ok t"
  shows "distinct (map col_guid (loginsL (overlay_updated g P f t)))" "distinct (map col_guid (loginsM (overlay_updated g P f t)))"
  using assms
  by (simp_all add: overlay_updated_def Let_def distinct_update_where set_overridden_def clone_rows_def distinct_insert_select db_ok_def)

lemma overlay_updated_ok:
  assumes "\<And>r. col_guid (f r) = col_guid r" "db_ok t" shows "db_ok (overlay_updated g P f t)"
  unfolding db_ok_def
proof (intro conjI allI impI)
  fix h m assume m: "with_guid h (loginsM (overlay_updated g P f t)) = Some m"
    and l: "with_guid h (loginsL (overlay_updated g P f t)) \<noteq> None"
  show "col_is_overridden m"
  proof (cases "h = g")
    case True
    then show ?thesis using m by (auto simp: overlay_updated_lookups(1) [OF assms(1)])
  next
    case False
    then have "with_guid h (loginsM t) = Some m" "with_guid h (loginsL t) \<noteq> None"
      using m l by (auto simp: overlay_updated_lookups [OF assms(1)] option.map_ident split: option.splits)
    then show ?thesis by (rule db_ok_overridden [OF assms(2)])
  qed
qed (use overlay_updated_distinct [OF assms] in auto)

lemma overlay_updated_visible:
  assumes "\<And>r. col_guid (f r) = col_guid r" "\<And>r. col_is_deleted (f r) = col_is_deleted r" "\<not> hidden t g"
    "\<And>r. P r \<Longrightarrow> col_guid r = g"
    "\<And>r. col_guid r = g \<Longrightarrow> \<not> col_is_deleted r \<Longrightarrow> P r \<and> login_from_row (f r) = h (login_from_row r)"
  shows "visible (overlay_updated g P f t) = (visible t)(g := map_option h (visible t g))"
proof
  fix i
  show "visible (overlay_updated g P f t) i = ((visible t)(g := map_option h (visible t g))) i"
  proof (cases "i = g")
    case False
    then have "\<not> P r" if "with_guid i (loginsL t) = Some r" for r
      using that assms(4) with_guid_guid by metis
    then show ?thesis
      using False by (auto simp: visible_def overlay_updated_lookups [OF assms(1)] split: option.splits)
  next
    case True
    show ?thesis
    proof (cases "with_guid g (loginsL t)")
      case (Some r)
      then show ?thesis
        using True assms(2,5) with_guid_guid [OF Some] by (auto simp: visible_def overlay_updated_lookups [OF assms(1)])
    next
      case None
      then have m: "\<not> col_is_overridden m" if "with_guid g (loginsM t) = Some m" for m
        using that assms(3) by (auto simp: hidden_def)
      have "P (local_row m None False 0) \<and> login_from_row (f (local_row m None False 0)) = h (login_from_row m)"
        if "with_guid g (loginsM t) = Some m" for m
        using assms(5) [of "local_row m None False 0"] with_guid_guid [OF that] by simp
      then show ?thesis
        using True None m assms(2) by (auto simp: visible_def overlay_updated_lookups [OF assms(1)] split: option.splits)
    qed
  qed
qed

definition touched :: "int \<Rightarrow> Login \<Rightarrow> Login" where
  "touched now l = l\<lparr>time_last_used := now, times_used := times_used l + 1\<rparr>"

definition updated :: "int \<Rightarrow> Login \<Rightarrow> Login \<Rightarrow> Login" where
  "updated now new old =
     new\<lparr>login_id := login_id old, time_created := time_created old,
         time_password_changed := (if password old = password new then time_password_changed old else now),
         time_last_used := now, times_used := times_used old + 1\<rparr>"

lemma touch_visible:
  "\<not> hidden t g \<Longrightarrow>
   visible (overlay_updated g (\<lambda>r. col_guid r = g \<and> \<not> col_is_deleted r) (touch_row now) t) =
     (visible t)(g := map_option (touched now) (visible t g))"
  by (rule overlay_updated_visible) (auto simp: touched_def touch_row_def login_from_row_def)

lemma update_visible:
  "\<not> hidden t (login_id l) \<Longrightarrow>
   visible (overlay_updated (login_id l) (\<lambda>r. col_guid r = login_id l) (update_row now l) t) =
     (visible t)(login_id l := map_option (updated now l) (visible t (login_id l)))"
  by (rule overlay_updated_visible) (auto simp: updated_def update_row_def login_from_row_def or_empty_def)

section \<open>Adding and deleting\<close>

definition added :: "int \<Rightarrow> string \<Rightarrow> Login \<Rightarrow> Login" where
  "added now i l = l\<lparr>login_id := i, time_created := now, time_password_changed := now, time_last_used := now, times_used := 1\<rparr>"

definition add_tables :: "int \<Rightarrow> Login \<Rightarrow> LoginTables \<Rightarrow> LoginTables" where
  "add_tables now l t =
     t\<lparr>loginsL := insert_or_ignore (local_row (row_of_login l) (Some now) False (sync_status_u8 New)) (loginsL t)\<rparr>"

lemma does_add:
  "does (db_add env l) (\<lambda>t l' t'. \<exists>now. l' = added now (login_id l') l \<and> t' = add_tables now l' t \<and>
     (login_id l \<noteq> [] \<longrightarrow> login_id l' = login_id l) \<and> with_guid (login_id l') (loginsL t) = None)"
proof -
  have i: "does (if login_id l = [] then on_world (expect_guid (le_random_guid env)) else ret (login_id l))
      (\<lambda>t i t'. t' = t \<and> (login_id l \<noteq> [] \<longrightarrow> i = login_id l))"
    by (auto simp: does_def ret_def dest: on_world_tables)
  have d: "does (if n = 0 then throw (DuplicateGuid g) else ret x) (\<lambda>t y t'. n \<noteq> 0 \<and> t' = t \<and> y = x)" for n :: nat and g and x :: Login
    by (simp add: does_def throw_def ret_def)
  have n: "length (loginsL t) < length (loginsL (add_tables now x t)) \<Longrightarrow> with_guid (login_id x) (loginsL t) = None" for now x t
    by (auto simp: add_tables_def insert_or_ignore_def with_guid_None_iff split: if_splits)
  have ins: "does (let login = l\<lparr>login_id := i, time_created := now, time_password_changed := now, time_last_used := now, times_used := 1\<rparr> in
       abind (sql_insert env (\<lambda>t. t\<lparr>loginsL := insert_or_ignore
                (local_row (row_of_login login) (Some now) False (sync_status_u8 New)) (loginsL t)\<rparr>)) (\<lambda>rows_changed.
       if rows_changed = 0 then throw (DuplicateGuid (login_id login)) else ret login))
      (\<lambda>t l' t'. l' = added now i l \<and> t' = add_tables now l' t \<and> with_guid (login_id l') (loginsL t) = None)" for i now
    unfolding added_def [symmetric] add_tables_def [symmetric] Let_def
    by (intro does_weaken [OF does_abind [OF does_insert d]]) (auto dest: n)
  show ?thesis
    unfolding db_add_def
    by (intro does_lift_then does_transaction does_weaken [OF does_abind [OF does_now does_abind [OF i ins]]])
      (auto simp: added_def)
qed

lemma add_ok:
  assumes "db_ok t" "with_guid (login_id l) (loginsM t) = None" shows "db_ok (add_tables now l t)"
  unfolding db_ok_def
proof (intro conjI allI impI)
  fix g m assume "with_guid g (loginsM (add_tables now l t)) = Some m" "with_guid g (loginsL (add_tables now l t)) \<noteq> None"
  then have "with_guid g (loginsM t) = Some m" "with_guid g (loginsL t) \<noteq> None"
    using assms(2) by (auto simp: add_tables_def with_guid_insert split: option.splits if_splits)
  then show "col_is_overridden m" by (rule db_ok_overridden [OF assms(1)])
qed (use assms(1) in \<open>auto simp: db_ok_def add_tables_def distinct_insert_row\<close>)

lemma add_visible:
  assumes "with_guid (login_id l) (loginsL t) = None"
  shows "visible (add_tables now l t) = (visible t)(login_id l \<mapsto> l)"
  using assms by (auto simp: visible_def add_tables_def with_guid_insert fun_eq_iff split: option.splits)

definition delete_tables :: "int \<Rightarrow> string \<Rightarrow> LoginTables \<Rightarrow> LoginTables" where
  "delete_tables now i t =
     (let t1 = t\<lparr>loginsL := filter (\<lambda>r. \<not> (col_guid r = i \<and> col_sync_status r = sync_status_u8 New)) (loginsL t)\<rparr>;
          t2 = t1\<lparr>loginsL := update_where (\<lambda>r. col_guid r = i) (clear_row now) (loginsL t1)\<rparr>
      in insert_tombstones now (\<lambda>m. col_guid m = i) (set_overridden i t2))"

lemma does_delete: "does (db_delete env i) (\<lambda>t b t'. b = exists_rows i t \<and> (\<exists>now. t' = delete_tables now i t))"
  unfolding db_delete_def db_exists_def delete_tables_def Let_def
  by (intro does_transaction does_weaken [OF does_abind [OF does_read does_abind [OF does_now does_abind [OF does_write
        does_abind [OF does_write does_abind [OF does_write does_abind [OF does_write does_ret]]]]]]]) auto

lemma delete_lookups:
  assumes "db_ok t"
  shows "with_guid g (loginsM (delete_tables now i t)) =
      map_option (\<lambda>m. if g = i then m\<lparr>col_is_overridden := True\<rparr> else m) (with_guid g (loginsM t))"
    and "with_guid g (loginsL (delete_tables now i t)) =
      (if g \<noteq> i then with_guid g (loginsL t)
       else case with_guid i (loginsL t) of
          Some r \<Rightarrow> if col_sync_status r = 2
                    then map_option (\<lambda>m. tombstone_row now (m\<lparr>col_is_overridden := True\<rparr>)) (with_guid i (loginsM t))
                    else Some (clear_row now r)
        | None \<Rightarrow> map_option (\<lambda>m. tombstone_row now (m\<lparr>col_is_overridden := True\<rparr>)) (with_guid i (loginsM t)))"
proof -
  show "with_guid g (loginsM (delete_tables now i t)) =
      map_option (\<lambda>m. if g = i then m\<lparr>col_is_overridden := True\<rparr> else m) (with_guid g (loginsM t))"
    by (simp add: delete_tables_def insert_tombstones_def Let_def lookups)
  have "distinct (map col_guid (loginsL t))" using assms by (simp add: db_ok_def)
  then show "with_guid g (loginsL (delete_tables now i t)) =
      (if g \<noteq> i then with_guid g (loginsL t)
       else case with_guid i (loginsL t) of
          Some r \<Rightarrow> if col_sync_status r = 2
                    then map_option (\<lambda>m. tombstone_row now (m\<lparr>col_is_overridden := True\<rparr>)) (with_guid i (loginsM t))
                    else Some (clear_row now r)
        | None \<Rightarrow> map_option (\<lambda>m. tombstone_row now (m\<lparr>col_is_overridden := True\<rparr>)) (with_guid i (loginsM t)))"
    by (auto simp: delete_tables_def insert_tombstones_def Let_def lookups with_guid_map with_guid_filter_guid
        with_guid_filter_distinct option.map_comp comp_def dest: with_guid_guid split: option.splits)
qed

lemma delete_ok:
  assumes "db_ok t" shows "db_ok (delete_tables now i t)"
  unfolding db_ok_def
proof (intro conjI allI impI)
  fix g m assume m: "with_guid g (loginsM (delete_tables now i t)) = Some m" and l: "with_guid g (loginsL (delete_tables now i t)) \<noteq> None"
  show "col_is_overridden m"
  proof (cases "g = i")
    case True
    then show ?thesis using m by (auto simp: delete_lookups(1) [OF assms])
  next
    case False
    then have "with_guid g (loginsM t) = Some m" "with_guid g (loginsL t) \<noteq> None"
      using m l by (auto simp: delete_lookups [OF assms] option.map_ident)
    then show ?thesis by (rule db_ok_overridden [OF assms])
  qed
qed (use assms in \<open>auto simp: db_ok_def delete_tables_def Let_def insert_tombstones_def set_overridden_def
    distinct_insert_select distinct_update_where distinct_map_filter\<close>)

lemma delete_visible:
  assumes "db_ok t" shows "visible (delete_tables now i t) = (visible t)(i := None)"
  by (auto simp: visible_def delete_lookups [OF assms] fun_eq_iff split: option.splits)

definition wipe_tables :: "int \<Rightarrow> LoginTables \<Rightarrow> LoginTables" where
  "wipe_tables now t =
     (let l1 = filter (\<lambda>r. col_sync_status r \<noteq> sync_status_u8 New) (loginsL t);
          l2 = update_where (\<lambda>r. \<not> col_is_deleted r) (clear_row now) l1;
          m1 = update_where (\<lambda>r. True) (\<lambda>r. r\<lparr>col_is_overridden := True\<rparr>) (loginsM t)
      in t\<lparr>loginsM := m1, loginsL := insert_select (map (tombstone_row now) m1) l2\<rparr>)"

lemma does_wipe: "does (db_wipe env) (\<lambda>t _ t'. \<exists>now. t' = wipe_tables now t)"
  unfolding db_wipe_def wipe_tables_def Let_def
  by (intro does_transaction does_weaken [OF does_abind [OF does_now does_abind [OF does_write does_abind [OF does_scope
        does_abind [OF does_write does_abind [OF does_scope does_abind [OF does_write does_abind [OF does_scope
        does_abind [OF does_write does_scope]]]]]]]]])
    (auto simp: insert_tombstones_def intro: exI)

lemma wipe_lookups:
  assumes "db_ok t"
  shows "with_guid g (loginsM (wipe_tables now t)) = map_option (\<lambda>m. m\<lparr>col_is_overridden := True\<rparr>) (with_guid g (loginsM t))"
    and "with_guid g (loginsL (wipe_tables now t)) =
      (case with_guid g (loginsL t) of
          Some r \<Rightarrow> if col_sync_status r = 2
                    then map_option (\<lambda>m. tombstone_row now (m\<lparr>col_is_overridden := True\<rparr>)) (with_guid g (loginsM t))
                    else Some (if col_is_deleted r then r else clear_row now r)
        | None \<Rightarrow> map_option (\<lambda>m. tombstone_row now (m\<lparr>col_is_overridden := True\<rparr>)) (with_guid g (loginsM t)))"
proof -
  show "with_guid g (loginsM (wipe_tables now t)) = map_option (\<lambda>m. m\<lparr>col_is_overridden := True\<rparr>) (with_guid g (loginsM t))"
    by (simp add: wipe_tables_def Let_def lookups)
  have "distinct (map col_guid (loginsL t))" using assms by (simp add: db_ok_def)
  then show "with_guid g (loginsL (wipe_tables now t)) =
      (case with_guid g (loginsL t) of
          Some r \<Rightarrow> if col_sync_status r = 2
                    then map_option (\<lambda>m. tombstone_row now (m\<lparr>col_is_overridden := True\<rparr>)) (with_guid g (loginsM t))
                    else Some (if col_is_deleted r then r else clear_row now r)
        | None \<Rightarrow> map_option (\<lambda>m. tombstone_row now (m\<lparr>col_is_overridden := True\<rparr>)) (with_guid g (loginsM t)))"
    by (auto simp: wipe_tables_def Let_def lookups with_guid_map with_guid_filter_distinct option.map_comp comp_def
        split: option.splits)
qed

lemma wipe_ok: "db_ok t \<Longrightarrow> db_ok (wipe_tables now t)"
  by (auto simp: db_ok_def wipe_lookups(1) wipe_tables_def Let_def distinct_insert_select distinct_update_where distinct_map_filter with_guid_update)

lemma wipe_visible: "db_ok t \<Longrightarrow> visible (wipe_tables now t) = Map.empty"
  by (auto simp: visible_def wipe_lookups fun_eq_iff split: option.splits)

lemma does_wipe_local: "does (wipe_local env) (\<lambda>t _ t'. t' = empty_tables)"
  unfolding wipe_local_def
  by (intro does_transaction does_weaken [OF does_abind [OF does_write does_abind [OF does_write does_write]]])
    (simp add: empty_tables_def)

section \<open>Syncing and resetting\<close>

text \<open>The tables without the metadata.\<close>

definition same_rows :: "LoginTables \<Rightarrow> LoginTables \<Rightarrow> bool" where
  "same_rows t t' \<longleftrightarrow> loginsL t' = loginsL t \<and> loginsM t' = loginsM t"

lemma does_put_meta: "does (put_meta env k v) (\<lambda>t _ t'. same_rows t t' \<and> loginsSyncMeta t' = (loginsSyncMeta t)(k \<mapsto> v))"
  unfolding put_meta_def by (rule does_weaken [OF does_write]) (simp add: same_rows_def)

lemma does_delete_meta: "does (delete_meta env k) (\<lambda>t _ t'. same_rows t t' \<and> loginsSyncMeta t' = (loginsSyncMeta t)(k := None))"
  unfolding delete_meta_def by (rule does_weaken [OF does_write]) (simp add: same_rows_def)

lemma same_rows_visible: "same_rows t t' \<Longrightarrow> visible t' = visible t"
  by (simp add: same_rows_def visible_def fun_eq_iff split: option.splits)

lemma same_rows_ok: "same_rows t t' \<Longrightarrow> db_ok t' = db_ok t"
  by (auto simp: same_rows_def db_ok_def)

definition reset_tables :: "LoginTables \<Rightarrow> LoginTables" where
  "reset_tables t =
     t\<lparr>loginsL := update_where (\<lambda>r. True) (\<lambda>r. r\<lparr>col_sync_status := sync_status_u8 New\<rparr>) (loginsL (clone_rows (\<lambda>m. True) t)),
       loginsM := []\<rparr>"

definition assoc_meta :: "StoreSyncAssociation \<Rightarrow> (string \<rightharpoonup> MetaValue) \<Rightarrow> (string \<rightharpoonup> MetaValue)" where
  "assoc_meta assoc m =
     (case assoc of
        Disconnected \<Rightarrow> m(GLOBAL_SYNCID_META_KEY := None, COLLECTION_SYNCID_META_KEY := None)
      | Connected ids \<Rightarrow> m(GLOBAL_SYNCID_META_KEY \<mapsto> MetaText (ids_global ids), COLLECTION_SYNCID_META_KEY \<mapsto> MetaText (ids_coll ids)))"

lemma same_rows_trans: "same_rows a b \<Longrightarrow> same_rows b c \<Longrightarrow> same_rows a c"
  by (simp add: same_rows_def)

lemma does_reset:
  "does (db_reset env assoc) (\<lambda>t _ t'. same_rows (reset_tables t) t' \<and>
     loginsSyncMeta t' = (assoc_meta assoc ((loginsSyncMeta t)(LAST_SYNC_META_KEY \<mapsto> MetaInt 0)))(GLOBAL_STATE_META_KEY := None))"
proof -
  have a: "does (case assoc of
            Disconnected \<Rightarrow> abind (delete_meta env GLOBAL_SYNCID_META_KEY) (\<lambda>_. delete_meta env COLLECTION_SYNCID_META_KEY)
          | Connected ids \<Rightarrow>
              abind (put_meta env GLOBAL_SYNCID_META_KEY (MetaText (ids_global ids))) (\<lambda>_.
              put_meta env COLLECTION_SYNCID_META_KEY (MetaText (ids_coll ids))))
      (\<lambda>t _ t'. same_rows t t' \<and> loginsSyncMeta t' = assoc_meta assoc (loginsSyncMeta t))"
  proof (cases assoc)
    case Disconnected
    then show ?thesis
      by (simp, intro does_weaken [OF does_abind [OF does_delete_meta does_delete_meta]])
        (auto simp: assoc_meta_def intro: same_rows_trans)
  next
    case (Connected ids)
    then show ?thesis
      by (simp, intro does_weaken [OF does_abind [OF does_put_meta does_put_meta]])
        (auto simp: assoc_meta_def intro: same_rows_trans)
  qed
  have z: "millis_i64 0 = 0" by (simp add: millis_i64_def as_millis_def as_u64_def wrap_i64_def)
  show ?thesis
    unfolding db_reset_def set_last_sync_def
    by (intro does_transaction does_weaken [OF does_abind [OF does_write does_abind [OF does_write does_abind [OF does_write
          does_abind [OF does_put_meta does_abind [OF a does_delete_meta]]]]]])
      (auto simp: same_rows_def reset_tables_def z clone_rows_def)
qed

lemma reset_lookup:
  "with_guid g (loginsL (reset_tables t)) =
     map_option (\<lambda>r. r\<lparr>col_sync_status := 2\<rparr>)
       (case with_guid g (loginsL t) of Some r \<Rightarrow> Some r | None \<Rightarrow> map_option (\<lambda>m. local_row m None False 0) (with_guid g (loginsM t)))"
  by (simp add: reset_tables_def clone_rows_def lookups with_guid_map split: option.splits)

lemma reset_ok: "db_ok t \<Longrightarrow> db_ok (reset_tables t)"
  by (auto simp: db_ok_def reset_tables_def clone_rows_def distinct_update_where distinct_insert_select)

lemma login_from_row_status [simp]: "login_from_row (r\<lparr>col_sync_status := n\<rparr>) = login_from_row r"
  by (simp add: login_from_row_def)

lemma reset_visible:
  assumes "\<And>g. \<not> hidden t g" shows "visible (reset_tables t) = visible t"
proof
  fix g show "visible (reset_tables t) g = visible t g"
    using assms [of g] unfolding visible_def reset_lookup
    by (auto simp: hidden_def reset_tables_def split: option.splits)
qed

definition synced_to :: "int \<Rightarrow> string list \<Rightarrow> LoginTables \<Rightarrow> LoginTables \<Rightarrow> bool" where
  "synced_to ms gs t t' \<longleftrightarrow>
     (distinct (map col_guid (loginsL t)) \<longrightarrow> distinct (map col_guid (loginsM t)) \<longrightarrow> distinct gs \<longrightarrow>
      distinct (map col_guid (loginsL t')) \<and> distinct (map col_guid (loginsM t')) \<and> loginsSyncMeta t' = loginsSyncMeta t \<and>
      (\<forall>g. with_guid g (loginsL t') = (if g \<in> set gs then None else with_guid g (loginsL t)) \<and>
           with_guid g (loginsM t') =
             (if g \<in> set gs
              then (case with_guid g (loginsL t) of
                      Some r \<Rightarrow> if col_is_deleted r then None else Some (mirror_row r ms False) | None \<Rightarrow> None)
              else with_guid g (loginsM t))))"

lemma synced_to_chunk: "synced_to ms gs t (delete_locals gs (copy_to_mirror gs ms (delete_mirrors gs t)))"
proof -
  have "with_guid g (map (\<lambda>r. mirror_row r ms False) (filter (\<lambda>r. \<not> col_is_deleted r \<and> col_guid r \<in> set gs) (loginsL t))) =
      (if g \<in> set gs then (case with_guid g (loginsL t) of
          Some r \<Rightarrow> if col_is_deleted r then None else Some (mirror_row r ms False) | None \<Rightarrow> None) else None)"
    if "distinct (map col_guid (loginsL t))" for g
    using that by (auto simp: with_guid_map with_guid_filter_distinct dest: with_guid_guid split: option.splits)
  then show ?thesis
    by (auto simp: synced_to_def delete_locals_def copy_to_mirror_def delete_mirrors_def lookups
        distinct_delete_guids distinct_insert_select split: option.splits)
qed

lemma synced_to_append:
  assumes "synced_to ms a t t1" "synced_to ms b t1 t2" shows "synced_to ms (a @ b) t t2"
  using assms unfolding synced_to_def by auto

lemma does_mark_as_synchronized:
  "does (mark_as_synchronized env gs ts) (\<lambda>t _ t'. \<exists>t1. synced_to (millis_i64 ts) gs t t1 \<and> same_rows t1 t' \<and>
     loginsSyncMeta t' = (loginsSyncMeta t1)(LAST_SYNC_META_KEY \<mapsto> MetaInt (millis_i64 ts)))"
proof -
  have "does (each_chunk env gs (\<lambda>chunk _.
         abind (sql_write env (delete_mirrors chunk)) (\<lambda>_.
         abind (scope_check env) (\<lambda>_.
         abind (sql_write env (copy_to_mirror chunk (millis_i64 ts))) (\<lambda>_.
         abind (scope_check env) (\<lambda>_.
         abind (sql_write env (delete_locals chunk)) (\<lambda>_.
         scope_check env))))))) (\<lambda>t _ t'. synced_to (millis_i64 ts) gs t t')"
  proof (rule does_each_chunk)
    fix c :: "string list" and off :: nat
    show "does (abind (sql_write env (delete_mirrors c)) (\<lambda>_.
         abind (scope_check env) (\<lambda>_.
         abind (sql_write env (copy_to_mirror c (millis_i64 ts))) (\<lambda>_.
         abind (scope_check env) (\<lambda>_.
         abind (sql_write env (delete_locals c)) (\<lambda>_.
         scope_check env)))))) (\<lambda>t _ t'. synced_to (millis_i64 ts) c t t')"
      by (intro does_weaken [OF does_abind [OF does_write does_abind [OF does_scope does_abind [OF does_write
            does_abind [OF does_scope does_abind [OF does_write does_scope]]]]]])
        (auto intro: synced_to_chunk)
  qed (auto simp: synced_to_def intro: synced_to_append)
  then show ?thesis
    unfolding mark_as_synchronized_def set_last_sync_def
    by (intro does_transaction does_weaken [OF does_abind [OF _ does_put_meta]]) auto
qed

lemma synced_to_ok:
  assumes "synced_to ms gs t t'" "db_ok t" "distinct gs" shows "db_ok t'"
  unfolding db_ok_def
proof (intro conjI allI impI)
  note l = assms(1) [unfolded synced_to_def, rule_format, OF _ _ assms(3)]
  fix g m assume "with_guid g (loginsM t') = Some m" "with_guid g (loginsL t') \<noteq> None"
  then have "with_guid g (loginsM t) = Some m" "with_guid g (loginsL t) \<noteq> None"
    using l assms(2) by (auto simp: db_ok_def split: if_splits)
  then show "col_is_overridden m" by (rule db_ok_overridden [OF assms(2)])
qed (use assms in \<open>auto simp: db_ok_def synced_to_def\<close>)

lemma synced_to_visible:
  assumes "synced_to ms gs t t'" "db_ok t" "distinct gs" "\<And>g. g \<in> set gs \<Longrightarrow> with_guid g (loginsL t) \<noteq> None"
  shows "visible t' = visible t"
proof
  fix g
  have l: "with_guid g (loginsL t') = (if g \<in> set gs then None else with_guid g (loginsL t))"
    "with_guid g (loginsM t') =
       (if g \<in> set gs
        then (case with_guid g (loginsL t) of Some r \<Rightarrow> if col_is_deleted r then None else Some (mirror_row r ms False) | None \<Rightarrow> None)
        else with_guid g (loginsM t))"
    using assms(1-3) by (auto simp: synced_to_def db_ok_def)
  show "visible t' g = visible t g"
    using assms(4) [of g] unfolding visible_def l by (auto split: option.splits)
qed


section \<open>Witnesses\<close>

definition login_env1 :: "unit LoginEnv" where
  "login_env1 = \<lparr>le_sql = ret (), le_err_if_interrupted = ret (), le_now = (\<lambda>_. 7000000000), le_random_guid = ret ''rrrrrrrrrrrr'',
     le_max_vars = 999, le_url_parse = (\<lambda>_. None), le_show_port = (\<lambda>_. [])\<rparr>"

definition login_db1 :: LoginTables where
  "login_db1 = \<lparr>loginsL = [local_row (row_of_login login1) (Some 5) False 2], loginsM = [], loginsSyncMeta = Map.empty\<rparr>"

lemma login_db1_ok: "db_ok login_db1"
  by (simp add: db_ok_def login_db1_def)

theorem queries_correct_witness:
  "get_by_id login_env1 ''aaaaaaaaaaaa'' ((), login_db1) =
     apfst (omap (\<lambda>_. visible login_db1 ''aaaaaaaaaaaa'')) (on_world (le_sql login_env1) ((), login_db1)) \<and>
   visible login_db1 ''aaaaaaaaaaaa'' = Some login1"
  using queries_correct [OF login_db1_ok, of login_env1 "''aaaaaaaaaaaa''" "()"]
  by (simp add: visible_def login_db1_def with_guid_def login1_def)

lemma mark_env1:
  "fst (mark_as_synchronized login_env1 [''aaaaaaaaaaaa''] 5 ((), login_db1)) = Ok ()"
  by (simp add: mark_as_synchronized_def transaction_def login_env1_def each_chunk_def each_sized_chunk_def chunks.simps
      abind_def get_st_def on_world_def ret_def rollback_def sql_write_def put_st_def scope_check_def set_last_sync_def put_meta_def)


end
