(* ===== verification/LoginEngine.thy ===== *)
theory LoginEngine
  imports LoginDbCorrect
begin

text \<open>
  The calls of the password engine that change the logins
  (\<^verbatim>\<open>components/logins/src/engine.rs\<close>), the contract that each of them satisfies, and the
  refinement of a map from guids to logins by the database.
\<close>

section \<open>Calls\<close>

datatype EngineCall =
  Touch string | Delete string | Wipe | WipeLocal | Reset | Update Login | Add Login

datatype EngineResult = NoResult | Existed bool | AddedId string

fun engine_call :: "'w LoginEnv \<Rightarrow> EngineCall \<Rightarrow> ('w, EngineResult) login_op" where
  "engine_call env (Touch i) = abind (db_touch env i) (\<lambda>_. ret NoResult)"
| "engine_call env (Delete i) = abind (db_delete env i) (\<lambda>b. ret (Existed b))"
| "engine_call env Wipe = abind (db_wipe env) (\<lambda>_. ret NoResult)"
| "engine_call env WipeLocal = abind (wipe_local env) (\<lambda>_. ret NoResult)"
| "engine_call env Reset = abind (db_reset env Disconnected) (\<lambda>_. ret NoResult)"
| "engine_call env (Update l) = abind (db_update env l) (\<lambda>_. ret NoResult)"
| "engine_call env (Add l) = abind (db_add env l) (\<lambda>r. ret (AddedId (login_id r)))"

section \<open>The specification: a map from guids to logins\<close>

fun spec_call :: "int \<Rightarrow> EngineCall \<Rightarrow> EngineResult \<Rightarrow> (string \<rightharpoonup> Login) \<Rightarrow> (string \<rightharpoonup> Login)" where
  "spec_call now (Touch i) r m = m(i := map_option (touched now) (m i))"
| "spec_call now (Delete i) r m = m(i := None)"
| "spec_call now Wipe r m = Map.empty"
| "spec_call now WipeLocal r m = Map.empty"
| "spec_call now Reset r m = m"
| "spec_call now (Update l) r m = m(login_id l := map_option (updated now l) (m (login_id l)))"
| "spec_call now (Add l) (AddedId i) m = m(i \<mapsto> added now i l)"
| "spec_call now (Add l) r m = m"

fun spec_result :: "EngineCall \<Rightarrow> (string \<rightharpoonup> Login) \<Rightarrow> EngineResult \<Rightarrow> bool" where
  "spec_result (Delete i) m r = (r = Existed (m i \<noteq> None))"
| "spec_result (Add l) m r = (\<exists>i. r = AddedId i \<and> (login_id l \<noteq> [] \<longrightarrow> i = login_id l))"
| "spec_result _ m r = (r = NoResult)"

text \<open>
  When the two agree: the guid of a touched or updated login is not hidden behind an overridden
  mirror row, nothing is hidden when the store is reset, and an added guid is not in the mirror.
\<close>

fun agrees :: "EngineCall \<Rightarrow> LoginTables \<Rightarrow> EngineResult \<Rightarrow> bool" where
  "agrees (Touch i) t r = (\<not> hidden t i)"
| "agrees (Update l) t r = (\<not> hidden t (login_id l))"
| "agrees Reset t r = (\<forall>g. \<not> hidden t g)"
| "agrees (Add l) t (AddedId i) = (with_guid i (loginsM t) = None)"
| "agrees _ t r = True"

section \<open>The contract of an operation\<close>

locale login_operation =
  fixes m :: "('w, 'a) login_op"
    and pre :: "LoginTables \<Rightarrow> 'a \<Rightarrow> bool"
    and post :: "LoginTables \<Rightarrow> 'a \<Rightarrow> LoginTables \<Rightarrow> bool"
  assumes atomic_op: "atomic m"
    and post_op: "m (w, t) = (Ok a, (w', t')) \<Longrightarrow> db_ok t \<Longrightarrow> pre t a \<Longrightarrow> db_ok t' \<and> post t a t'"
begin

lemma wrapped:
  assumes "abind m (\<lambda>a. ret (g a)) (w, t) = (r, (w', t'))" "db_ok t" "\<And>a. r = Ok (g a) \<Longrightarrow> pre t a"
  shows "db_ok t' \<and> (case r of Ok b \<Rightarrow> \<exists>a. b = g a \<and> post t a t' | _ \<Rightarrow> t' = t)"
  using assms(1)
proof (cases rule: abind_cases)
  case (Ok a s1)
  then have "m (w, t) = (Ok a, (w', t'))" "r = Ok (g a)" by (auto simp: ret_def)
  then show ?thesis using post_op assms(2,3) by auto
next
  case (Err e)
  then have "t' = t" using atomic_op by (simp add: atomic_def)
  then show ?thesis using Err assms(2) by simp
next
  case (Panic p)
  then have "t' = t" using atomic_op by (simp add: atomic_def)
  then show ?thesis using Panic assms(2) by simp
qed

end

lemma visible_empty: "visible empty_tables = Map.empty"
  by (simp add: visible_def empty_tables_def fun_eq_iff)

lemma login_operationI:
  assumes "atomic m" "does m R" "\<And>t a t'. R t a t' \<Longrightarrow> db_ok t \<Longrightarrow> pre t a \<Longrightarrow> db_ok t' \<and> post t a t'"
  shows "login_operation m pre post"
  using assms by unfold_locales (auto dest: doesD)

interpretation touch_op: login_operation "db_touch env i" "\<lambda>t _. \<not> hidden t i"
    "\<lambda>t _ t'. \<exists>now. visible t' = (visible t)(i := map_option (touched now) (visible t i))" for env i
  by (rule login_operationI [OF _ does_touch])
    (auto simp: db_touch_def atomic_transaction overlay_updated_ok touch_visible)

interpretation update_op: login_operation "db_update env l" "\<lambda>t _. \<not> hidden t (login_id l)"
    "\<lambda>t _ t'. \<exists>now. visible t' = (visible t)(login_id l := map_option (updated now l) (visible t (login_id l)))" for env l
  by (rule login_operationI [OF _ does_update])
    (auto simp: db_update_def atomic_transaction atomic_lift_then overlay_updated_ok update_visible)

interpretation add_op: login_operation "db_add env l" "\<lambda>t a. with_guid (login_id a) (loginsM t) = None"
    "\<lambda>t a t'. \<exists>now. a = added now (login_id a) l \<and> (login_id l \<noteq> [] \<longrightarrow> login_id a = login_id l) \<and>
       visible t' = (visible t)(login_id a \<mapsto> a)" for env l
  by (rule login_operationI [OF _ does_add])
    (auto simp: db_add_def atomic_transaction atomic_lift_then add_ok add_visible)

interpretation delete_op: login_operation "db_delete env i" "\<lambda>t _. True"
    "\<lambda>t b t'. b = (visible t i \<noteq> None) \<and> visible t' = (visible t)(i := None)" for env i
  by (rule login_operationI [OF _ does_delete])
    (auto simp: db_delete_def atomic_transaction delete_ok delete_visible exists_rows_visible)

interpretation wipe_op: login_operation "db_wipe env" "\<lambda>t _. True" "\<lambda>t _ t'. visible t' = Map.empty" for env
  by (rule login_operationI [OF _ does_wipe]) (auto simp: db_wipe_def atomic_transaction wipe_ok wipe_visible)

interpretation wipe_local_op: login_operation "wipe_local env" "\<lambda>t _. True" "\<lambda>t _ t'. visible t' = Map.empty" for env
  by (rule login_operationI [OF _ does_wipe_local])
    (auto simp: wipe_local_def atomic_transaction db_ok_empty visible_empty)

interpretation reset_op: login_operation "db_reset env assoc" "\<lambda>t _. \<forall>g. \<not> hidden t g" "\<lambda>t _ t'. visible t' = visible t" for env assoc
  by (rule login_operationI [OF _ does_reset])
    (auto simp: db_reset_def atomic_transaction same_rows_ok same_rows_visible reset_ok reset_visible)


section \<open>When a call succeeds\<close>

definition sql_works :: "'w LoginEnv \<Rightarrow> bool" where
  "sql_works env \<longleftrightarrow> (\<forall>w. is_Ok (fst (le_sql env w))) \<and> (\<forall>w. is_Ok (fst (le_err_if_interrupted env w)))"

definition ok_iff :: "('w, 'a) login_op \<Rightarrow> (LoginTables \<Rightarrow> bool) \<Rightarrow> LoginError \<Rightarrow> bool" where
  "ok_iff m P e \<longleftrightarrow> (\<forall>w t. if P t then is_Ok (fst (m (w, t))) else fst (m (w, t)) = Err e)"

abbreviation succeeds :: "('w, 'a) login_op \<Rightarrow> bool" where
  "succeeds m \<equiv> (\<forall>w t. is_Ok (fst (m (w, t))))"

lemma succeeds_abind: "succeeds m \<Longrightarrow> (\<And>a. succeeds (f a)) \<Longrightarrow> succeeds (abind m f)"
  by (auto simp: abind_def is_Ok_iff split: prod.splits outcome.splits) (metis fst_conv outcome.distinct(1,3))+

lemma ok_iff_abind: "ok_iff m P e \<Longrightarrow> (\<And>a. succeeds (f a)) \<Longrightarrow> ok_iff (abind m f) P e"
  unfolding ok_iff_def
proof (intro allI)
  fix w t assume m: "\<forall>w t. if P t then is_Ok (fst (m (w, t))) else fst (m (w, t)) = Err e" and f: "\<And>a. succeeds (f a)"
  obtain r w' t' where r: "m (w, t) = (r, (w', t'))" by (metis prod.collapse)
  then show "if P t then is_Ok (fst (abind m f (w, t))) else fst (abind m f (w, t)) = Err e"
    using m [rule_format, of t w] f by (cases r) (auto simp: abind_def split: if_splits)
qed

lemma on_world_fst: "fst (on_world m (w, t)) = fst (m w)"
  by (simp add: on_world_def split: prod.splits)

lemma succeeds_basic:
  assumes "sql_works env"
  shows "succeeds (on_world (le_sql env))" "succeeds (sql_write env f)" "succeeds (sql_read env q)" "succeeds (scope_check env)"
    "succeeds (sql_insert env f)"
proof -
  show e: "succeeds (on_world (le_sql env))" using assms by (simp add: on_world_fst sql_works_def)
  show "succeeds (scope_check env)" using assms by (simp add: scope_check_def on_world_fst sql_works_def)
  show "succeeds (sql_write env f)" "succeeds (sql_read env q)" "succeeds (sql_insert env f)"
    unfolding sql_write_def sql_read_def sql_insert_def
    by (rule succeeds_abind [OF e], simp add: put_st_def ret_def)+
qed

lemma succeeds_now: "succeeds (now_millis env)"
  by (simp add: now_millis_def now_ns_def abind_def get_st_def ret_def)

lemma succeeds_ret: "succeeds (ret a)"
  by (simp add: ret_def)

lemma ok_iff_transaction:
  assumes "sql_works env" "ok_iff m P e" shows "ok_iff (transaction env m) P e"
  unfolding ok_iff_def
proof (intro allI)
  fix w and t :: LoginTables
  obtain r w1 where r: "le_sql env w = (r, w1)" by (metis prod.collapse)
  moreover have "is_Ok r" using assms(1) r by (metis sql_works_def fst_conv)
  ultimately obtain u where b: "on_world (le_sql env) (w, t) = (Ok u, (w1, t))"
    by (auto simp: on_world_def is_Ok_iff)
  have k: "ok_iff (abind m (\<lambda>a. abind (on_world (le_sql env)) (\<lambda>_. ret a))) P e"
    by (intro ok_iff_abind assms(2) succeeds_abind succeeds_basic [OF assms(1)] succeeds_ret)
  have "fst (transaction env m (w, t)) = fst (abind m (\<lambda>a. abind (on_world (le_sql env)) (\<lambda>_. ret a)) (w1, t))"
    by (auto simp: transaction_def b abind_simps(1) [where m = "on_world (le_sql env)" and s = "(w, t)", OF b] rollback_def split: prod.splits outcome.splits)
  then show "if P t then is_Ok (fst (transaction env m (w, t))) else fst (transaction env m (w, t)) = Err e"
    using k by (simp add: ok_iff_def)
qed

lemma succeeds_iff: "succeeds m \<longleftrightarrow> ok_iff m (\<lambda>t. True) e"
  by (simp add: ok_iff_def)

lemma succeeds_transaction: "sql_works env \<Longrightarrow> succeeds m \<Longrightarrow> succeeds (transaction env m)"
  unfolding succeeds_iff [where e = LoginInterrupted] by (rule ok_iff_transaction)

definition has_row :: "string \<Rightarrow> LoginTables \<Rightarrow> bool" where
  "has_row g t \<longleftrightarrow> with_guid g (loginsL t) \<noteq> None \<or> with_guid g (loginsM t) \<noteq> None"

lemma insert_select_grows: "length rows \<le> length (insert_select new rows)"
proof (induction new arbitrary: rows)
  case (Cons r new)
  have "length rows \<le> length (insert_or_ignore r rows)" by (simp add: insert_or_ignore_def)
  also have "\<dots> \<le> length (insert_select new (insert_or_ignore r rows))" by (rule Cons.IH)
  finally show ?case by (simp add: insert_select_def)
qed simp

lemma insert_select_adds:
  assumes "g \<notin> col_guid ` set rows" "g \<in> col_guid ` set new" shows "length rows < length (insert_select new rows)"
proof (rule ccontr)
  assume "\<not> length rows < length (insert_select new rows)"
  then have l: "length (insert_select new rows) \<le> length rows" by simp
  obtain xs where xs: "insert_select new rows = rows @ xs"
  proof -
    have "\<exists>xs. insert_select new rows = rows @ xs"
      unfolding insert_select_def
    proof (induction new arbitrary: rows)
      case (Cons r new)
      then show ?case by (auto simp: insert_or_ignore_def) (metis append.assoc)
    qed simp
    then show thesis using that by blast
  qed
  have "xs = []" using l by (simp add: xs)
  then have "with_guid g (insert_select new rows) = with_guid g rows" by (simp add: xs)
  moreover have "with_guid g rows = None" "with_guid g new \<noteq> None" using assms by (simp_all add: with_guid_None_iff)
  ultimately show False by (simp add: with_guid_insert_select)
qed

lemma succeeds_result:
  assumes "succeeds m" "does m R" shows "\<exists>a w' t'. m (w, t) = (Ok a, (w', t')) \<and> R t a t'"
proof -
  obtain r w' t' where m: "m (w, t) = (r, (w', t'))" by (metis prod.collapse)
  then obtain a where "r = Ok a" using assms(1) by (metis is_Ok_iff fst_conv)
  then show ?thesis using m doesD [OF assms(2)] by blast
qed

lemma ok_iff_ensure:
  assumes "sql_works env" shows "ok_iff (ensure_local_overlay_exists env g) (has_row g) (NoSuchRecord g)"
  unfolding ok_iff_def
proof (intro allI)
  fix w and t :: LoginTables
  have read: "\<exists>w'. sql_read env q (w, t) = (Ok (q t), (w', t))" for q :: "LoginTables \<Rightarrow> bool" and w
    using succeeds_result [OF succeeds_basic(3) [OF assms] does_read, of q w t] by auto
  have ins: "\<exists>w'. sql_insert env f (w, t) = (Ok (length (loginsL (f t)) - length (loginsL t)), (w', f t))" for f w
    using succeeds_result [OF succeeds_basic(5) [OF assms] does_insert, of f w t] by auto
  obtain w1 where w1: "sql_read env (\<lambda>t. list_ex (\<lambda>r. col_guid r = g) (loginsL t)) (w, t) =
      (Ok (list_ex (\<lambda>r. col_guid r = g) (loginsL t)), (w1, t))" using read by blast
  let ?c = "clone_rows (\<lambda>m. col_guid m = g)"
  obtain w2 where w2: "clone_mirror_to_overlay env g (w1, t) = (Ok (length (loginsL (?c t)) - length (loginsL t)), (w2, ?c t))"
    unfolding clone_mirror_to_overlay_def using ins by blast
  have n: "length (loginsL (?c t)) - length (loginsL t) = 0 \<longleftrightarrow> with_guid g (loginsM t) = None" if "with_guid g (loginsL t) = None"
  proof (cases "with_guid g (loginsM t)")
    case None
    then have "filter (\<lambda>m. col_guid m = g) (loginsM t) = []" by (auto simp: with_guid_None_iff filter_empty_conv)
    then show ?thesis using None by (simp add: clone_rows_def)
  next
    case (Some m)
    then have "g \<in> col_guid ` set (map (\<lambda>m. local_row m None False (sync_status_u8 Synced)) (filter (\<lambda>m. col_guid m = g) (loginsM t)))"
      by (force dest: with_guid_SomeD)
    then have "length (loginsL t) < length (insert_select
        (map (\<lambda>m. local_row m None False (sync_status_u8 Synced)) (filter (\<lambda>m. col_guid m = g) (loginsM t))) (loginsL t))"
      using that by (intro insert_select_adds [of g]) (simp_all only: with_guid_None_iff not_False_eq_True)
    then have "length (loginsL t) < length (loginsL (?c t))" by (simp add: clone_rows_def)
    then show ?thesis using Some by simp
  qed
  show "if has_row g t then is_Ok (fst (ensure_local_overlay_exists env g (w, t)))
      else fst (ensure_local_overlay_exists env g (w, t)) = Err (NoSuchRecord g)"
    using n unfolding ensure_local_overlay_exists_def abind_def w1
    by (auto simp: w2 list_ex_with_guid has_row_def ret_def throw_def)
qed

fun call_error :: "EngineCall \<Rightarrow> LoginTables \<Rightarrow> LoginError option" where
  "call_error (Touch i) t = (if has_row i t then None else Some (NoSuchRecord i))"
| "call_error (Update l) t = (case check_valid l of
     Err e \<Rightarrow> Some e | _ \<Rightarrow> if has_row (login_id l) t then None else Some (NoSuchRecord (login_id l)))"
| "call_error (Add l) t = (case check_valid l of
     Err e \<Rightarrow> Some e | _ \<Rightarrow> if with_guid (login_id l) (loginsL t) = None then None else Some (DuplicateGuid (login_id l)))"
| "call_error _ t = None"

lemma check_valid_not_panic: "check_valid l = Panic p \<Longrightarrow> False"
  by (auto simp: check_valid_def split: if_splits)

lemma fst_lift_then:
  "fst (abind (lift (check_valid l)) f s) = (case check_valid l of Err e \<Rightarrow> Err e | _ \<Rightarrow> fst (f () s))"
  by (auto simp: abind_lift dest: check_valid_not_panic split: outcome.splits)

lemma ok_iff_overlay_op:
  assumes "sql_works env" "\<And>now. succeeds (f now)"
  shows "ok_iff (transaction env (abind (ensure_local_overlay_exists env g) (\<lambda>_.
     abind (mark_mirror_overridden env g) (\<lambda>_. abind (now_millis env) f)))) (has_row g) (NoSuchRecord g)"
  unfolding mark_mirror_overridden_def
  by (intro ok_iff_transaction ok_iff_abind ok_iff_ensure succeeds_abind succeeds_basic succeeds_now assms)

lemma ok_iff_now: "(\<And>n. ok_iff (f n) P e) \<Longrightarrow> ok_iff (abind (now_millis env) f) P e"
  by (simp add: ok_iff_def now_millis_def now_ns_def abind_def get_st_def ret_def)

lemma ok_iff_add_body:
  assumes "sql_works env" "login_id l \<noteq> []"
  shows "ok_iff (transaction env (
       abind (now_millis env) (\<lambda>now_ms.
       abind (if login_id l = [] then on_world (expect_guid (le_random_guid env)) else ret (login_id l)) (\<lambda>i.
       let login = l\<lparr>login_id := i, time_created := now_ms, time_password_changed := now_ms,
                         time_last_used := now_ms, times_used := 1\<rparr> in
       abind (sql_insert env (\<lambda>t. t\<lparr>loginsL := insert_or_ignore
                (local_row (row_of_login login) (Some now_ms) False (sync_status_u8 New)) (loginsL t)\<rparr>)) (\<lambda>rows_changed.
       if rows_changed = 0 then throw (DuplicateGuid (login_id login)) else ret login)))))
     (\<lambda>t. with_guid (login_id l) (loginsL t) = None) (DuplicateGuid (login_id l))"
proof (intro ok_iff_transaction assms(1))
  have ins: "\<exists>w'. sql_insert env f (w, t) = (Ok (length (loginsL (f t)) - length (loginsL t)), (w', f t))" for f w t
    using succeeds_result [OF succeeds_basic(5) [OF assms(1)] does_insert, of f w t] by auto
  have m: "ok_iff (let login = l\<lparr>login_id := login_id l, time_created := now, time_password_changed := now,
                         time_last_used := now, times_used := 1\<rparr> in
       abind (sql_insert env (\<lambda>t. t\<lparr>loginsL := insert_or_ignore
                (local_row (row_of_login login) (Some now) False (sync_status_u8 New)) (loginsL t)\<rparr>)) (\<lambda>rows_changed.
       if rows_changed = 0 then throw (DuplicateGuid (login_id login)) else ret login))
      (\<lambda>t. with_guid (login_id l) (loginsL t) = None) (DuplicateGuid (login_id l))" for now
    unfolding ok_iff_def Let_def
  proof (intro allI)
    fix w and t :: LoginTables
    let ?l = "l\<lparr>login_id := login_id l, time_created := now, time_password_changed := now, time_last_used := now, times_used := 1\<rparr>"
    let ?f = "\<lambda>t. t\<lparr>loginsL := insert_or_ignore (local_row (row_of_login ?l) (Some now) False (sync_status_u8 New)) (loginsL t)\<rparr>"
    obtain w' where w': "sql_insert env ?f (w, t) = (Ok (length (loginsL (?f t)) - length (loginsL t)), (w', ?f t))"
      using ins by blast
    show "if with_guid (login_id l) (loginsL t) = None
        then is_Ok (fst (abind (sql_insert env ?f) (\<lambda>n. if n = 0 then throw (DuplicateGuid (login_id ?l)) else ret ?l) (w, t)))
        else fst (abind (sql_insert env ?f) (\<lambda>n. if n = 0 then throw (DuplicateGuid (login_id ?l)) else ret ?l) (w, t)) =
          Err (DuplicateGuid (login_id l))"
      unfolding abind_def w' by (auto simp: insert_or_ignore_def with_guid_None_iff throw_def ret_def)
  qed
  show "ok_iff (abind (now_millis env) (\<lambda>now_ms.
       abind (if login_id l = [] then on_world (expect_guid (le_random_guid env)) else ret (login_id l)) (\<lambda>i.
       let login = l\<lparr>login_id := i, time_created := now_ms, time_password_changed := now_ms,
                         time_last_used := now_ms, times_used := 1\<rparr> in
       abind (sql_insert env (\<lambda>t. t\<lparr>loginsL := insert_or_ignore
                (local_row (row_of_login login) (Some now_ms) False (sync_status_u8 New)) (loginsL t)\<rparr>)) (\<lambda>rows_changed.
       if rows_changed = 0 then throw (DuplicateGuid (login_id login)) else ret login))))
     (\<lambda>t. with_guid (login_id l) (loginsL t) = None) (DuplicateGuid (login_id l))"
    by (rule ok_iff_now) (simp only: assms(2) if_False abind_ret_fun m)
qed

lemma add_body:
  assumes "sql_works env" "login_id l \<noteq> []"
  obtains tr where "db_add env l = abind (lift (check_valid l)) (\<lambda>_. tr)"
    "ok_iff tr (\<lambda>t. with_guid (login_id l) (loginsL t) = None) (DuplicateGuid (login_id l))"
  by (rule that [OF db_add_def ok_iff_add_body [OF assms]])

text \<open>
  C31. Which calls of the password engine succeed, when SQLite works and nothing interrupts: deleting,
  wiping and resetting always; touching and updating exactly when the guid has a row, and
  otherwise the error is \<^verbatim>\<open>NoSuchRecord\<close>; adding under a given guid exactly when it has no
  local row, and otherwise the error is \<^verbatim>\<open>DuplicateGuid\<close>; an invalid login is refused first.
\<close>

theorem engine_call_succeeds:
  assumes "sql_works env" and "\<forall>l. call = Add l \<longrightarrow> login_id l \<noteq> []"
  shows "case call_error call t of
      Some e \<Rightarrow> fst (engine_call env call (w, t)) = Err e
    | None \<Rightarrow> is_Ok (fst (engine_call env call (w, t)))"
proof -
  have fin: "fst (abind m (\<lambda>a. ret (g a)) s) = omap g (fst (m s))" for m :: "('w, 'x) login_op" and g :: "'x \<Rightarrow> EngineResult" and s
    by (auto simp: abind_def ret_def split: prod.splits outcome.splits)
  have fin_Ok: "is_Ok (omap g r) = is_Ok r" for g :: "'x \<Rightarrow> EngineResult" and r :: "(LoginError, 'x) outcome" by (cases r) auto
  note [simp] = fin fin_Ok
  note simple = succeeds_transaction succeeds_abind succeeds_basic succeeds_now succeeds_ret assms(1)
  show ?thesis
  proof (cases call)
    case (Touch i)
    have "ok_iff (db_touch env i) (has_row i) (NoSuchRecord i)"
      unfolding db_touch_def by (intro ok_iff_overlay_op simple)
    then show ?thesis using Touch by (auto simp: ok_iff_def)
  next
    case (Delete i)
    have "succeeds (db_delete env i)" unfolding db_delete_def db_exists_def by (intro simple)
    then show ?thesis using Delete by simp
  next
    case Wipe
    have "succeeds (db_wipe env)" unfolding db_wipe_def by (intro simple)
    then show ?thesis using Wipe by simp
  next
    case WipeLocal
    have "succeeds (wipe_local env)" unfolding wipe_local_def by (intro simple)
    then show ?thesis using WipeLocal by simp
  next
    case Reset
    have "succeeds (db_reset env Disconnected)"
      unfolding db_reset_def set_last_sync_def put_meta_def delete_meta_def by (simp, intro simple)
    then show ?thesis using Reset by simp
  next
    case (Update l)
    let ?tr = "transaction env (abind (ensure_local_overlay_exists env (login_id l)) (\<lambda>_.
       abind (mark_mirror_overridden env (login_id l)) (\<lambda>_. abind (now_millis env) (\<lambda>now_ms.
       sql_write env (\<lambda>t. t\<lparr>loginsL := update_where (\<lambda>r. col_guid r = login_id l) (update_row now_ms l) (loginsL t)\<rparr>)))))"
    have "ok_iff ?tr (has_row (login_id l)) (NoSuchRecord (login_id l))"
      by (intro ok_iff_overlay_op simple)
    then have u: "if has_row (login_id l) t then is_Ok (fst (?tr (w, t))) else fst (?tr (w, t)) = Err (NoSuchRecord (login_id l))"
      by (simp add: ok_iff_def)
    have "fst (db_update env l (w, t)) = (case check_valid l of Err e \<Rightarrow> Err e | _ \<Rightarrow> fst (?tr (w, t)))"
      unfolding db_update_def by (rule fst_lift_then)
    then show ?thesis using u Update check_valid_not_panic [of l] by (cases "check_valid l") (auto split: if_splits)
  next
    case (Add l)
    then have "login_id l \<noteq> []" using assms(2) by simp
    then obtain tr where tr: "db_add env l = abind (lift (check_valid l)) (\<lambda>_. tr)"
        "ok_iff tr (\<lambda>t. with_guid (login_id l) (loginsL t) = None) (DuplicateGuid (login_id l))"
      using add_body [OF assms(1)] by blast
    have "fst (db_add env l (w, t)) = (case check_valid l of Err e \<Rightarrow> Err e | _ \<Rightarrow> fst (tr (w, t)))"
      unfolding tr(1) by (rule fst_lift_then)
    then show ?thesis using tr(2) Add check_valid_not_panic [of l] unfolding ok_iff_def
      by (cases "check_valid l") (auto split: if_splits)
  qed
qed

section \<open>Witnesses\<close>

lemma sql_works_env1: "sql_works login_env1"
  by (simp add: sql_works_def login_env1_def ret_def)

theorem engine_call_succeeds_witness:
  "fst (engine_call login_env1 (Add login1) ((), login_db1)) = Err (DuplicateGuid ''aaaaaaaaaaaa'')"
proof -
  have "call_error (Add login1) login_db1 = Some (DuplicateGuid ''aaaaaaaaaaaa'')"
    by (simp add: check_valid_def login1_def login_db1_def with_guid_def)
  then show ?thesis
    using engine_call_succeeds [OF sql_works_env1, where call = "Add login1" and t = login_db1 and w = "()"] by (simp add: login1_def)
qed


end
