(* ===== verification/Synchronize.thy ===== *)
theory Synchronize
  imports CollStateMachine "HOL-Library.AList"
begin

text \<open>
  Synchronizing one store (\<^verbatim>\<open>components/sync15/src/sync.rs\<close>) and several stores
  (\<^verbatim>\<open>sync_multiple.rs\<close>). Telemetry only counts and is left out.
\<close>

section \<open>One store\<close>

record 'w SyncEnv =
  sy_debug :: bool
  sy_crypto :: "'w Crypto"
  sy_payload :: PayloadJson
  sy_serde :: Serde
  sy_get_records :: "CollectionRequest \<Rightarrow> ('w, ErrorKind, EncryptedBso list Sync15ClientResponse) action"
  sy_poster :: "string \<Rightarrow> 'w poster"
  sy_was_interrupted :: "'w \<Rightarrow> bool"

definition check_interrupt :: "'w SyncEnv \<Rightarrow> ('w, ErrorKind, unit) action" where
  "check_interrupt env w = (if sy_was_interrupted env w then (Err Interrupted, w) else (Ok (), w))"

text \<open>\<open>fetch_into\<close> hands the changed collection state on, the way the code does with \<^verbatim>\<open>&mut coll_state\<close>.\<close>

definition fetch_into ::
    "'w SyncEnv \<Rightarrow> CollState \<Rightarrow> string \<Rightarrow> CollectionRequest \<Rightarrow>
     ('w, ErrorKind, IncomingChangeset \<times> CollState) action" where
  "fetch_into env coll_state collection request w =
     (case fetch (sy_crypto env) (sy_payload env) (sy_get_records env) collection request (w, coll_state) of
        (r, (w', coll_state')) \<Rightarrow> (omap (\<lambda>incoming. (incoming, coll_state')) r, w'))"

definition synchronize ::
    "'w SyncEnv \<Rightarrow> GlobalState \<Rightarrow> 'w Store \<Rightarrow> bool \<Rightarrow> ('w, ErrorKind, unit) action" where
  "synchronize env global_state store fully_atomic =
     abind (get_state global_state store) (\<lambda>state.
     case state of
       None \<Rightarrow> ret ()
     | Some coll_state \<Rightarrow>
         abind (try_as StoreError (get_collection_request store)) (\<lambda>request.
         abind (check_interrupt env) (\<lambda>_.
         abind (fetch_into env coll_state (collection_name store) request) (\<lambda>(incoming, coll_state).
         abind (assert_that (rc_timestamp incoming = cs_last_modified coll_state) ''assertion failed: (left == right)'') (\<lambda>_.
         let new_timestamp = rc_timestamp incoming in
         abind (try_as StoreError (apply_incoming store incoming)) (\<lambda>outgoing.
         abind (check_interrupt env) (\<lambda>_.
         let outgoing = outgoing\<lparr>rc_timestamp := new_timestamp\<rparr>;
             coll_state = coll_state\<lparr>cs_last_modified := new_timestamp\<rparr> in
         abind (changeset_post (sy_debug env) (sy_crypto env) (sy_payload env) (sy_serde env) (sy_poster env)
                  coll_state outgoing fully_atomic) (\<lambda>upload_info.
         try_as StoreError (sync_finished store (ui_modified_timestamp upload_info) (ui_successful_ids upload_info))))))))))"

text \<open>
  The same as a pipeline: download and decrypt, let the store merge, upload under the timestamp
  of the download, tell the store what the server accepted.
\<close>

definition merge_and_upload ::
    "'w SyncEnv \<Rightarrow> CollState \<Rightarrow> 'w Store \<Rightarrow> bool \<Rightarrow> EncryptedBso list \<Rightarrow> ServerTimestamp \<Rightarrow>
     ('w, ErrorKind, unit) action" where
  "merge_and_upload env coll_state store fully_atomic records timestamp =
     abind (lift (omapM (bso_decrypt (sy_crypto env) (payload_from_str (sy_payload env)) (cs_key coll_state)) records)) (\<lambda>ds.
     abind (try_as StoreError (apply_incoming store
              \<lparr>changes = map into_timestamped_payload ds, rc_timestamp = timestamp,
               rc_collection = collection_name store\<rparr>)) (\<lambda>outgoing.
     abind (check_interrupt env) (\<lambda>_.
     abind (amapM (\<lambda>change. bso_encrypt (sy_crypto env) (payload_to_str (sy_payload env)) (cs_key coll_state)
              (into_bso (rc_collection outgoing) change)) (changes outgoing)) (\<lambda>bsos.
     abind (upload (sy_debug env) (sy_serde env) (sy_poster env (rc_collection outgoing))
              \<lparr>cu_config = cs_config coll_state, cu_collection = rc_collection outgoing, cu_xius = timestamp,
               cu_to_update = bsos, cu_fully_atomic = fully_atomic\<rparr>) (\<lambda>info.
     try_as StoreError (sync_finished store (ui_modified_timestamp info) (ui_successful_ids info)))))))"

definition sync_spec :: "'w SyncEnv \<Rightarrow> GlobalState \<Rightarrow> 'w Store \<Rightarrow> bool \<Rightarrow> ('w, ErrorKind, unit) action" where
  "sync_spec env global_state store fully_atomic =
     abind (coll_state_spec global_state store) (\<lambda>state.
     case state of
       None \<Rightarrow> ret ()
     | Some coll_state \<Rightarrow>
         abind (try_as StoreError (get_collection_request store)) (\<lambda>request.
         abind (check_interrupt env) (\<lambda>_.
         abind (sy_get_records env request) (\<lambda>resp.
         case resp of
           Success records timestamp _ \<Rightarrow> merge_and_upload env coll_state store fully_atomic records timestamp
         | other \<Rightarrow> throw (create_storage_error other)))))"

lemma fetch_into_eq:
  "abind (fetch_into env coll_state name request) f =
     abind (sy_get_records env request) (\<lambda>resp.
       case resp of
         Success records timestamp _ \<Rightarrow>
           abind (lift (omapM (bso_decrypt (sy_crypto env) (payload_from_str (sy_payload env)) (cs_key coll_state)) records)) (\<lambda>ds.
           f (\<lparr>changes = map into_timestamped_payload ds, rc_timestamp = timestamp, rc_collection = name\<rparr>,
              coll_state\<lparr>cs_last_modified := timestamp\<rparr>))
       | other \<Rightarrow> throw (create_storage_error other))"
proof (rule ext)
  fix w
  obtain r w' where g: "sy_get_records env request w = (r, w')" by (rule prod.exhaust)
  show "abind (fetch_into env coll_state name request) f w =
     abind (sy_get_records env request) (\<lambda>resp.
       case resp of
         Success records timestamp _ \<Rightarrow>
           abind (lift (omapM (bso_decrypt (sy_crypto env) (payload_from_str (sy_payload env)) (cs_key coll_state)) records)) (\<lambda>ds.
           f (\<lparr>changes = map into_timestamped_payload ds, rc_timestamp = timestamp, rc_collection = name\<rparr>,
              coll_state\<lparr>cs_last_modified := timestamp\<rparr>))
       | other \<Rightarrow> throw (create_storage_error other)) w"
    by (cases r) (auto simp: g fetch_into_def fetch_def abind_def lift_def throw_def changeset_new_def
        split: Sync15ClientResponse.splits outcome.splits)
qed

lemma assert_true: "abind (assert_that True msg) f = f ()"
  by (rule ext) (simp add: abind_assert)


section \<open>Several stores\<close>

record Sync15StorageClientInit =
  init_key_id :: string
  init_access_token :: string
  init_tokenserver_url :: string

text \<open>The state of a client, \<open>'c\<close>, travels beside the rest of the world, \<open>'w\<close>.\<close>

record 'c MemoryCachedState =
  last_client_info :: "(Sync15StorageClientInit \<times> 'c) option"
  last_global_state :: "GlobalState option"

record ('w, 'c) MultiEnv =
  me_client_new :: "Sync15StorageClientInit \<Rightarrow> (ErrorKind, 'c) outcome"
  me_setup :: "Sync15StorageClientInit \<Rightarrow> ('w \<times> 'c) SetupEnv"
  me_sync :: "Sync15StorageClientInit \<Rightarrow> ('w \<times> 'c) SyncEnv"
  me_hashed_uid :: "Sync15StorageClientInit \<Rightarrow> ('w \<times> 'c, ErrorKind, string) action"
  me_pgs_from_str :: "string \<Rightarrow> (string, PersistedGlobalState) outcome"
  me_pgs_to_str :: "PersistedGlobalState \<Rightarrow> (string, string) outcome"
  me_was_interrupted :: "'w \<Rightarrow> bool"

text \<open>
  The loop over the stores. \<open>failures\<close> is the map of errors by name, as an association list; a
  panic of a store is not caught.
\<close>

fun sync_stores ::
    "'w SyncEnv \<Rightarrow> GlobalState \<Rightarrow> 'w Store list \<Rightarrow> (string \<times> ErrorKind) list \<Rightarrow>
     ('w, ErrorKind, (string \<times> ErrorKind) list) action" where
  "sync_stores env gs [] failures = ret failures"
| "sync_stores env gs (store # stores) failures = (\<lambda>w.
     case synchronize env gs store True w of
       (Panic p, w') \<Rightarrow> (Panic p, w')
     | (Ok _, w') \<Rightarrow> abind (check_interrupt env) (\<lambda>_. sync_stores env gs stores failures) w'
     | (Err e, w') \<Rightarrow> abind (check_interrupt env)
          (\<lambda>_. sync_stores env gs stores (AList.update (collection_name store) e failures)) w')"

definition parse_pgs :: "('w, 'c) MultiEnv \<Rightarrow> string option \<Rightarrow> PersistedGlobalState" where
  "parse_pgs env persisted = (case persisted of
       Some s \<Rightarrow> (case me_pgs_from_str env s of Ok state \<Rightarrow> state | _ \<Rightarrow> pgs_default)
     | None \<Rightarrow> pgs_default)"

definition reuse_client ::
    "('w, 'c) MultiEnv \<Rightarrow> Sync15StorageClientInit \<Rightarrow> (Sync15StorageClientInit \<times> 'c) option \<Rightarrow> (ErrorKind, 'c) outcome" where
  "reuse_client env storage_init info = (case info of
       Some (client_init, client) \<Rightarrow>
         if client_init \<noteq> storage_init then me_client_new env storage_init else Ok client
     | None \<Rightarrow> me_client_new env storage_init)"

text \<open>The state is the world, the caller's persisted string and the cached state.\<close>

definition sync_multiple ::
    "('w, 'c) MultiEnv \<Rightarrow> ('w \<times> 'c) Store list \<Rightarrow> Sync15StorageClientInit \<Rightarrow>
     ('w \<times> string option \<times> 'c MemoryCachedState, ErrorKind, (string \<times> ErrorKind) list) action" where
  "sync_multiple env stores storage_init = (\<lambda>(w, persisted, mem).
     if me_was_interrupted env w then (Err Interrupted, (w, persisted, mem))
     else
       let pgs = parse_pgs env persisted;
           client = reuse_client env storage_init (last_client_info mem);
           mem = mem\<lparr>last_client_info := None\<rparr> in
       case client of
         Err e \<Rightarrow> (Err e, (w, persisted, mem))
       | Panic p \<Rightarrow> (Panic p, (w, persisted, mem))
       | Ok c \<Rightarrow>
         if me_was_interrupted env w then (Err Interrupted, (w, persisted, mem))
         else
           let last_state = last_global_state mem; mem = mem\<lparr>last_global_state := None\<rparr> in
           case run_to_ready (me_setup env storage_init) last_state ((w, c), for_full_sync pgs) of
             (Err e, ((w, c), m)) \<Rightarrow> (Err e, (w, persisted, mem))
           | (Panic p, ((w, c), m)) \<Rightarrow> (Panic p, (w, persisted, mem))
           | (Ok state, ((w, c), m)) \<Rightarrow>
             (case me_pgs_to_str env (sm_pgs m) of
                Err e \<Rightarrow> (Err (JsonError e), (w, persisted, mem))
              | Panic p \<Rightarrow> (Panic p, (w, persisted, mem))
              | Ok s \<Rightarrow>
                (case me_hashed_uid env storage_init (w, c) of
                   (Err e, (w, c)) \<Rightarrow> (Err e, (w, Some s, mem))
                 | (Panic p, (w, c)) \<Rightarrow> (Panic p, (w, Some s, mem))
                 | (Ok uid, (w, c)) \<Rightarrow>
                   (case sync_stores (me_sync env storage_init) state stores [] (w, c) of
                      (Err e, (w, c)) \<Rightarrow> (Err e, (w, Some s, mem))
                    | (Panic p, (w, c)) \<Rightarrow> (Panic p, (w, Some s, mem))
                    | (Ok failures, (w, c)) \<Rightarrow>
                        (Ok failures, (w, Some s,
                           if failures \<noteq> []
                           then mem\<lparr>last_client_info := Some (storage_init, c), last_global_state := Some state\<rparr>
                           else mem))))))"

text \<open>The results of the stores of a run, one after the other.\<close>

fun store_results ::
    "'w SyncEnv \<Rightarrow> GlobalState \<Rightarrow> 'w Store list \<Rightarrow> 'w \<Rightarrow> (string \<times> (ErrorKind, unit) outcome) list" where
  "store_results env gs [] w = []"
| "store_results env gs (store # stores) w =
     (case synchronize env gs store True w of (r, w') \<Rightarrow> (collection_name store, r) # store_results env gs stores w')"

lemma sync_stores_step:
  assumes "sync_stores env gs (store # stores) failures w = (Ok failures', w')"
  shows "\<exists>r w1. synchronize env gs store True w = (r, w1) \<and> \<not> is_Panic r \<and>
    sync_stores env gs stores (case r of Err e \<Rightarrow> AList.update (collection_name store) e failures | _ \<Rightarrow> failures) w1 =
      (Ok failures', w')"
proof -
  obtain r w1 where s: "synchronize env gs store True w = (r, w1)" by (rule prod.exhaust)
  show ?thesis using assms
    by (cases r) (simp_all add: s abind_def check_interrupt_def split: if_splits)
qed

lemma store_results_names: "map fst (store_results env gs stores w) = map collection_name stores"
  by (induction stores arbitrary: w) (auto split: prod.splits)

lemma sync_stores_Ok:
  assumes "sync_stores env gs stores failures w = (Ok failures', w')" "distinct (map collection_name stores)"
    "\<forall>s \<in> set stores. map_of failures (collection_name s) = None"
  shows "(\<forall>n. map_of failures' n = (case map_of (store_results env gs stores w) n of
      Some (Err e) \<Rightarrow> Some e | _ \<Rightarrow> map_of failures n)) \<and>
    (\<forall>x \<in> set (store_results env gs stores w). \<not> is_Panic (snd x))"
  using assms
proof (induction stores arbitrary: failures w)
  case (Cons store stores)
  let ?f = "\<lambda>r. case r of Err e \<Rightarrow> AList.update (collection_name store) e failures | _ \<Rightarrow> failures"
  obtain r w1 where s: "synchronize env gs store True w = (r, w1)" "\<not> is_Panic r"
    and rest: "sync_stores env gs stores (?f r) w1 = (Ok failures', w')"
    using sync_stores_step [OF Cons.prems(1)] by blast
  have n: "\<forall>s \<in> set stores. map_of (?f r) (collection_name s) = None"
  proof
    fix x assume x: "x \<in> set stores"
    then have "collection_name x \<noteq> collection_name store" using Cons.prems(2) by (metis distinct.simps(2) image_eqI list.simps(9) set_map)
    then show "map_of (?f r) (collection_name x) = None" using Cons.prems(3) x by (cases r) (auto simp: update_conv')
  qed
  have none: "map_of (store_results env gs stores w1) (collection_name store) = None"
    using Cons.prems(2) by (simp add: map_of_eq_None_iff store_results_names flip: set_map)
  have "distinct (map collection_name stores)" using Cons.prems(2) by simp
  note IH = Cons.IH [OF rest this n]
  show ?case using IH s none Cons.prems(3)
    by (cases r) (auto simp: update_conv' split: option.splits outcome.splits)
qed (simp add: ret_def)

text \<open>
  C28. A failing store does not stop the others: when the loop over stores with different names ends,
  every store has been synchronized in turn, and the map of failures holds exactly the errors of
  the stores that failed, under their names.
\<close>

theorem failures_are_reported:
  assumes "sync_stores env gs stores [] w = (Ok failures, w')" and "distinct (map collection_name stores)"
  shows "map fst (store_results env gs stores w) = map collection_name stores \<and>
    (\<forall>n e. map_of failures n = Some e \<longleftrightarrow> (n, Err e) \<in> set (store_results env gs stores w))"
proof -
  have d: "distinct (map fst (store_results env gs stores w))" using assms(2) by (simp add: store_results_names)
  have "map_of failures n = (case map_of (store_results env gs stores w) n of Some (Err e) \<Rightarrow> Some e | _ \<Rightarrow> None)" for n
    using sync_stores_Ok [OF assms] by (simp split: option.splits outcome.splits)
  then have "map_of failures n = Some e \<longleftrightarrow> map_of (store_results env gs stores w) n = Some (Err e)" for n e
    by (simp split: option.splits outcome.splits)
  then show ?thesis using d by (simp add: store_results_names map_of_eq_Some_iff)
qed


text \<open>A store that declines everything and one that fails, for the witnesses.\<close>

definition store1 :: "string \<Rightarrow> (unit, string, StoreSyncAssociation) action \<Rightarrow> unit Store" where
  "store1 name assoc = \<lparr>collection_name = name, apply_incoming = \<lambda>_. throw ''x'', sync_finished = \<lambda>_ _. ret (),
     get_collection_request = throw ''x'', get_sync_assoc = assoc, reset = \<lambda>_. ret (), wipe = ret ()\<rparr>"

definition stores1 :: "unit Store list" where
  "stores1 = [store1 ''a'' (throw ''broken''), store1 ''b'' (ret Disconnected)]"

definition sync_env1 :: "unit SyncEnv" where
  "sync_env1 = \<lparr>sy_debug = False,
     sy_crypto = \<lparr>b64_encode = id, b64_decode = Some, b64url_decode = Some, b16_encode = id, b16_decode_slice = Ok,
        hmac_sign = \<lambda>_ _. Ok [], hmac_verify = \<lambda>_ _ _. Ok (), aes_encrypt = \<lambda>_ _ d. Ok d, aes_decrypt = \<lambda>_ _ d. Ok d,
        utf8_valid = \<lambda>_. True, rand_fill = \<lambda>_. throw ''no entropy''\<rparr>,
     sy_payload = \<lparr>payload_to_str = \<lambda>_. Ok [], payload_from_str = \<lambda>_. Err []\<rparr>, sy_serde = js1,
     sy_get_records = \<lambda>_. ret (NotFound ''r''), sy_poster = \<lambda>_ _ _ _ _. throw Interrupted, sy_was_interrupted = \<lambda>_. False\<rparr>"

lemma stores1_run: "sync_stores sync_env1 gs1 stores1 [] () = (Ok [(''a'', StoreError ''broken'')], ())"
  by (simp add: stores1_def store1_def sync_env1_def gs1_def synchronize_def get_state_def try_as_def abind_def action_defs
      check_interrupt_def eval_nat_numeral)

theorem failures_are_reported_witness:
  "(''a'', Err (StoreError ''broken'')) \<in> set (store_results sync_env1 gs1 stores1 ()) \<and>
   map fst (store_results sync_env1 gs1 stores1 ()) = [''a'', ''b'']"
proof -
  have d: "distinct (map collection_name stores1)" by (simp add: stores1_def store1_def)
  have n: "map collection_name stores1 = [''a'', ''b'']" by (simp add: stores1_def store1_def)
  note f = failures_are_reported [OF stores1_run d]
  from f have "map fst (store_results sync_env1 gs1 stores1 ()) = [''a'', ''b'']" unfolding n by simp
  moreover from f have "map_of [(''a'', StoreError ''broken'')] ''a'' = Some (StoreError ''broken'') \<longleftrightarrow>
      (''a'', Err (StoreError ''broken'')) \<in> set (store_results sync_env1 gs1 stores1 ())" by blast
  ultimately show ?thesis by simp
qed

definition init1 :: Sync15StorageClientInit where
  "init1 = \<lparr>init_key_id = ''k'', init_access_token = ''t'', init_tokenserver_url = ''u''\<rparr>"

definition multi_env1 :: "(string list, nat) MultiEnv" where
  "multi_env1 = \<lparr>me_client_new = \<lambda>_. Err SetupRequired, me_setup = undefined, me_sync = undefined, me_hashed_uid = undefined,
     me_pgs_from_str = \<lambda>_. Err [], me_pgs_to_str = \<lambda>_. Ok [], me_was_interrupted = \<lambda>_. False\<rparr>"

lemma multi_env1_run:
  "sync_multiple multi_env1 [] init1 ([], None, \<lparr>last_client_info = None, last_global_state = None\<rparr>) =
     (Err SetupRequired, ([], None, \<lparr>last_client_info = None, last_global_state = None\<rparr>))"
  by (simp add: sync_multiple_def multi_env1_def reuse_client_def Let_def)


end
