(* ===== verification/LoginSync.thy ===== *)
theory LoginSync
  imports LoginEngine Synchronize
begin

text \<open>
  Applying incoming logins and collecting outgoing ones, the store that the sync driver talks to
  (\<^verbatim>\<open>components/logins/src/db.rs\<close>), and a sync of the password engine
  (\<^verbatim>\<open>components/logins/src/engine.rs\<close>). The counters of the telemetry are left out.
\<close>

section \<open>Reading what is known about the incoming records\<close>

text \<open>A set of seen identifiers, and the first record whose identifier was seen is an error.\<close>

fun from_payloads ::
    "string list \<Rightarrow> (Payload \<times> ServerTimestamp) list \<Rightarrow> (LoginError, SyncLoginData list) outcome" where
  "from_payloads ids [] = Ok []"
| "from_payloads ids ((p, ts) # records) =
     (if pl_id p \<in> set ids then Err (DuplicateGuid (pl_id p))
      else obind (from_payload p ts) (\<lambda>d.
           obind (from_payloads (pl_id p # ids) records) (\<lambda>ds. Ok (d # ds))))"

datatype FetchedRow = FetchedMirror usize MirrorRow | FetchedLocal usize LocalRow

text \<open>The rows of the mirror and of the local table whose guid is in the chunk, with its index.\<close>

definition fetched_rows :: "string list \<Rightarrow> usize \<Rightarrow> LoginTables \<Rightarrow> FetchedRow list" where
  "fetched_rows chunk offset t =
     concat (map (\<lambda>r. map (\<lambda>(i, g). FetchedMirror i r) (filter (\<lambda>(i, g). g = col_guid r) (enumerate offset chunk))) (loginsM t)) @
     concat (map (\<lambda>r. map (\<lambda>(i, g). FetchedLocal i r) (filter (\<lambda>(i, g). g = col_guid r) (enumerate offset chunk))) (loginsL t))"

text \<open>\<^verbatim>\<open>sync_data[guid_idx]\<close> is updated in place.\<close>

definition set_at :: "usize \<Rightarrow> (SyncLoginData \<Rightarrow> (LoginError, SyncLoginData) outcome) \<Rightarrow>
    SyncLoginData list \<Rightarrow> (LoginError, SyncLoginData list) outcome" where
  "set_at i f ds = (if i < length ds then omap (\<lambda>d. ds[i := d]) (f (ds ! i)) else Panic ''index out of bounds'')"

fun store_row :: "FetchedRow \<Rightarrow> SyncLoginData list \<Rightarrow> (LoginError, SyncLoginData list) outcome" where
  "store_row (FetchedMirror i r) ds = set_at i (set_mirror (mirror_from_row r)) ds"
| "store_row (FetchedLocal i r) ds = obind (local_from_row r) (\<lambda>l. set_at i (set_local l) ds)"

definition modify_data :: "('d \<Rightarrow> ('e, 'd) outcome) \<Rightarrow> ('s \<times> 'd, 'e, unit) action" where
  "modify_data f = (\<lambda>(s, d). case f d of
       Ok d' \<Rightarrow> (Ok (), (s, d')) | Err e \<Rightarrow> (Err e, (s, d)) | Panic p \<Rightarrow> (Panic p, (s, d)))"

definition with_data :: "'d \<Rightarrow> ('s \<times> 'd, 'e, unit) action \<Rightarrow> ('s, 'e, 'd) action" where
  "with_data d m s = (case m (s, d) of
       (Ok _, (s', d')) \<Rightarrow> (Ok d', s') | (Err e, (s', _)) \<Rightarrow> (Err e, s') | (Panic p, (s', _)) \<Rightarrow> (Panic p, s'))"

definition fetch_login_data ::
    "'w LoginEnv \<Rightarrow> (Payload \<times> ServerTimestamp) list \<Rightarrow> ('w, SyncLoginData list) login_op" where
  "fetch_login_data env records =
     abind (lift (from_payloads [] records)) (\<lambda>sync_data.
     abind (scope_check env) (\<lambda>_.
     with_data sync_data
       (each_sized_chunk_mapped records (le_max_vars env) (\<lambda>r. pl_id (fst r)) (\<lambda>chunk offset.
          abind (on_world (sql_read env (fetched_rows chunk offset))) (\<lambda>rows.
          afor (\<lambda>row. abind (modify_data (store_row row)) (\<lambda>_. on_world (scope_check env))) rows)))))"

section \<open>Deciding what to do\<close>

fun reconcile ::
    "'w LoginEnv \<Rightarrow> bool \<Rightarrow> SyncLoginData list \<Rightarrow> ServerTimestamp \<Rightarrow> UpdatePlan \<Rightarrow> ('w, UpdatePlan) login_op" where
  "reconcile env dbg [] server_now plan = ret plan"
| "reconcile env dbg (d # records) server_now plan =
     abind (scope_check env) (\<lambda>_.
     case sd_inbound d of
       (None, _) \<Rightarrow> reconcile env dbg records server_now (plan_delete (sd_guid d) plan)
     | (Some upstream, upstream_time) \<Rightarrow>
       (case (sd_mirror d, sd_local d) of
          (Some mirror, Some local) \<Rightarrow>
            abind (now_ns env) (\<lambda>now.
            abind (lift (plan_three_way_merge dbg now local mirror upstream upstream_time server_now plan)) (\<lambda>plan.
            reconcile env dbg records server_now plan))
        | (Some mirror, None) \<Rightarrow> reconcile env dbg records server_now (plan_mirror_update upstream upstream_time plan)
        | (None, Some local) \<Rightarrow>
            reconcile env dbg records server_now (plan_two_way_merge (ll_login local) (upstream, upstream_time) plan)
        | (None, None) \<Rightarrow>
            abind (find_dupe env upstream) (\<lambda>dupe.
            case dupe of
              Some dupe \<Rightarrow> reconcile env dbg records server_now (plan_two_way_merge dupe (upstream, upstream_time) plan)
            | None \<Rightarrow> reconcile env dbg records server_now (plan_mirror_insert upstream upstream_time False plan))))"

definition execute_plan :: "'w LoginEnv \<Rightarrow> UpdatePlan \<Rightarrow> ('w, unit) login_op" where
  "execute_plan env plan = transaction env (execute env plan)"

section \<open>Outgoing records\<close>

definition outgoing_payload :: "LocalRow \<Rightarrow> (LoginError, Payload) outcome" where
  "outgoing_payload r =
     (if col_is_deleted r then Ok (with_sortindex 5000000 (new_tombstone (col_guid r)))
      else omap (with_sortindex 1) (omap_err SyncAdapterError (payload_from_login (login_from_row r))))"

definition fetch_outgoing :: "'w LoginEnv \<Rightarrow> ServerTimestamp \<Rightarrow> ('w, OutgoingChangeset) login_op" where
  "fetch_outgoing env st =
     abind (sql_read env (\<lambda>t. filter (\<lambda>r. col_sync_status r \<noteq> sync_status_u8 Synced) (loginsL t))) (\<lambda>rows.
     abind (amapM (\<lambda>r. abind (scope_check env) (\<lambda>_. lift (outgoing_payload r))) rows) (\<lambda>cs.
     ret ((changeset_new ''passwords'' st)\<lparr>changes := cs\<rparr>)))"

definition do_apply_incoming :: "'w LoginEnv \<Rightarrow> bool \<Rightarrow> IncomingChangeset \<Rightarrow> ('w, OutgoingChangeset) login_op" where
  "do_apply_incoming env dbg inbound =
     abind (fetch_login_data env (changes inbound)) (\<lambda>data.
     abind (reconcile env dbg data (rc_timestamp inbound) empty_plan) (\<lambda>plan.
     abind (execute_plan env plan) (\<lambda>_.
     fetch_outgoing env (rc_timestamp inbound))))"

section \<open>The store and the engine\<close>

text \<open>A store's error is the text of the underlying error, \<open>show_err\<close>.\<close>

definition login_store :: "'w LoginEnv \<Rightarrow> bool \<Rightarrow> (LoginError \<Rightarrow> string) \<Rightarrow> ('w \<times> LoginTables) Store" where
  "login_store env dbg show_err =
     \<lparr>collection_name = ''passwords'',
      apply_incoming = (\<lambda>inbound. try_as show_err (do_apply_incoming env dbg inbound)),
      sync_finished = (\<lambda>new_timestamp records_synced. try_as show_err (mark_as_synchronized env records_synced new_timestamp)),
      get_collection_request = try_as show_err (abind (get_last_sync env) (\<lambda>since.
        ret ((collection_request_new ''passwords'')\<lparr>rq_full := True, rq_newer := Some (case since of Some ts \<Rightarrow> ts | None \<Rightarrow> 0)\<rparr>))),
      get_sync_assoc = try_as show_err (
        abind (get_meta env text_value GLOBAL_SYNCID_META_KEY) (\<lambda>global.
        abind (get_meta env text_value COLLECTION_SYNCID_META_KEY) (\<lambda>coll.
        ret (case (global, coll) of
               (Some g, Some c) \<Rightarrow> Connected \<lparr>ids_global = g, ids_coll = c\<rparr>
             | _ \<Rightarrow> Disconnected)))),
      reset = (\<lambda>assoc. try_as show_err (db_reset env assoc)),
      wipe = try_as show_err (db_wipe env)\<rparr>"

text \<open>A store beside the state of the storage client.\<close>

definition beside :: "'s Store \<Rightarrow> ('s \<times> 'c) Store" where
  "beside store =
     \<lparr>collection_name = collection_name store,
      apply_incoming = (\<lambda>inbound. on_world (apply_incoming store inbound)),
      sync_finished = (\<lambda>ts ids. on_world (sync_finished store ts ids)),
      get_collection_request = on_world (get_collection_request store),
      get_sync_assoc = on_world (get_sync_assoc store),
      reset = (\<lambda>assoc. on_world (reset store assoc)),
      wipe = on_world (wipe store)\<rparr>"

text \<open>
  \<^verbatim>\<open>PasswordEngine::sync\<close>. The engine's cached state is taken out of its cell before the sync,
  and the cell is not written again.
\<close>

definition mem_default :: "'c MemoryCachedState" where
  "mem_default = \<lparr>last_client_info = None, last_global_state = None\<rparr>"

definition engine_sync ::
    "'w LoginEnv \<Rightarrow> bool \<Rightarrow> (LoginError \<Rightarrow> string) \<Rightarrow> MigrateJson \<Rightarrow> ('w \<times> LoginTables, 'c) MultiEnv \<Rightarrow>
     Sync15StorageClientInit \<Rightarrow> (('w \<times> LoginTables) \<times> 'c MemoryCachedState, LoginError, unit) action" where
  "engine_sync env dbg show_err js menv storage_init =
     abind (on_world (migrate_global_state env js)) (\<lambda>_.
     abind (on_world (get_global_state env)) (\<lambda>disk_cached_state.
     abind get_st (\<lambda>(s, mem).
     case sync_multiple menv [beside (login_store env dbg show_err)] storage_init (s, disk_cached_state, mem) of
       (Panic p, (s', _, _)) \<Rightarrow> (\<lambda>_. (Panic p, (s', mem_default)))
     | (result, (s', disk_cached_state', _)) \<Rightarrow> (\<lambda>_.
         abind (on_world (set_global_state env disk_cached_state')) (\<lambda>_.
         abind (lift (omap_err SyncAdapterError result)) (\<lambda>failures.
         case failures of
           [] \<Rightarrow> ret ()
         | [(name, err)] \<Rightarrow>
             if name = ''passwords'' then throw (SyncAdapterError err) else panic ''assertion failed: name''
         | _ \<Rightarrow> panic ''assertion failed: failures.len()''))
         (s', mem_default)))))"

end
