(* ===== verification/LoginSyncCorrect.thy ===== *)
theory LoginSyncCorrect
  imports LoginSync
begin

text \<open>
  What applying incoming logins does: the data fetched for each record, the decision taken for it,
  the effect of the resulting plan on the tables, and what the user sees afterwards.
\<close>

section \<open>The fetched data\<close>

fun store_all :: "FetchedRow list \<Rightarrow> SyncLoginData list \<Rightarrow> (LoginError, SyncLoginData list) outcome" where
  "store_all [] ds = Ok ds"
| "store_all (r # rs) ds = obind (store_row r ds) (store_all rs)"

lemma store_all_append: "store_all (a @ b) ds = obind (store_all a ds) (store_all b)"
proof (induction a arbitrary: ds)
  case (Cons r a)
  then show ?case by (cases "store_row r ds") auto
qed simp

definition known_from :: "FetchedRow set \<Rightarrow> SyncLoginData list \<Rightarrow> SyncLoginData list \<Rightarrow> bool" where
  "known_from R ds ds' \<longleftrightarrow> length ds' = length ds \<and>
     (\<forall>i < length ds. sd_guid (ds' ! i) = sd_guid (ds ! i) \<and> sd_inbound (ds' ! i) = sd_inbound (ds ! i) \<and>
       (\<forall>x. sd_mirror (ds' ! i) = Some x \<longleftrightarrow>
          sd_mirror (ds ! i) = Some x \<or> (\<exists>r. FetchedMirror i r \<in> R \<and> x = mirror_from_row r)) \<and>
       (\<forall>x. sd_local (ds' ! i) = Some x \<longleftrightarrow>
          sd_local (ds ! i) = Some x \<or> (\<exists>r. FetchedLocal i r \<in> R \<and> local_from_row r = Ok x)) \<and>
       (\<forall>r. FetchedLocal i r \<in> R \<longrightarrow> is_Ok (local_from_row r)))"

lemma store_row_known: "store_row r ds = Ok ds' \<Longrightarrow> known_from {r} ds ds'"
  by (cases r) (auto simp: known_from_def set_at_def set_mirror_def set_local_def obind_Ok_iff nth_list_update split: if_splits)

lemma known_from_union:
  assumes "known_from R ds ds1" "known_from S ds1 ds2" shows "known_from (R \<union> S) ds ds2"
  using assms unfolding known_from_def by (auto 4 3)

lemma store_all_known: "store_all R ds = Ok ds' \<Longrightarrow> known_from (set R) ds ds'"
proof (induction R arbitrary: ds)
  case (Cons r R)
  then obtain ds1 where "store_row r ds = Ok ds1" "store_all R ds1 = Ok ds'" by (auto simp: obind_Ok_iff)
  then show ?case using known_from_union [OF store_row_known Cons.IH] by fastforce
qed (simp add: known_from_def)

definition does_with :: "(('w \<times> LoginTables) \<times> 'd, LoginError, unit) action \<Rightarrow> (LoginTables \<Rightarrow> 'd \<Rightarrow> 'd \<Rightarrow> bool) \<Rightarrow> bool" where
  "does_with m R \<longleftrightarrow> (\<forall>w t d w' t' d'. m ((w, t), d) = (Ok (), ((w', t'), d')) \<longrightarrow> t' = t \<and> R t d d')"

lemma does_withD: "does_with m R \<Longrightarrow> m ((w, t), d) = (Ok u, ((w', t'), d')) \<Longrightarrow> t' = t \<and> R t d d'"
  unfolding does_with_def by (cases u) blast

lemma does_with_abind:
  assumes "does_with m P" "does_with f Q"
  shows "does_with (abind m (\<lambda>_. f)) (\<lambda>t d d'. \<exists>d1. P t d d1 \<and> Q t d1 d')"
  unfolding does_with_def
proof (intro allI impI)
  fix w t d w' t' d' assume "abind m (\<lambda>_. f) ((w, t), d) = (Ok (), ((w', t'), d'))"
  then obtain u s1 where s1: "m ((w, t), d) = (Ok u, s1)" "f s1 = (Ok (), ((w', t'), d'))" by (rule abind_OkE)
  obtain w1 t1 d1 where e: "s1 = ((w1, t1), d1)" by (metis prod.collapse)
  show "t' = t \<and> (\<exists>d1. P t d d1 \<and> Q t d1 d')"
    using does_withD [OF assms(1) s1(1) [unfolded e]] does_withD [OF assms(2) s1(2) [unfolded e]] by auto
qed

lemma does_with_weaken: "does_with m P \<Longrightarrow> (\<And>t d d'. P t d d' \<Longrightarrow> Q t d d') \<Longrightarrow> does_with m Q"
  by (auto simp: does_with_def)

lemma does_with_afor:
  assumes "\<And>row. does_with (f row) (\<lambda>t d d'. store_row row d = Ok d')"
  shows "does_with (afor f rows) (\<lambda>t d d'. store_all rows d = Ok d')"
proof (induction rows)
  case (Cons r rows)
  show ?case by (simp, rule does_with_weaken [OF does_with_abind [OF assms Cons.IH]]) auto
qed (simp add: does_with_def ret_def)

lemma does_with_store:
  "does_with (abind (modify_data (store_row row)) (\<lambda>_. on_world (scope_check env))) (\<lambda>t d d'. store_row row d = Ok d')"
proof -
  have m: "does_with (modify_data (store_row row)) (\<lambda>t d d'. store_row row d = Ok d')"
    by (auto simp: does_with_def modify_data_def split: outcome.splits)
  have s: "does_with (on_world (scope_check env)) (\<lambda>t d d'. d' = d)"
    by (auto simp: does_with_def on_world_def scope_check_def split: prod.splits)
  show ?thesis by (rule does_with_weaken [OF does_with_abind [OF m s]]) auto
qed

definition chunk_action :: "'w LoginEnv \<Rightarrow> string list \<Rightarrow> usize \<Rightarrow> (('w \<times> LoginTables) \<times> SyncLoginData list, LoginError, unit) action" where
  "chunk_action env chunk offset =
     abind (on_world (sql_read env (fetched_rows chunk offset))) (\<lambda>rows.
     afor (\<lambda>row. abind (modify_data (store_row row)) (\<lambda>_. on_world (scope_check env))) rows)"

lemma does_with_chunk: "does_with (chunk_action env c off) (\<lambda>t d d'. store_all (fetched_rows c off t) d = Ok d')"
  unfolding does_with_def
proof (intro allI impI)
  fix w t d w' t' d' assume "chunk_action env c off ((w, t), d) = (Ok (), ((w', t'), d'))"
  then obtain rows s1 where r: "on_world (sql_read env (fetched_rows c off)) ((w, t), d) = (Ok rows, s1)"
      "afor (\<lambda>row. abind (modify_data (store_row row)) (\<lambda>_. on_world (scope_check env))) rows s1 = (Ok (), ((w', t'), d'))"
    unfolding chunk_action_def by (rule abind_OkE)
  from r(1) obtain w1 where "s1 = ((w1, t), d)" "rows = fetched_rows c off t"
    using doesD [OF does_read [where q = "fetched_rows c off"]] by (fastforce simp: on_world_def split: prod.splits)
  then show "t' = t \<and> store_all (fetched_rows c off t) d = Ok d'"
    using does_withD [OF does_with_afor [OF does_with_store [where env = env]], where w = w1 and t = t and d = d and rows1 = rows] r(2)
    by blast
qed

fun all_fetched :: "usize \<Rightarrow> string list list \<Rightarrow> LoginTables \<Rightarrow> FetchedRow list" where
  "all_fetched off [] t = []"
| "all_fetched off (c # cs) t = fetched_rows c off t @ all_fetched (off + length c) cs t"

lemma does_with_chunks:
  "does_with (chunk_loop (\<lambda>c. chunk_action env (map f c)) off cs) (\<lambda>t d d'. store_all (all_fetched off (map (map f) cs) t) d = Ok d')"
proof (induction cs arbitrary: off)
  case (Cons c cs)
  show ?case
    by (simp, rule does_with_weaken [OF does_with_abind [OF does_with_chunk Cons.IH]]) (auto simp: store_all_append obind_Ok_iff)
qed (simp add: does_with_def ret_def)

definition at_offset :: "usize \<Rightarrow> 'a list \<Rightarrow> usize \<Rightarrow> 'a \<Rightarrow> bool" where
  "at_offset off xs i x \<longleftrightarrow> (\<exists>j < length xs. i = off + j \<and> xs ! j = x)"

lemma at_offset_enumerate: "(i, x) \<in> set (enumerate off xs) \<longleftrightarrow> at_offset off xs i x"
  by (auto simp: in_set_enumerate_eq at_offset_def intro: exI [of _ "i - off"])

lemma at_offset_Nil [simp]: "\<not> at_offset off [] i x"
  by (simp add: at_offset_def)

lemma at_offset_append: "at_offset off (xs @ ys) i x \<longleftrightarrow> at_offset off xs i x \<or> at_offset (off + length xs) ys i x"
proof
  assume "at_offset off (xs @ ys) i x"
  then obtain j where j: "j < length xs + length ys" "i = off + j" "(xs @ ys) ! j = x" by (auto simp: at_offset_def)
  then show "at_offset off xs i x \<or> at_offset (off + length xs) ys i x"
    by (cases "j < length xs") (auto simp: at_offset_def nth_append intro: exI [of _ "j - length xs"])
next
  assume "at_offset off xs i x \<or> at_offset (off + length xs) ys i x"
  then show "at_offset off (xs @ ys) i x"
  proof
    assume "at_offset off xs i x"
    then obtain j where "j < length xs" "i = off + j" "xs ! j = x" by (auto simp: at_offset_def)
    then show ?thesis unfolding at_offset_def by (intro exI [of _ j]) (simp add: nth_append)
  next
    assume "at_offset (off + length xs) ys i x"
    then obtain j where "j < length ys" "i = off + length xs + j" "ys ! j = x" by (auto simp: at_offset_def)
    then show ?thesis unfolding at_offset_def by (intro exI [of _ "length xs + j"]) simp
  qed
qed

lemma fetched_rows_iff:
  "FetchedMirror i r \<in> set (fetched_rows c off t) \<longleftrightarrow> r \<in> set (loginsM t) \<and> at_offset off c i (col_guid r)"
  "FetchedLocal i l \<in> set (fetched_rows c off t) \<longleftrightarrow> l \<in> set (loginsL t) \<and> at_offset off c i (col_guid l)"
  unfolding at_offset_enumerate [symmetric] by (force simp: fetched_rows_def)+

lemma all_fetched_iff:
  "FetchedMirror i r \<in> set (all_fetched off cs t) \<longleftrightarrow> r \<in> set (loginsM t) \<and> at_offset off (concat cs) i (col_guid r)"
  "FetchedLocal i l \<in> set (all_fetched off cs t) \<longleftrightarrow> l \<in> set (loginsL t) \<and> at_offset off (concat cs) i (col_guid l)"
  by (induction cs arbitrary: off) (auto simp: fetched_rows_iff at_offset_append)

text \<open>What is known about one incoming record.\<close>

definition fetched :: "LoginTables \<Rightarrow> Payload \<times> ServerTimestamp \<Rightarrow> SyncLoginData \<Rightarrow> bool" where
  "fetched t p d \<longleftrightarrow> sd_guid d = pl_id (fst p) \<and>
     (\<exists>d0. from_payload (fst p) (snd p) = Ok d0 \<and> sd_inbound d = sd_inbound d0) \<and>
     sd_mirror d = map_option mirror_from_row (with_guid (sd_guid d) (loginsM t)) \<and>
     (case with_guid (sd_guid d) (loginsL t) of
        None \<Rightarrow> sd_local d = None
      | Some r \<Rightarrow> \<exists>l. local_from_row r = Ok l \<and> sd_local d = Some l)"

lemma from_payloads_Ok:
  assumes "from_payloads ids records = Ok ds"
  shows "distinct (map (\<lambda>r. pl_id (fst r)) records) \<and> set ids \<inter> set (map (\<lambda>r. pl_id (fst r)) records) = {} \<and>
    list_all2 (\<lambda>r d. from_payload (fst r) (snd r) = Ok d) records ds"
  using assms
proof (induction ids records arbitrary: ds rule: from_payloads.induct)
  case (2 ids p ts records)
  then obtain d ds' where "from_payload p ts = Ok d" "from_payloads (pl_id p # ids) records = Ok ds'" "ds = d # ds'" "pl_id p \<notin> set ids"
    by (auto simp: obind_Ok_iff split: if_splits)
  then show ?case using 2 by auto
qed simp

lemma from_payload_Ok:
  "from_payload p ts = Ok d \<Longrightarrow>
   sd_guid d = pl_id p \<and> sd_local d = None \<and> sd_mirror d = None \<and> snd (sd_inbound d) = ts \<and>
   (fst (sd_inbound d) = None \<longleftrightarrow> pl_deleted p) \<and> (\<forall>l. fst (sd_inbound d) = Some l \<longrightarrow> login_id l = pl_id p)"
  by (auto simp: from_payload_def is_tombstone_def payload_into_login_def login_from_value_def obind_Ok_iff payload_into_json_def
      Let_def split: if_splits)

lemma with_guid_Some_iff:
  "distinct (map col_guid rows) \<Longrightarrow> with_guid g rows = Some r \<longleftrightarrow> r \<in> set rows \<and> col_guid r = g"
  by (auto dest: with_guid_SomeD with_guid_distinct)

lemma fetched_known:
  assumes d0: "list_all2 (\<lambda>r d. from_payload (fst r) (snd r) = Ok d) records ds"
    and k: "known_from R ds ds'"
    and M: "\<And>i r. FetchedMirror i r \<in> R \<longleftrightarrow> r \<in> set (loginsM t) \<and> i < length records \<and> pl_id (fst (records ! i)) = col_guid r"
    and L: "\<And>i r. FetchedLocal i r \<in> R \<longleftrightarrow> r \<in> set (loginsL t) \<and> i < length records \<and> pl_id (fst (records ! i)) = col_guid r"
    and ok: "distinct (map col_guid (loginsL t))" "distinct (map col_guid (loginsM t))"
  shows "list_all2 (fetched t) records ds'"
proof (rule list_all2_all_nthI)
  show len: "length records = length ds'" using d0 k by (auto simp: known_from_def dest: list_all2_lengthD)
  fix i assume i: "i < length records"
  then have f: "from_payload (fst (records ! i)) (snd (records ! i)) = Ok (ds ! i)" using d0 by (auto simp: list_all2_conv_all_nth)
  note f0 = from_payload_Ok [OF f]
  have i': "i < length ds" using d0 i by (auto dest: list_all2_lengthD)
  note k' = k [unfolded known_from_def, THEN conjunct2, rule_format, OF i']
  let ?g = "pl_id (fst (records ! i))"
  have g: "sd_guid (ds' ! i) = ?g" using k' f0 by simp
  have m: "sd_mirror (ds' ! i) = Some x \<longleftrightarrow> (\<exists>r. with_guid ?g (loginsM t) = Some r \<and> x = mirror_from_row r)" for x
    using k' f0 i by (auto simp: M with_guid_Some_iff [OF ok(2)])
  have l: "sd_local (ds' ! i) = Some x \<longleftrightarrow> (\<exists>r. with_guid ?g (loginsL t) = Some r \<and> local_from_row r = Ok x)" for x
    using k' f0 i by (auto simp: L with_guid_Some_iff [OF ok(1)])
  have "sd_mirror (ds' ! i) = map_option mirror_from_row (with_guid ?g (loginsM t))"
  proof (cases "sd_mirror (ds' ! i)")
    case None
    then show ?thesis using m by (cases "with_guid ?g (loginsM t)") auto
  qed (use m in auto)
  moreover have "case with_guid ?g (loginsL t) of None \<Rightarrow> sd_local (ds' ! i) = None
      | Some r \<Rightarrow> \<exists>x. local_from_row r = Ok x \<and> sd_local (ds' ! i) = Some x"
  proof (cases "with_guid ?g (loginsL t)")
    case None
    then show ?thesis using l by (cases "sd_local (ds' ! i)") auto
  next
    case (Some r)
    then have "FetchedLocal i r \<in> R" using L i by (auto dest: with_guid_SomeD)
    then obtain x where "local_from_row r = Ok x" using k' by (auto simp: is_Ok_iff)
    then show ?thesis using l Some by auto
  qed
  ultimately show "fetched t (records ! i) (ds' ! i)" using g f k' by (auto simp: fetched_def)
qed

lemma does_fetch_login_data:
  "does (fetch_login_data env records) (\<lambda>t ds t'. t' = t \<and>
     (distinct (map col_guid (loginsL t)) \<longrightarrow> distinct (map col_guid (loginsM t)) \<longrightarrow>
      distinct (map (\<lambda>r. pl_id (fst r)) records) \<and> list_all2 (fetched t) records ds))"
proof -
  have c: "does (with_data ds0 (each_sized_chunk_mapped records (le_max_vars env) (\<lambda>r. pl_id (fst r)) (chunk_action env)))
      (\<lambda>t ds t'. t' = t \<and> (distinct (map col_guid (loginsL t)) \<longrightarrow> distinct (map col_guid (loginsM t)) \<longrightarrow> list_all2 (fetched t) records ds))"
    if "list_all2 (\<lambda>r d. from_payload (fst r) (snd r) = Ok d) records ds0" for ds0
    unfolding does_def
  proof (intro allI impI)
    fix w t ds w' t'
    assume a: "with_data ds0 (each_sized_chunk_mapped records (le_max_vars env) (\<lambda>r. pl_id (fst r)) (chunk_action env)) (w, t) = (Ok ds, (w', t'))"
    show "t' = t \<and> (distinct (map col_guid (loginsL t)) \<longrightarrow> distinct (map col_guid (loginsM t)) \<longrightarrow> list_all2 (fetched t) records ds)"
    proof (cases "records = []")
      case True
      then show ?thesis using a that by (auto simp: with_data_def each_sized_chunk_mapped_def ret_def)
    next
      case False
      then have n: "le_max_vars env \<noteq> 0"
        using a by (cases "le_max_vars env = 0") (auto simp: with_data_def each_sized_chunk_mapped_def panic_def)
      let ?cs = "chunks (le_max_vars env) records"
      have cl: "chunk_loop (\<lambda>c. chunk_action env (map (\<lambda>r. pl_id (fst r)) c)) 0 ?cs ((w, t), ds0) = (Ok (), ((w', t'), ds))"
        using a n False by (auto simp: with_data_def each_sized_chunk_mapped_def split: prod.splits outcome.splits)
      have r: "t' = t" "store_all (all_fetched 0 (map (map (\<lambda>r. pl_id (fst r))) ?cs) t) ds0 = Ok ds"
        using does_withD [OF does_with_chunks cl] by simp_all
      have cat: "concat (map (map (\<lambda>r. pl_id (fst r))) ?cs) = map (\<lambda>r. pl_id (fst r)) records"
        using n by (simp add: concat_chunks flip: map_concat)
      have "list_all2 (fetched t) records ds"
        if "distinct (map col_guid (loginsL t))" "distinct (map col_guid (loginsM t))"
        by (rule fetched_known [OF \<open>list_all2 _ records ds0\<close> store_all_known [OF r(2)] _ _ that])
          (auto simp: all_fetched_iff cat at_offset_def)
      then show ?thesis using r(1) by simp
    qed
  qed
  show ?thesis unfolding does_def
  proof (intro allI impI)
    fix w t ds w' t' assume "fetch_login_data env records (w, t) = (Ok ds, (w', t'))"
    then obtain ds0 where ds0: "from_payloads [] records = Ok ds0"
        "abind (scope_check env) (\<lambda>_. with_data ds0 (each_sized_chunk_mapped records (le_max_vars env) (\<lambda>r. pl_id (fst r)) (chunk_action env)))
          (w, t) = (Ok ds, (w', t'))"
      unfolding fetch_login_data_def chunk_action_def by (auto simp: abind_lift split: outcome.splits)
    note p = from_payloads_Ok [OF ds0(1)]
    show "t' = t \<and> (distinct (map col_guid (loginsL t)) \<longrightarrow> distinct (map col_guid (loginsM t)) \<longrightarrow>
      distinct (map (\<lambda>r. pl_id (fst r)) records) \<and> list_all2 (fetched t) records ds)"
      using doesD [OF does_abind [OF does_scope c] ds0(2)] p by auto
  qed
qed

section \<open>Decisions\<close>

datatype Decision =
    DeleteBoth string
  | ThreeWay MirrorLogin Login ServerTimestamp
  | Forward Login ServerTimestamp
  | TwoWay Login Login ServerTimestamp
  | InsertNew Login ServerTimestamp

fun apply_decision :: "Decision \<Rightarrow> UpdatePlan \<Rightarrow> UpdatePlan" where
  "apply_decision (DeleteBoth g) plan = plan_delete g plan"
| "apply_decision (ThreeWay new up ts) plan =
     plan\<lparr>mirror_updates := mirror_updates plan @ [(up, millis_i64 ts)], local_updates := local_updates plan @ [new]\<rparr>"
| "apply_decision (Forward up ts) plan = plan_mirror_update up ts plan"
| "apply_decision (TwoWay local up ts) plan = plan_two_way_merge local (up, ts) plan"
| "apply_decision (InsertNew up ts) plan = plan_mirror_insert up ts False plan"

definition decides :: "'w LoginEnv \<Rightarrow> bool \<Rightarrow> LoginTables \<Rightarrow> ServerTimestamp \<Rightarrow> SyncLoginData \<Rightarrow> Decision \<Rightarrow> bool" where
  "decides env dbg t server_now d dec \<longleftrightarrow>
     (case sd_inbound d of
        (None, _) \<Rightarrow> dec = DeleteBoth (sd_guid d)
      | (Some up, ts) \<Rightarrow>
        (case (sd_mirror d, sd_local d) of
           (Some m, Some l) \<Rightarrow> \<exists>now new. dec = ThreeWay new up ts \<and> login_id (ml_login new) = login_id (ml_login m) \<and>
             (\<forall>plan. plan_three_way_merge dbg now l m up ts server_now plan = Ok (apply_decision dec plan))
         | (Some m, None) \<Rightarrow> dec = Forward up ts
         | (None, Some l) \<Rightarrow> dec = TwoWay (ll_login l) up ts
         | (None, None) \<Rightarrow> (case find (is_dupe env up) (loginsL t) of
             Some r \<Rightarrow> dec = TwoWay (login_from_row r) up ts | None \<Rightarrow> dec = InsertNew up ts)))"

lemma three_way_decision:
  assumes "plan_three_way_merge dbg now l m up ts server_now plan = Ok plan'"
  shows "\<exists>new. login_id (ml_login new) = login_id (ml_login m) \<and>
     (\<forall>plan. plan_three_way_merge dbg now l m up ts server_now plan = Ok (apply_decision (ThreeWay new up ts) plan)) \<and>
     plan' = apply_decision (ThreeWay new up ts) plan"
proof -
  obtain ld ud md new where n: "delta dbg (ll_login l) (ml_login m) = Ok ld" "delta dbg up (ml_login m) = Ok ud"
      "delta_merge dbg ld ud (remote_age server_now ts < local_age now l) = Ok md" "apply_delta dbg md (ml_login m) = Ok new"
    using assms unfolding plan_three_way_merge_def by (auto simp: obind_Ok_iff)
  moreover have "login_id new = login_id (ml_login m)" using n(4) by (auto simp: apply_delta_def)
  ultimately show ?thesis
    using assms by (intro exI [of _ "m\<lparr>ml_login := new, ml_server_modified := ts\<rparr>"]) (simp add: plan_three_way_merge_def)
qed

lemma does_reconcile:
  "does (reconcile env dbg ds server_now plan) (\<lambda>t p t'. t' = t \<and>
     (\<exists>decs. list_all2 (decides env dbg t server_now) ds decs \<and> p = fold apply_decision decs plan))"
proof (induction ds arbitrary: plan)
  case (Cons d ds)
  let ?R = "\<lambda>t p t'. t' = t \<and> (\<exists>decs. list_all2 (decides env dbg t server_now) (d # ds) decs \<and> p = fold apply_decision decs plan)"
  have go: "does (reconcile env dbg ds server_now (apply_decision dec plan)) (\<lambda>t p t'. decides env dbg t server_now d dec \<longrightarrow> ?R t p t')" for dec
    by (rule does_weaken [OF Cons.IH]) (auto intro!: exI [of _ "dec # _"])
  obtain up ts where inb: "sd_inbound d = (up, ts)" by (cases "sd_inbound d")
  have "does (case sd_inbound d of
       (None, _) \<Rightarrow> reconcile env dbg ds server_now (plan_delete (sd_guid d) plan)
     | (Some upstream, upstream_time) \<Rightarrow>
       (case (sd_mirror d, sd_local d) of
          (Some mirror, Some local) \<Rightarrow>
            abind (now_ns env) (\<lambda>now.
            abind (lift (plan_three_way_merge dbg now local mirror upstream upstream_time server_now plan)) (\<lambda>plan.
            reconcile env dbg ds server_now plan))
        | (Some mirror, None) \<Rightarrow> reconcile env dbg ds server_now (plan_mirror_update upstream upstream_time plan)
        | (None, Some local) \<Rightarrow>
            reconcile env dbg ds server_now (plan_two_way_merge (ll_login local) (upstream, upstream_time) plan)
        | (None, None) \<Rightarrow>
            abind (find_dupe env upstream) (\<lambda>dupe.
            case dupe of
              Some dupe \<Rightarrow> reconcile env dbg ds server_now (plan_two_way_merge dupe (upstream, upstream_time) plan)
            | None \<Rightarrow> reconcile env dbg ds server_now (plan_mirror_insert upstream upstream_time False plan)))) ?R"
  proof (cases up)
    case None
    then show ?thesis using go [of "DeleteBoth (sd_guid d)"] by (simp add: inb decides_def)
  next
    case (Some upstream)
    show ?thesis
    proof (cases "sd_mirror d")
      case (Some m)
      show ?thesis
      proof (cases "sd_local d")
        case None
        then show ?thesis using go [of "Forward upstream ts"] Some \<open>up = Some upstream\<close> by (simp add: inb decides_def)
      next
        case local: (Some l)
        have "does (abind (lift (plan_three_way_merge dbg now l m upstream ts server_now plan)) (reconcile env dbg ds server_now)) ?R" for now
          unfolding does_def
        proof (intro allI impI)
          fix w t p w' t'
          assume "abind (lift (plan_three_way_merge dbg now l m upstream ts server_now plan)) (reconcile env dbg ds server_now) (w, t) = (Ok p, (w', t'))"
          then obtain plan1 where p1: "plan_three_way_merge dbg now l m upstream ts server_now plan = Ok plan1"
              "reconcile env dbg ds server_now plan1 (w, t) = (Ok p, (w', t'))"
            by (auto simp: abind_lift split: outcome.splits)
          obtain new where new: "login_id (ml_login new) = login_id (ml_login m)"
             "\<forall>plan. plan_three_way_merge dbg now l m upstream ts server_now plan = Ok (apply_decision (ThreeWay new upstream ts) plan)"
             "plan1 = apply_decision (ThreeWay new upstream ts) plan"
            using three_way_decision [OF p1(1)] by blast
          then have "decides env dbg t server_now d (ThreeWay new upstream ts)"
            using Some local \<open>up = Some upstream\<close> by (auto simp: inb decides_def)
          then show "?R t p t'" using doesD [OF go [of "ThreeWay new upstream ts"]] p1(2) new(3) by blast
        qed
        then show ?thesis using Some local \<open>up = Some upstream\<close>
          by (simp add: inb, intro does_weaken [OF does_abind [OF does_now_ns]]) auto
      qed
    next
      case None
      show ?thesis
      proof (cases "sd_local d")
        case local: None
        have k: "does (case dupe of
              Some dupe \<Rightarrow> reconcile env dbg ds server_now (plan_two_way_merge dupe (upstream, ts) plan)
            | None \<Rightarrow> reconcile env dbg ds server_now (plan_mirror_insert upstream ts False plan))
            (\<lambda>t p t'. dupe = map_option login_from_row (find (is_dupe env upstream) (loginsL t)) \<longrightarrow> ?R t p t')" for dupe
        proof (cases dupe)
          case d0: None
          show ?thesis
            by (simp add: d0, rule does_weaken [OF go [of "InsertNew upstream ts", simplified]])
              (use None local \<open>up = Some upstream\<close> in \<open>auto simp: inb decides_def\<close>)
        next
          case (Some l)
          show ?thesis
            by (simp add: Some, rule does_weaken [OF go [of "TwoWay l upstream ts", simplified]])
              (use None local \<open>up = Some upstream\<close> in \<open>auto simp: inb decides_def split: option.splits\<close>)
        qed
        show ?thesis using None local \<open>up = Some upstream\<close>
          unfolding find_dupe_def
          by (simp add: inb, intro does_weaken [OF does_abind [OF does_read k]]) auto
      next
        case (Some l)
        then show ?thesis using go [of "TwoWay (ll_login l) upstream ts"] None \<open>up = Some upstream\<close> by (simp add: inb decides_def)
      qed
    qed
  qed
  then show ?case unfolding reconcile.simps by (rule does_weaken [OF does_abind [OF does_scope]]) auto
qed (simp add: does_def ret_def)

section \<open>The effect of a plan\<close>

fun decision_guid :: "Decision \<Rightarrow> string" where
  "decision_guid (DeleteBoth g) = g"
| "decision_guid (ThreeWay new up ts) = login_id up"
| "decision_guid (Forward up ts) = login_id up"
| "decision_guid (TwoWay local up ts) = login_id up"
| "decision_guid (InsertNew up ts) = login_id up"

definition overrides :: "Login \<Rightarrow> Login \<Rightarrow> bool" where
  "overrides local up \<longleftrightarrow> time_password_changed local > time_password_changed up"

fun local_deletes :: "Decision \<Rightarrow> string list" where
  "local_deletes (DeleteBoth g) = [g]"
| "local_deletes (TwoWay local up ts) = (if overrides local up then [] else [login_id local])"
| "local_deletes _ = []"

fun mirror_deletes :: "Decision \<Rightarrow> string list" where
  "mirror_deletes (DeleteBoth g) = [g]"
| "mirror_deletes _ = []"

fun m_updates :: "Decision \<Rightarrow> (Login \<times> int) list" where
  "m_updates (ThreeWay new up ts) = [(up, millis_i64 ts)]"
| "m_updates (Forward up ts) = [(up, millis_i64 ts)]"
| "m_updates _ = []"

fun m_inserts :: "Decision \<Rightarrow> (Login \<times> int \<times> bool) list" where
  "m_inserts (TwoWay local up ts) = [(up, millis_i64 ts, overrides local up)]"
| "m_inserts (InsertNew up ts) = [(up, millis_i64 ts, False)]"
| "m_inserts _ = []"

fun l_updates :: "Decision \<Rightarrow> MirrorLogin list" where
  "l_updates (ThreeWay new up ts) = [new]"
| "l_updates _ = []"

lemma apply_decision_eq:
  "apply_decision dec plan =
     \<lparr>delete_mirror = delete_mirror plan @ mirror_deletes dec, delete_local = delete_local plan @ local_deletes dec,
      local_updates = local_updates plan @ l_updates dec, mirror_inserts = mirror_inserts plan @ m_inserts dec,
      mirror_updates = mirror_updates plan @ m_updates dec\<rparr>"
  by (cases dec) (auto simp: plan_delete_def plan_mirror_update_def plan_two_way_merge_def plan_mirror_insert_def overrides_def Let_def)

lemma fold_decisions_eq:
  "fold apply_decision decs plan =
     \<lparr>delete_mirror = delete_mirror plan @ concat (map mirror_deletes decs),
      delete_local = delete_local plan @ concat (map local_deletes decs),
      local_updates = local_updates plan @ concat (map l_updates decs),
      mirror_inserts = mirror_inserts plan @ concat (map m_inserts decs),
      mirror_updates = mirror_updates plan @ concat (map m_updates decs)\<rparr>"
proof (induction decs arbitrary: plan)
  case (Cons dec decs)
  show ?case unfolding fold_simps Cons.IH comp_def by (subst (1 2 3 4 5) apply_decision_eq) simp
qed simp

text \<open>Each table after the plan, as a fold over its updates.\<close>

lemma fold_update_mirror_L: "loginsL (fold update_mirror us t) = loginsL t"
  by (induction us arbitrary: t) (auto simp: update_mirror_def)

lemma fold_insert_mirror_L: "loginsL (fold insert_mirror us t) = loginsL t"
  by (induction us arbitrary: t) (auto simp: insert_mirror_def split: prod.splits)

lemma fold_update_local_M: "loginsM (fold (update_local ms) us t) = loginsM t"
  by (induction us arbitrary: t) (auto simp: update_local_def)

lemma fold_update_mirror:
  "with_guid g (loginsM (fold update_mirror us t)) =
     map_option (\<lambda>m. fold (\<lambda>u m. if login_id (fst u) = g then update_mirror_row (fst u) (snd u) m else m) us m) (with_guid g (loginsM t))"
proof (induction us arbitrary: t)
  case (Cons u us)
  have "with_guid g (loginsM (update_mirror u t)) =
      map_option (\<lambda>m. if login_id (fst u) = g then update_mirror_row (fst u) (snd u) m else m) (with_guid g (loginsM t))"
    by (cases "with_guid g (loginsM t)") (auto simp: update_mirror_def lookups dest: with_guid_guid)
  then show ?case by (simp add: Cons.IH option.map_comp comp_def)
qed (simp add: option.map_id)

lemma fold_update_local:
  "with_guid g (loginsL (fold (update_local ms) us t)) =
     map_option (\<lambda>r. fold (\<lambda>u r. if login_id (ml_login u) = g then update_local_row ms (ml_login u) r else r) us r) (with_guid g (loginsL t))"
proof (induction us arbitrary: t)
  case (Cons u us)
  have "with_guid g (loginsL (update_local ms u t)) =
      map_option (\<lambda>r. if login_id (ml_login u) = g then update_local_row ms (ml_login u) r else r) (with_guid g (loginsL t))"
    by (cases "with_guid g (loginsL t)") (auto simp: update_local_def lookups dest: with_guid_guid)
  then show ?case by (simp add: Cons.IH option.map_comp comp_def)
qed (simp add: option.map_id)

lemma fold_insert_mirror:
  "with_guid g (loginsM (fold insert_mirror is t)) =
     (case with_guid g (loginsM t) of Some m \<Rightarrow> Some m
      | None \<Rightarrow> map_option (\<lambda>(l, ts, b). mirror_row (row_of_login l) ts b) (find (\<lambda>i. login_id (fst i) = g) is))"
proof (induction "is" arbitrary: t)
  case (Cons i "is")
  obtain l ts b where i: "i = (l, ts, b)" by (cases i) auto
  have "with_guid g (loginsM (insert_mirror i t)) =
      (case with_guid g (loginsM t) of Some m \<Rightarrow> Some m | None \<Rightarrow> if login_id l = g then Some (mirror_row (row_of_login l) ts b) else None)"
    by (simp add: i insert_mirror_def lookups)
  then show ?case by (auto simp: Cons.IH i split: option.splits)
qed (auto split: option.splits)

lemma fold_keeps: "(\<And>u t. P t \<Longrightarrow> P (f u t)) \<Longrightarrow> P t \<Longrightarrow> P (fold f us t)"
  by (induction us arbitrary: t) auto

lemma run_plan_distinct:
  assumes "distinct (map col_guid (loginsL t))" "distinct (map col_guid (loginsM t))"
  shows "distinct (map col_guid (loginsL (run_plan ms plan t)))" "distinct (map col_guid (loginsM (run_plan ms plan t)))"
proof -
  have L: "distinct (map col_guid (loginsL (fold (update_local ms) us t)))" if "distinct (map col_guid (loginsL t))" for us t
    by (rule fold_keeps [where P = "\<lambda>t. distinct (map col_guid (loginsL t))", OF _ that]) (simp add: update_local_def distinct_update_where)
  have U: "distinct (map col_guid (loginsM (fold update_mirror us t)))" if "distinct (map col_guid (loginsM t))" for us t
    by (rule fold_keeps [where P = "\<lambda>t. distinct (map col_guid (loginsM t))", OF _ that]) (simp add: update_mirror_def distinct_update_where)
  have I: "distinct (map col_guid (loginsM (fold insert_mirror us t)))" if "distinct (map col_guid (loginsM t))" for us t
    by (rule fold_keeps [where P = "\<lambda>t. distinct (map col_guid (loginsM t))", OF _ that])
      (simp add: insert_mirror_def distinct_insert_row split: prod.splits)
  show "distinct (map col_guid (loginsL (run_plan ms plan t)))"
    using assms(1) unfolding run_plan_def
    by (intro L) (simp add: fold_insert_mirror_L fold_update_mirror_L delete_mirrors_def delete_locals_def distinct_delete_guids)
  show "distinct (map col_guid (loginsM (run_plan ms plan t)))"
    using assms(2) unfolding run_plan_def fold_update_local_M
    by (intro I U) (simp add: delete_mirrors_def delete_locals_def distinct_delete_guids)
qed

abbreviation decision_for :: "string \<Rightarrow> Decision list \<Rightarrow> Decision option" where
  "decision_for g decs \<equiv> find (\<lambda>d. decision_guid d = g) decs"

definition decisions_ok :: "Decision list \<Rightarrow> bool" where
  "decisions_ok decs \<longleftrightarrow> distinct (map decision_guid decs) \<and>
     (\<forall>new up ts. ThreeWay new up ts \<in> set decs \<longrightarrow> login_id (ml_login new) = login_id up)"

lemma decision_for_Some: "decision_for g decs = Some d \<Longrightarrow> d \<in> set decs \<and> decision_guid d = g"
  by (auto simp: find_Some_iff)

lemma decision_for_None: "g \<notin> decision_guid ` set decs \<Longrightarrow> decision_for g decs = None"
  by (auto simp: find_None_iff)

lemma decision_for_mem:
  "distinct (map decision_guid decs) \<Longrightarrow> d \<in> set decs \<Longrightarrow> decision_for (decision_guid d) decs = Some d"
proof (induction decs)
  case (Cons x decs)
  then show ?case by (cases "x = d") auto
qed simp

lemma fold_concat_unique:
  assumes "distinct (map decision_guid decs)" "\<And>d u. d \<in> set decs \<Longrightarrow> u \<in> set (h d) \<Longrightarrow> k u = decision_guid d"
  shows "fold (\<lambda>u m. if k u = g then F u m else m) (concat (map h decs)) m =
     (case decision_for g decs of None \<Rightarrow> m | Some d \<Rightarrow> fold F (h d) m)"
  using assms
proof (induction decs arbitrary: m)
  case (Cons d decs)
  have other: "fold (\<lambda>u m. if k u = g then F u m else m) us m = m" if "\<And>u. u \<in> set us \<Longrightarrow> k u \<noteq> g" for us m
    using that by (induction us arbitrary: m) auto
  have this_one: "fold (\<lambda>u m. if k u = g then F u m else m) us m = fold F us m" if "\<And>u. u \<in> set us \<Longrightarrow> k u = g" for us m
    using that by (induction us arbitrary: m) auto
  show ?case
  proof (cases "decision_guid d = g")
    case True
    then have "decision_for g decs = None" using Cons.prems(1) by (intro decision_for_None) auto
    moreover have "fold (\<lambda>u m. if k u = g then F u m else m) (h d) m = fold F (h d) m"
      using Cons.prems(2) [of d] True by (intro this_one) auto
    ultimately show ?thesis using Cons True by simp
  next
    case False
    have "fold (\<lambda>u m. if k u = g then F u m else m) (h d) m = m"
      using Cons.prems(2) [of d] False by (intro other) auto
    then show ?thesis using Cons False by simp
  qed
qed simp

lemma find_concat_unique:
  assumes "distinct (map decision_guid decs)" "\<And>d u. d \<in> set decs \<Longrightarrow> u \<in> set (h d) \<Longrightarrow> k u = decision_guid d"
  shows "find (\<lambda>u. k u = g) (concat (map h decs)) =
     (case decision_for g decs of None \<Rightarrow> None | Some d \<Rightarrow> (case h d of [] \<Rightarrow> None | u # _ \<Rightarrow> Some u))"
  using assms
proof (induction decs)
  case (Cons d decs)
  have app: "find P (xs @ ys) = (case find P xs of None \<Rightarrow> find P ys | Some x \<Rightarrow> Some x)" for P :: "'b \<Rightarrow> bool" and xs ys
    by (induction xs) auto
  have ih: "find (\<lambda>u. k u = g) (concat (map h decs)) =
     (case decision_for g decs of None \<Rightarrow> None | Some d \<Rightarrow> (case h d of [] \<Rightarrow> None | u # _ \<Rightarrow> Some u))"
    using Cons by simp
  show ?case
  proof (cases "decision_guid d = g")
    case True
    then have "decision_for g decs = None" using Cons.prems(1) by (intro decision_for_None) auto
    then show ?thesis using ih True Cons.prems(2) [of d] by (cases "h d") (auto simp: app)
  next
    case False
    then have "find (\<lambda>u. k u = g) (h d) = None" using Cons.prems(2) [of d] by (auto simp: find_None_iff)
    then show ?thesis using ih False by (simp add: app)
  qed
qed simp

lemma mirror_deletes_iff:
  "distinct (map decision_guid decs) \<Longrightarrow> (\<exists>d \<in> set decs. g \<in> set (mirror_deletes d)) \<longleftrightarrow> decision_for g decs = Some (DeleteBoth g)"
proof (induction decs)
  case (Cons d decs)
  have "g \<in> set (mirror_deletes d) \<longleftrightarrow> d = DeleteBoth g" by (cases d) auto
  moreover have "decision_guid d = g \<Longrightarrow> decision_for g decs \<noteq> Some (DeleteBoth g)"
    using Cons.prems decision_for_None [of g decs] by auto
  ultimately show ?case using Cons by auto
qed simp

definition locally_deleted :: "Decision list \<Rightarrow> string \<Rightarrow> bool" where
  "locally_deleted decs g \<longleftrightarrow> (\<exists>d \<in> set decs. g \<in> set (local_deletes d))"

lemma plan_mirror:
  assumes "decisions_ok decs"
  shows "with_guid g (loginsM (run_plan ms (fold apply_decision decs empty_plan) t)) =
     (case decision_for g decs of
        None \<Rightarrow> with_guid g (loginsM t)
      | Some (DeleteBoth _) \<Rightarrow> None
      | Some (ThreeWay new up ts) \<Rightarrow> map_option (update_mirror_row up (millis_i64 ts)) (with_guid g (loginsM t))
      | Some (Forward up ts) \<Rightarrow> map_option (update_mirror_row up (millis_i64 ts)) (with_guid g (loginsM t))
      | Some (TwoWay l up ts) \<Rightarrow> (case with_guid g (loginsM t) of Some m \<Rightarrow> Some m
          | None \<Rightarrow> Some (mirror_row (row_of_login up) (millis_i64 ts) (overrides l up)))
      | Some (InsertNew up ts) \<Rightarrow> (case with_guid g (loginsM t) of Some m \<Rightarrow> Some m
          | None \<Rightarrow> Some (mirror_row (row_of_login up) (millis_i64 ts) False)))"
proof -
  have d: "distinct (map decision_guid decs)" using assms by (simp add: decisions_ok_def)
  have u: "u \<in> set (m_updates x) \<Longrightarrow> login_id (fst u) = decision_guid x" for u x by (cases x) auto
  have i: "u \<in> set (m_inserts x) \<Longrightarrow> login_id (fst u) = decision_guid x" for u x by (cases x) auto
  let ?t1 = "delete_mirrors (concat (map mirror_deletes decs)) (delete_locals (concat (map local_deletes decs)) t)"
  have t1: "with_guid g (loginsM ?t1) = (if decision_for g decs = Some (DeleteBoth g) then None else with_guid g (loginsM t))"
    using mirror_deletes_iff [OF d, of g] by (simp add: delete_mirrors_def delete_locals_def lookups)
  have F: "fold (\<lambda>u m. if login_id (fst u) = g then update_mirror_row (fst u) (snd u) m else m) (concat (map m_updates decs)) m =
      (case decision_for g decs of None \<Rightarrow> m | Some d \<Rightarrow> fold (\<lambda>u. update_mirror_row (fst u) (snd u)) (m_updates d) m)" for m
    by (rule fold_concat_unique [OF d]) (simp add: u)
  have I: "find (\<lambda>u. login_id (fst u) = g) (concat (map m_inserts decs)) =
      (case decision_for g decs of None \<Rightarrow> None | Some d \<Rightarrow> (case m_inserts d of [] \<Rightarrow> None | u # _ \<Rightarrow> Some u))"
    by (rule find_concat_unique [OF d]) (simp add: i)
  show ?thesis
    unfolding run_plan_def fold_decisions_eq empty_plan_def UpdatePlan.simps append_Nil fold_update_local_M
      fold_insert_mirror fold_update_mirror t1 F I
    by (auto simp: option.map_ident dest: decision_for_Some split: option.splits Decision.splits)
qed

lemma plan_local:
  assumes "decisions_ok decs"
  shows "with_guid g (loginsL (run_plan ms (fold apply_decision decs empty_plan) t)) =
     (if locally_deleted decs g then None
      else case decision_for g decs of
        Some (ThreeWay new up ts) \<Rightarrow> map_option (update_local_row ms (ml_login new)) (with_guid g (loginsL t))
      | _ \<Rightarrow> with_guid g (loginsL t))"
proof -
  have d: "distinct (map decision_guid decs)" using assms by (simp add: decisions_ok_def)
  have u: "x \<in> set decs \<Longrightarrow> u \<in> set (l_updates x) \<Longrightarrow> login_id (ml_login u) = decision_guid x" for u x
    using assms by (cases x) (auto simp: decisions_ok_def)
  have F: "fold (\<lambda>u r. if login_id (ml_login u) = g then update_local_row ms (ml_login u) r else r) (concat (map l_updates decs)) r =
      (case decision_for g decs of None \<Rightarrow> r | Some d \<Rightarrow> fold (\<lambda>u. update_local_row ms (ml_login u)) (l_updates d) r)" for r
    by (rule fold_concat_unique [OF d]) (simp add: u)
  show ?thesis
    unfolding run_plan_def fold_decisions_eq empty_plan_def UpdatePlan.simps append_Nil
      fold_update_local fold_insert_mirror_L fold_update_mirror_L F
    by (auto simp: delete_mirrors_def delete_locals_def lookups locally_deleted_def option.map_id option.map_ident split: option.splits Decision.splits)
qed

section \<open>Applying a changeset\<close>

lemma does_amapM:
  assumes "\<And>x. does (f x) (\<lambda>t y t'. t' = t \<and> g x = Ok y)"
  shows "does (amapM f xs) (\<lambda>t ys t'. t' = t \<and> omapM g xs = Ok ys)"
proof (induction xs)
  case (Cons x xs)
  show ?case
    by (simp, rule does_weaken [OF does_abind [OF assms does_abind [OF Cons.IH does_ret]]]) auto
qed (simp add: does_def ret_def)

abbreviation pending :: "LoginTables \<Rightarrow> LocalRow list" where
  "pending t \<equiv> filter (\<lambda>r. col_sync_status r \<noteq> sync_status_u8 Synced) (loginsL t)"

lemma does_fetch_outgoing:
  "does (fetch_outgoing env st) (\<lambda>t out t'. t' = t \<and> omapM outgoing_payload (pending t) = Ok (changes out) \<and>
     rc_collection out = ''passwords'' \<and> rc_timestamp out = st)"
proof -
  have "does (amapM (\<lambda>r. abind (scope_check env) (\<lambda>_. lift (outgoing_payload r))) rows) (\<lambda>t ys t'. t' = t \<and> omapM outgoing_payload rows = Ok ys)" for rows
    by (rule does_amapM) (rule does_weaken [OF does_abind [OF does_scope does_lift]], auto)
  then show ?thesis
    unfolding fetch_outgoing_def
    by (intro does_weaken [OF does_abind [OF does_read does_abind [OF _ does_ret]]]) (auto simp: changeset_new_def)
qed

lemma fetchedD:
  assumes "fetched t p d"
  shows "sd_guid d = pl_id (fst p)" "sd_mirror d = map_option mirror_from_row (with_guid (pl_id (fst p)) (loginsM t))"
    "with_guid (pl_id (fst p)) (loginsL t) = None \<Longrightarrow> sd_local d = None"
    "with_guid (pl_id (fst p)) (loginsL t) = Some r \<Longrightarrow> \<exists>l. local_from_row r = Ok l \<and> sd_local d = Some l"
    "if pl_deleted (fst p) then sd_inbound d = (None, snd p)
     else \<exists>up. payload_into_login (fst p) = Ok up \<and> sd_inbound d = (Some up, snd p) \<and> login_id up = pl_id (fst p)"
proof -
  obtain d0 where d0: "from_payload (fst p) (snd p) = Ok d0" "sd_inbound d = sd_inbound d0" using assms by (auto simp: fetched_def)
  then show "if pl_deleted (fst p) then sd_inbound d = (None, snd p)
     else \<exists>up. payload_into_login (fst p) = Ok up \<and> sd_inbound d = (Some up, snd p) \<and> login_id up = pl_id (fst p)"
    using from_payload_Ok [OF d0(1)] by (auto simp: from_payload_def is_tombstone_def obind_Ok_iff split: if_splits)
qed (use assms in \<open>auto simp: fetched_def\<close>)

definition decision_table :: "'w LoginEnv \<Rightarrow> bool \<Rightarrow> LoginTables \<Rightarrow> ServerTimestamp \<Rightarrow> Payload \<times> ServerTimestamp \<Rightarrow> Decision \<Rightarrow> bool" where
  "decision_table env dbg t server_now p dec \<longleftrightarrow>
     (let g = pl_id (fst p) in
      if pl_deleted (fst p) then dec = DeleteBoth g
      else \<exists>up. payload_into_login (fst p) = Ok up \<and> login_id up = g \<and>
        (case (with_guid g (loginsM t), with_guid g (loginsL t)) of
           (None, None) \<Rightarrow> dec = (case find (is_dupe env up) (loginsL t) of
              None \<Rightarrow> InsertNew up (snd p) | Some r \<Rightarrow> TwoWay (login_from_row r) up (snd p))
         | (Some m, None) \<Rightarrow> dec = Forward up (snd p)
         | (None, Some r) \<Rightarrow> dec = TwoWay (login_from_row r) up (snd p)
         | (Some m, Some r) \<Rightarrow> \<exists>now l new. local_from_row r = Ok l \<and> dec = ThreeWay new up (snd p) \<and> login_id (ml_login new) = g \<and>
             (\<forall>plan. plan_three_way_merge dbg now l (mirror_from_row m) up (snd p) server_now plan = Ok (apply_decision dec plan))))"

lemma local_from_row_login: "local_from_row r = Ok l \<Longrightarrow> ll_login l = login_from_row r"
  by (auto simp: local_from_row_def obind_Ok_iff)

lemma decision_tableI:
  assumes "fetched t p d" "decides env dbg t server_now d dec" shows "decision_table env dbg t server_now p dec"
proof -
  note f = fetchedD [OF assms(1)]
  let ?g = "pl_id (fst p)"
  show ?thesis
  proof (cases "pl_deleted (fst p)")
    case True
    then show ?thesis using assms(2) f(1,5) by (simp add: decision_table_def decides_def Let_def)
  next
    case False
    then obtain up where up: "payload_into_login (fst p) = Ok up" "sd_inbound d = (Some up, snd p)" "login_id up = ?g" using f(5) by auto
    show ?thesis
    proof (cases "with_guid ?g (loginsL t)")
      case None
      then show ?thesis
        using assms(2) f(2) f(3) False up
        by (cases "with_guid ?g (loginsM t)") (auto simp: decision_table_def decides_def Let_def split: option.splits)
    next
      case (Some r)
      then obtain l where l: "local_from_row r = Ok l" "sd_local d = Some l" "ll_login l = login_from_row r"
        using f(4) local_from_row_login by blast
      show ?thesis
      proof (cases "with_guid ?g (loginsM t)")
        case None
        then show ?thesis using assms(2) f(2) False up Some l by (simp add: decision_table_def decides_def Let_def)
      next
        case m: (Some m)
        then have "login_id (ml_login (mirror_from_row m)) = ?g" by (auto simp: mirror_from_row_def dest: with_guid_guid)
        then show ?thesis
          using assms(2) f(2) False up Some l m by (auto simp: decision_table_def decides_def Let_def)
      qed
    qed
  qed
qed

lemma decision_facts:
  assumes "decision_table env dbg t server_now p dec"
  shows "decision_guid dec = pl_id (fst p)"
    "\<And>new up ts. dec = ThreeWay new up ts \<Longrightarrow> login_id (ml_login new) = login_id up"
  using assms by (auto simp: decision_table_def Let_def split: if_splits option.splits)

lemma decisions_ok_table:
  assumes "list_all2 (decision_table env dbg t server_now) records decs" "distinct (map (\<lambda>r. pl_id (fst r)) records)"
  shows "decisions_ok decs" "map decision_guid decs = map (\<lambda>r. pl_id (fst r)) records"
proof -
  have l: "length records = length decs" using assms(1) by (auto dest: list_all2_lengthD)
  have n: "decision_table env dbg t server_now (records ! i) (decs ! i)" if "i < length decs" for i
    using assms(1) that l by (auto simp: list_all2_conv_all_nth)
  show m: "map decision_guid decs = map (\<lambda>r. pl_id (fst r)) records"
    using l decision_facts(1) [OF n] by (intro nth_equalityI) auto
  have "login_id (ml_login new) = login_id up" if "ThreeWay new up ts \<in> set decs" for new up ts
    using that decision_facts(2) [OF n] by (auto simp: in_set_conv_nth)
  then show "decisions_ok decs" using assms(2) by (simp add: decisions_ok_def m)
qed

lemma decision_for_record:
  assumes "list_all2 (decision_table env dbg t server_now) records decs" "distinct (map (\<lambda>r. pl_id (fst r)) records)" "p \<in> set records"
  obtains dec where "decision_for (pl_id (fst p)) decs = Some dec" "decision_table env dbg t server_now p dec" "dec \<in> set decs"
proof -
  obtain i where i: "i < length records" "p = records ! i" using assms(3) by (auto simp: in_set_conv_nth)
  then have d: "decision_table env dbg t server_now p (decs ! i)" "decs ! i \<in> set decs"
    using assms(1) by (auto simp: list_all2_conv_all_nth)
  have "distinct (map decision_guid decs)" using decisions_ok_table [OF assms(1,2)] assms(2) by simp
  then show thesis using that d decision_for_mem decision_facts(1) [OF d(1)] by metis
qed

lemma decision_for_mem_record:
  assumes "list_all2 (decision_table env dbg t server_now) records decs" "dec \<in> set decs"
  obtains p where "p \<in> set records" "decision_table env dbg t server_now p dec"
  using assms by (metis in_set_conv_nth list_all2_conv_all_nth)

definition refreshed :: "Login \<Rightarrow> Login \<Rightarrow> Login" where
  "refreshed up old =
     up\<lparr>times_used := nonzero_or (times_used up) (times_used old),
        time_last_used := nonzero_or (time_last_used up) (time_last_used old),
        time_password_changed := nonzero_or (time_password_changed up) (time_password_changed old),
        time_created := nonzero_or (time_created up) (time_created old)\<rparr>"

lemma login_from_update_mirror_row:
  "col_guid m = login_id up \<Longrightarrow> login_from_row (update_mirror_row up ts m) = refreshed up (login_from_row m)"
  by (simp add: login_from_row_def update_mirror_row_def refreshed_def or_empty_def nonzero_or_def)

lemma login_from_update_local_row:
  "col_guid r = login_id l \<Longrightarrow> login_from_row (update_local_row ms l r) = l\<lparr>time_created := col_timeCreated r\<rparr>"
  by (simp add: login_from_row_def update_local_row_def or_empty_def)

text \<open>What the user sees of one incoming record afterwards.\<close>

definition applied :: "bool \<Rightarrow> ServerTimestamp \<Rightarrow> LoginTables \<Rightarrow> Payload \<times> ServerTimestamp \<Rightarrow> LoginTables \<Rightarrow> bool" where
  "applied dbg server_now t p t' \<longleftrightarrow>
     (let g = pl_id (fst p) in
      if pl_deleted (fst p) then with_guid g (loginsL t') = None \<and> with_guid g (loginsM t') = None
      else \<exists>up. payload_into_login (fst p) = Ok up \<and>
        (case (with_guid g (loginsM t), with_guid g (loginsL t)) of
           (None, None) \<Rightarrow> visible t' g = Some up
         | (Some m, None) \<Rightarrow> visible t' g = (if col_is_overridden m then None else Some (refreshed up (login_from_row m)))
         | (None, Some r) \<Rightarrow> visible t' g = (if overrides (login_from_row r) up then visible t g else Some up)
         | (Some m, Some r) \<Rightarrow> \<exists>now l plan new. local_from_row r = Ok l \<and>
             plan_three_way_merge dbg now l (mirror_from_row m) up (snd p) server_now empty_plan = Ok plan \<and>
             local_updates plan = [new] \<and>
             visible t' g = (if col_is_deleted r then None else Some ((ml_login new)\<lparr>time_created := col_timeCreated r\<rparr>))))"

text \<open>No record that is new to the database is taken for a duplicate of a local one.\<close>

definition no_dupes :: "'w LoginEnv \<Rightarrow> LoginTables \<Rightarrow> (Payload \<times> ServerTimestamp) list \<Rightarrow> bool" where
  "no_dupes env t records \<longleftrightarrow>
     (\<forall>p \<in> set records. \<forall>up. payload_into_login (fst p) = Ok up \<longrightarrow>
        with_guid (pl_id (fst p)) (loginsM t) = None \<longrightarrow> with_guid (pl_id (fst p)) (loginsL t) = None \<longrightarrow>
        list_all (\<lambda>r. \<not> is_dupe env up r) (loginsL t))"

definition plan_result :: "int \<Rightarrow> Decision list \<Rightarrow> LoginTables \<Rightarrow> LoginTables" where
  "plan_result ms decs t = run_plan ms (fold apply_decision decs empty_plan) t"

lemma does_do_apply_incoming:
  "does (do_apply_incoming env dbg inbound) (\<lambda>t out t'. db_ok t \<longrightarrow>
     (\<exists>decs ms. distinct (map (\<lambda>r. pl_id (fst r)) (changes inbound)) \<and>
        list_all2 (decision_table env dbg t (rc_timestamp inbound)) (changes inbound) decs \<and> t' = plan_result ms decs t \<and>
        omapM outgoing_payload (pending t') = Ok (changes out)))"
proof -
  have t: "list_all2 (decision_table env dbg t sn) rs decs"
    if "list_all2 (fetched t) rs ds" "list_all2 (decides env dbg t sn) ds decs" for t rs ds decs sn
    by (rule list_all2_trans [rule_format, OF decision_tableI that])
  show ?thesis
    unfolding do_apply_incoming_def execute_plan_def plan_result_def
    by (rule does_weaken [OF does_abind [OF does_fetch_login_data does_abind [OF does_reconcile
          does_abind [OF does_transaction [OF does_execute] does_fetch_outgoing]]]])
      (auto simp: db_ok_def intro: t)
qed

lemma locally_deleted_iff:
  "locally_deleted decs g \<longleftrightarrow> DeleteBoth g \<in> set decs \<or> (\<exists>l up ts. TwoWay l up ts \<in> set decs \<and> \<not> overrides l up \<and> login_id l = g)"
proof -
  have "g \<in> set (local_deletes d) \<longleftrightarrow> d = DeleteBoth g \<or> (\<exists>l up ts. d = TwoWay l up ts \<and> \<not> overrides l up \<and> login_id l = g)" for d
    by (cases d) auto
  then show ?thesis by (auto simp: locally_deleted_def)
qed

lemma plan_result_ok:
  assumes "db_ok t" "list_all2 (decision_table env dbg t server_now) records decs" "distinct (map (\<lambda>r. pl_id (fst r)) records)"
  shows "db_ok (plan_result ms decs t)"
  unfolding db_ok_def plan_result_def
proof (intro conjI allI impI)
  note ok = decisions_ok_table(1) [OF assms(2,3)]
  fix g m assume m: "with_guid g (loginsM (run_plan ms (fold apply_decision decs empty_plan) t)) = Some m"
    and l: "with_guid g (loginsL (run_plan ms (fold apply_decision decs empty_plan) t)) \<noteq> None"
  note M = m [unfolded plan_mirror [OF ok]] and L = l [unfolded plan_local [OF ok]]
  have nd: "\<not> locally_deleted decs g" using L by (auto split: if_splits)
  show "col_is_overridden m"
  proof (cases "decision_for g decs")
    case None
    then show ?thesis using M L nd db_ok_overridden [OF assms(1)] by simp
  next
    case (Some dec)
    then have dec: "dec \<in> set decs" "decision_guid dec = g" by (auto dest: decision_for_Some)
    then obtain p where p: "p \<in> set records" "decision_table env dbg t server_now p dec"
      using decision_for_mem_record [OF assms(2)] by blast
    have g: "pl_id (fst p) = g" using decision_facts(1) [OF p(2)] dec(2) by simp
    note tab = p(2) [unfolded decision_table_def Let_def g]
    show ?thesis
    proof (cases dec)
      case (DeleteBoth x)
      then show ?thesis using M Some by simp
    next
      case (ThreeWay new up ts)
      then obtain m0 where "with_guid g (loginsM t) = Some m0" "m = update_mirror_row up (millis_i64 ts) m0" using M Some by auto
      then show ?thesis using db_ok_overridden [OF assms(1)] L Some ThreeWay by (auto split: if_splits)
    next
      case (Forward up ts)
      then show ?thesis using tab L Some by (auto split: if_splits option.splits)
    next
      case (TwoWay l up ts)
      then obtain r where r: "with_guid g (loginsL t) = Some r" using L Some by (auto split: if_splits)
      then have "l = login_from_row r" "with_guid g (loginsM t) = None" using tab TwoWay by (auto split: if_splits option.splits)
      moreover have "login_id l = g" using \<open>l = login_from_row r\<close> with_guid_guid [OF r] by simp
      moreover have "overrides l up"
        using nd TwoWay dec(1) \<open>login_id l = g\<close> unfolding locally_deleted_iff by blast
      ultimately show ?thesis using M Some TwoWay by auto
    next
      case (InsertNew up ts)
      then show ?thesis using tab L Some by (auto split: if_splits option.splits)
    qed
  qed
qed (use assms(1) run_plan_distinct in \<open>auto simp: db_ok_def\<close>)

lemma no_dupes_find:
  assumes "no_dupes env t records" "p \<in> set records" "payload_into_login (fst p) = Ok up"
    "with_guid (pl_id (fst p)) (loginsM t) = None" "with_guid (pl_id (fst p)) (loginsL t) = None"
  shows "find (is_dupe env up) (loginsL t) = None"
  using assms by (auto simp: no_dupes_def find_None_iff list_all_iff)

lemma two_way_is_local:
  assumes "no_dupes env t records" "p \<in> set records" "decision_table env dbg t server_now p (TwoWay l up ts)"
  obtains r where "with_guid (pl_id (fst p)) (loginsL t) = Some r" "l = login_from_row r"
    "with_guid (pl_id (fst p)) (loginsM t) = None" "login_id l = pl_id (fst p)"
  using assms(3) no_dupes_find [OF assms(1,2)] that
  by (auto simp: decision_table_def Let_def dest: with_guid_guid split: if_splits option.splits)

lemma locally_deleted_no_dupes:
  assumes "list_all2 (decision_table env dbg t server_now) records decs" "distinct (map (\<lambda>r. pl_id (fst r)) records)" "no_dupes env t records"
  shows "locally_deleted decs g \<longleftrightarrow>
     (case decision_for g decs of Some (DeleteBoth _) \<Rightarrow> True | Some (TwoWay l up ts) \<Rightarrow> \<not> overrides l up | _ \<Rightarrow> False)"
proof -
  have d: "distinct (map decision_guid decs)" using decisions_ok_table [OF assms(1,2)] assms(2) by simp
  have a: "decision_for g decs = Some (TwoWay l up ts)" if tw: "TwoWay l up ts \<in> set decs" "login_id l = g" for l up ts
  proof -
    obtain p where p: "p \<in> set records" "decision_table env dbg t server_now p (TwoWay l up ts)"
      using decision_for_mem_record [OF assms(1) tw(1)] by blast
    then have "login_id l = pl_id (fst p)" by (metis two_way_is_local [OF assms(3)])
    then show ?thesis using decision_for_mem [OF d tw(1)] decision_facts(1) [OF p(2)] tw(2) by simp
  qed
  have b: "decision_for g decs = Some (DeleteBoth g)" if "DeleteBoth g \<in> set decs" using decision_for_mem [OF d that] by simp
  have c: "login_id l = g" if "decision_for g decs = Some (TwoWay l up ts)" for l up ts
  proof -
    have m: "TwoWay l up ts \<in> set decs" "decision_guid (TwoWay l up ts) = g" using decision_for_Some [OF that] by auto
    obtain p where p: "p \<in> set records" "decision_table env dbg t server_now p (TwoWay l up ts)"
      using decision_for_mem_record [OF assms(1) m(1)] by blast
    then show ?thesis using decision_facts(1) [OF p(2)] m(2) by (metis two_way_is_local [OF assms(3)])
  qed
  show ?thesis
  proof
    assume "locally_deleted decs g"
    then show "case decision_for g decs of Some (DeleteBoth _) \<Rightarrow> True | Some (TwoWay l up ts) \<Rightarrow> \<not> overrides l up | _ \<Rightarrow> False"
      using a b by (auto simp: locally_deleted_iff)
  next
    assume "case decision_for g decs of Some (DeleteBoth _) \<Rightarrow> True | Some (TwoWay l up ts) \<Rightarrow> \<not> overrides l up | _ \<Rightarrow> False"
    then show "locally_deleted decs g"
      using c by (auto simp: locally_deleted_iff dest: decision_for_Some split: option.splits Decision.splits)
  qed
qed

lemma plan_result_applied:
  assumes "db_ok t" "list_all2 (decision_table env dbg t server_now) records decs" "distinct (map (\<lambda>r. pl_id (fst r)) records)"
    "no_dupes env t records" "p \<in> set records"
  shows "applied dbg server_now t p (plan_result ms decs t)"
proof -
  let ?g = "pl_id (fst p)"
  note ok = decisions_ok_table(1) [OF assms(2,3)]
  obtain dec where dec: "decision_for ?g decs = Some dec" "decision_table env dbg t server_now p dec" "dec \<in> set decs"
    using decision_for_record [OF assms(2,3,5)] by blast
  note M = plan_mirror [OF ok, of ?g ms t, folded plan_result_def]
    and L = plan_local [OF ok, of ?g ms t, folded plan_result_def, unfolded locally_deleted_no_dupes [OF assms(2-4)]]
  show ?thesis
  proof (cases "pl_deleted (fst p)")
    case True
    then show ?thesis using dec M L by (simp add: applied_def decision_table_def Let_def)
  next
    case False
    then obtain up where up: "payload_into_login (fst p) = Ok up" "login_id up = ?g" using dec(2) by (auto simp: decision_table_def Let_def)
    note tab = dec(2) [unfolded decision_table_def Let_def, simplified False up, simplified]
    show ?thesis
    proof (cases "with_guid ?g (loginsL t)")
      case None
      show ?thesis
      proof (cases "with_guid ?g (loginsM t)")
        case m: None
        then have "dec = InsertNew up (snd p)" using tab None no_dupes_find [OF assms(4,5) up(1) m None] up by auto
        then show ?thesis using False up M L dec(1) None m by (simp add: applied_def visible_def)
      next
        case (Some m)
        then have "dec = Forward up (snd p)" using tab None up by auto
        then show ?thesis
          using False up M L dec(1) None Some with_guid_guid [OF Some]
          by (simp add: applied_def visible_def login_from_update_mirror_row)
      qed
    next
      case (Some r)
      show ?thesis
      proof (cases "with_guid ?g (loginsM t)")
        case None
        then have "dec = TwoWay (login_from_row r) up (snd p)" using tab Some up by auto
        then show ?thesis using False up M L dec(1) None Some by (simp add: applied_def visible_def)
      next
        case m: (Some m)
        then obtain now l new where t: "local_from_row r = Ok l" "dec = ThreeWay new up (snd p)" "login_id (ml_login new) = ?g"
            "plan_three_way_merge dbg now l (mirror_from_row m) up (snd p) server_now empty_plan = Ok (apply_decision dec empty_plan)"
          using tab Some m up by (simp del: apply_decision.simps) blast
        then show ?thesis
          using False up M L dec(1) m Some with_guid_guid [OF Some]
          by (auto simp: applied_def visible_def login_from_update_local_row empty_plan_def intro!: exI [of _ now])
      qed
    qed
  qed
qed

lemma plan_result_others:
  assumes "list_all2 (decision_table env dbg t server_now) records decs" "distinct (map (\<lambda>r. pl_id (fst r)) records)"
    "no_dupes env t records" "g \<notin> (\<lambda>r. pl_id (fst r)) ` set records"
  shows "with_guid g (loginsL (plan_result ms decs t)) = with_guid g (loginsL t)"
    "with_guid g (loginsM (plan_result ms decs t)) = with_guid g (loginsM t)"
proof -
  note ok = decisions_ok_table [OF assms(1,2)]
  have "decision_guid ` set decs = (\<lambda>r. pl_id (fst r)) ` set records" using ok(2) by (metis list.set_map)
  then have "decision_for g decs = None" using assms(4) by (intro decision_for_None) auto
  then show "with_guid g (loginsL (plan_result ms decs t)) = with_guid g (loginsL t)"
    "with_guid g (loginsM (plan_result ms decs t)) = with_guid g (loginsM t)"
    by (simp_all add: plan_result_def plan_mirror [OF ok(1)] plan_local [OF ok(1)] locally_deleted_no_dupes [OF assms(1-3)])
qed


text \<open>
  An incoming login that is taken for a duplicate of a local one whose password changed later is
  inserted into the mirror as overridden although no local row has its guid: the user does not
  see it, and nothing about it is uploaded.
\<close>

lemma overridden_dupe_is_hidden:
  assumes "db_ok t" "do_apply_incoming env dbg inbound (w, t) = (Ok out, (w', t'))" "p \<in> set (changes inbound)"
    "\<not> pl_deleted (fst p)" "payload_into_login (fst p) = Ok up"
    "with_guid (pl_id (fst p)) (loginsM t) = None" "with_guid (pl_id (fst p)) (loginsL t) = None"
    "find (is_dupe env up) (loginsL t) = Some r" "overrides (login_from_row r) up"
  shows "hidden t' (pl_id (fst p))"
proof -
  obtain decs ms where d: "distinct (map (\<lambda>r. pl_id (fst r)) (changes inbound))"
      "list_all2 (decision_table env dbg t (rc_timestamp inbound)) (changes inbound) decs" "t' = plan_result ms decs t"
    using doesD [OF does_do_apply_incoming assms(2)] assms(1) by blast
  note ok = decisions_ok_table(1) [OF d(2,1)]
  obtain dec where dec: "decision_for (pl_id (fst p)) decs = Some dec" "decision_table env dbg t (rc_timestamp inbound) p dec"
    using decision_for_record [OF d(2,1) assms(3)] by blast
  then have "dec = TwoWay (login_from_row r) up (snd p)" using assms(4-8) by (simp add: decision_table_def Let_def)
  then show ?thesis
    using dec(1) assms(6,7,9) d(3) by (auto simp: hidden_def plan_result_def plan_mirror [OF ok] plan_local [OF ok])
qed

section \<open>Witnesses\<close>

definition inbound1 :: IncomingChangeset where
  "inbound1 = \<lparr>changes = [(new_tombstone ''aaaaaaaaaaaa'', 5)], rc_timestamp = 6, rc_collection = ''passwords''\<rparr>"

lemma inbound1_applied: "\<exists>out w' t'. do_apply_incoming login_env1 True inbound1 ((), login_db1) = (Ok out, (w', t'))"
  by (simp add: do_apply_incoming_def fetch_login_data_def inbound1_def login_env1_def login_db1_def from_payload_def is_tombstone_def
      new_tombstone_def scope_check_def with_data_def each_sized_chunk_mapped_def chunks.simps sql_read_def fetched_rows_def
      login1_def local_from_row_def modify_data_def set_at_def set_local_def login_from_row_def local_row_def LoginRow.defs
      row_of_login_def enumerate_eq_zip execute_plan_def transaction_def execute_def perform_deletes_def perform_mirror_updates_def
      perform_mirror_inserts_def perform_local_updates_def plan_delete_def empty_plan_def each_chunk_def each_sized_chunk_def
      sql_write_def put_st_def now_millis_def now_ns_def fetch_outgoing_def delete_locals_def delete_mirrors_def delete_guids_def
      abind_def get_st_def on_world_def ret_def lift_def rollback_def)


end
