(* ===== verification/LoginSchema.thy ===== *)
theory LoginSchema
  imports LoginDbCorrect "HOL-Library.Signed_Division"
begin

text \<open>
  Opening the logins database (\<^verbatim>\<open>components/logins/src/schema.rs\<close> and
  \<^verbatim>\<open>LoginDb::with_connection\<close>): creating the tables, and upgrading those of earlier versions.
  The file is its version number, whether the ancient table \<^verbatim>\<open>tableList\<close> exists, and the three
  tables, each of which may be missing. An index has no effect on the contents; creating one only
  needs its table.
\<close>

record LoginFile =
  user_version :: int
  has_table_list :: bool
  file_local :: "LocalRow list option"
  file_mirror :: "MirrorRow list option"
  file_meta :: "(string \<rightharpoonup> MetaValue) option"

definition VERSION :: int where
  "VERSION = 4"

type_synonym ('w, 'a) file_op = "('w \<times> LoginFile, LoginError, 'a) action"

text \<open>One statement: the engine may fail, and so may the statement.\<close>

definition file_exec :: "'w LoginEnv \<Rightarrow> (LoginFile \<Rightarrow> (LoginError, LoginFile) outcome) \<Rightarrow> ('w, unit) file_op" where
  "file_exec env f = abind (on_world (le_sql env)) (\<lambda>_. (\<lambda>(w, d). case f d of
       Ok d' \<Rightarrow> (Ok (), (w, d')) | Err e \<Rightarrow> (Err e, (w, d)) | Panic p \<Rightarrow> (Panic p, (w, d))))"

fun execute_all :: "'w LoginEnv \<Rightarrow> (LoginFile \<Rightarrow> (LoginError, LoginFile) outcome) list \<Rightarrow> ('w, unit) file_op" where
  "execute_all env [] = ret ()"
| "execute_all env (f # fs) = abind (file_exec env f) (\<lambda>_. execute_all env fs)"

definition create_local_table :: "LoginFile \<Rightarrow> (LoginError, LoginFile) outcome" where
  "create_local_table d = Ok (d\<lparr>file_local := Some (case file_local d of Some rows \<Rightarrow> rows | None \<Rightarrow> [])\<rparr>)"

definition create_mirror_table :: "LoginFile \<Rightarrow> (LoginError, LoginFile) outcome" where
  "create_mirror_table d = Ok (d\<lparr>file_mirror := Some (case file_mirror d of Some rows \<Rightarrow> rows | None \<Rightarrow> [])\<rparr>)"

definition create_meta_table :: "LoginFile \<Rightarrow> (LoginError, LoginFile) outcome" where
  "create_meta_table d = Ok (d\<lparr>file_meta := Some (case file_meta d of Some m \<Rightarrow> m | None \<Rightarrow> Map.empty)\<rparr>)"

definition create_override_index :: "LoginFile \<Rightarrow> (LoginError, LoginFile) outcome" where
  "create_override_index d =
     (if file_mirror d = None then Err (SqlError ''no such table: loginsM'') else Ok d)"

definition create_deleted_index :: "LoginFile \<Rightarrow> (LoginError, LoginFile) outcome" where
  "create_deleted_index d =
     (if file_local d = None then Err (SqlError ''no such table: loginsL'') else Ok d)"

definition set_version :: "int \<Rightarrow> LoginFile \<Rightarrow> (LoginError, LoginFile) outcome" where
  "set_version v d = Ok (d\<lparr>user_version := v\<rparr>)"

text \<open>Microseconds to milliseconds; SQL divides towards zero.\<close>

definition to_millis :: "'a LoginRow_scheme \<Rightarrow> 'a LoginRow_scheme" where
  "to_millis r =
     r\<lparr>col_timeCreated := col_timeCreated r sdiv 1000,
       col_timeLastUsed := map_option (\<lambda>t. t sdiv 1000) (col_timeLastUsed r),
       col_timePasswordChanged := col_timePasswordChanged r sdiv 1000\<rparr>"

definition update_local_timestamps :: "LoginFile \<Rightarrow> (LoginError, LoginFile) outcome" where
  "update_local_timestamps d =
     (case file_local d of
        None \<Rightarrow> Err (SqlError ''no such table: loginsL'')
      | Some rows \<Rightarrow> Ok (d\<lparr>file_local := Some (map to_millis rows)\<rparr>))"

definition update_mirror_timestamps :: "LoginFile \<Rightarrow> (LoginError, LoginFile) outcome" where
  "update_mirror_timestamps d =
     (case file_mirror d of
        None \<Rightarrow> Err (SqlError ''no such table: loginsM'')
      | Some rows \<Rightarrow> Ok (d\<lparr>file_mirror := Some (map to_millis rows)\<rparr>))"

definition schema_create :: "'w LoginEnv \<Rightarrow> ('w, unit) file_op" where
  "schema_create env =
     execute_all env
       [create_local_table, create_mirror_table, create_override_index, create_deleted_index,
        create_meta_table, set_version VERSION]"

definition schema_drop :: "'w LoginEnv \<Rightarrow> ('w, unit) file_op" where
  "schema_drop env =
     execute_all env
       [\<lambda>d. Ok (d\<lparr>file_mirror := None\<rparr>), \<lambda>d. Ok (d\<lparr>file_local := None\<rparr>), \<lambda>d. Ok (d\<lparr>file_meta := None\<rparr>), set_version 0]"

definition schema_upgrade :: "'w LoginEnv \<Rightarrow> int \<Rightarrow> ('w, unit) file_op" where
  "schema_upgrade env from =
     (if from = VERSION then ret ()
      else abind (assert_that (from \<noteq> 0) ''Upgrading from user_version = 0 should already be handled (in `init`)'') (\<lambda>_.
           abind (if from < 3 then execute_all env [create_override_index, create_deleted_index] else ret ()) (\<lambda>_.
           if from < 4
           then execute_all env [create_meta_table, update_local_timestamps, update_mirror_timestamps, set_version VERSION]
           else ret ())))"

definition schema_init :: "'w LoginEnv \<Rightarrow> ('w, unit) file_op" where
  "schema_init env =
     abind (on_world (le_sql env)) (\<lambda>_. abind get_st (\<lambda>(_, d).
     if user_version d = 0
     then abind (on_world (le_sql env)) (\<lambda>_.
          abind (if has_table_list d then schema_drop env else ret ()) (\<lambda>_.
          schema_create env))
     else if user_version d \<noteq> VERSION \<and> user_version d < VERSION then schema_upgrade env (user_version d)
     else ret ()))"

fun set_pragmas :: "'w LoginEnv \<Rightarrow> nat \<Rightarrow> ('w, unit) file_op" where
  "set_pragmas env 0 = ret ()"
| "set_pragmas env (Suc n) = abind (on_world (le_sql env)) (\<lambda>_. set_pragmas env n)"

text \<open>
  \<^verbatim>\<open>LoginDb::with_connection\<close>: the pragmas (six of them for the encryption, one for temporary files),
  then the schema in a transaction, which is rolled back unless it is committed.
\<close>

definition in_file_transaction :: "'w LoginEnv \<Rightarrow> ('w, unit) file_op \<Rightarrow> ('w, unit) file_op" where
  "in_file_transaction env m = (\<lambda>(w, d).
     case abind (on_world (le_sql env)) (\<lambda>_. abind m (\<lambda>_. on_world (le_sql env))) (w, d) of
       (Ok _, (w', d')) \<Rightarrow> (Ok (), (w', d'))
     | (Err e, (w', _)) \<Rightarrow> (Err e, (w', d))
     | (Panic p, (w', _)) \<Rightarrow> (Panic p, (w', d)))"

definition with_connection :: "'w LoginEnv \<Rightarrow> bytes option \<Rightarrow> ('w, unit) file_op" where
  "with_connection env db_key =
     abind (if db_key \<noteq> None then set_pragmas env 6 else ret ()) (\<lambda>_.
     abind (set_pragmas env 1) (\<lambda>_.
     in_file_transaction env (schema_init env)))"

section \<open>What opening does\<close>

fun exec_all :: "(LoginFile \<Rightarrow> (LoginError, LoginFile) outcome) list \<Rightarrow> LoginFile \<Rightarrow> (LoginError, LoginFile) outcome" where
  "exec_all [] d = Ok d"
| "exec_all (f # fs) d = obind (f d) (exec_all fs)"

definition opened :: "LoginFile \<Rightarrow> LoginFile" where
  "opened d =
     (if user_version d = 0
      then \<lparr>user_version = VERSION, has_table_list = has_table_list d,
            file_local = Some (if has_table_list d then [] else case file_local d of Some rows \<Rightarrow> rows | None \<Rightarrow> []),
            file_mirror = Some (if has_table_list d then [] else case file_mirror d of Some rows \<Rightarrow> rows | None \<Rightarrow> []),
            file_meta = Some (if has_table_list d then Map.empty else case file_meta d of Some m \<Rightarrow> m | None \<Rightarrow> Map.empty)\<rparr>
      else if user_version d < VERSION
      then d\<lparr>user_version := VERSION, file_local := map_option (map to_millis) (file_local d),
             file_mirror := map_option (map to_millis) (file_mirror d),
             file_meta := Some (case file_meta d of Some m \<Rightarrow> m | None \<Rightarrow> Map.empty)\<rparr>
      else d)"

lemma file_exec_Ok:
  assumes "file_exec env f (w, d) = (Ok u, (w', d'))" shows "f d = Ok d'"
  using assms by (auto simp: file_exec_def abind_def on_world_def split: prod.splits outcome.splits)

lemma execute_all_Ok:
  assumes "execute_all env fs (w, d) = (Ok u, (w', d'))" shows "exec_all fs d = Ok d'"
  using assms
proof (induction fs arbitrary: w d)
  case (Cons f fs)
  then obtain v s1 where s: "file_exec env f (w, d) = (Ok v, s1)" "execute_all env fs s1 = (Ok u, (w', d'))"
    by (auto elim: abind_OkE)
  obtain w1 d1 where e: "s1 = (w1, d1)" by (cases s1)
  show ?case using file_exec_Ok [OF s(1) [unfolded e]] Cons.IH [OF s(2) [unfolded e]] by simp
qed (simp add: ret_def)

lemmas create_defs = create_local_table_def create_mirror_table_def create_meta_table_def
  create_override_index_def create_deleted_index_def set_version_def

lemma create_runs:
  "exec_all [create_local_table, create_mirror_table, create_override_index, create_deleted_index,
     create_meta_table, set_version VERSION] d =
   Ok \<lparr>user_version = VERSION, has_table_list = has_table_list d,
     file_local = Some (case file_local d of Some rows \<Rightarrow> rows | None \<Rightarrow> []),
     file_mirror = Some (case file_mirror d of Some rows \<Rightarrow> rows | None \<Rightarrow> []),
     file_meta = Some (case file_meta d of Some m \<Rightarrow> m | None \<Rightarrow> Map.empty)\<rparr>"
  by (cases d) (simp add: create_defs)

lemma schema_upgrade_Ok:
  assumes "schema_upgrade env (user_version d) (w, d) = (Ok u, (w', d'))" "user_version d < VERSION"
  shows "exec_all [create_meta_table, update_local_timestamps, update_mirror_timestamps, set_version VERSION] d = Ok d'"
proof -
  let ?i = "if user_version d < 3 then execute_all env [create_override_index, create_deleted_index] else ret ()"
  let ?u = "execute_all env [create_meta_table, update_local_timestamps, update_mirror_timestamps, set_version VERSION]"
  have "abind ?i (\<lambda>_. ?u) (w, d) = (Ok u, (w', d'))"
    using assms by (auto simp: schema_upgrade_def abind_assert VERSION_def split: if_splits)
  then obtain v s1 where s1: "?i (w, d) = (Ok v, s1)" "?u s1 = (Ok u, (w', d'))" by (rule abind_OkE)
  obtain w1 d1 where e: "s1 = (w1, d1)" by (cases s1)
  have "exec_all (if user_version d < 3 then [create_override_index, create_deleted_index] else []) d = Ok d1"
    by (rule execute_all_Ok [of env _ w]) (use s1(1) e in \<open>auto simp: ret_def split: if_splits\<close>)
  then have "d1 = d" by (auto simp: create_defs split: if_splits)
  then show ?thesis using execute_all_Ok [OF s1(2) [unfolded e]] by simp
qed

lemma schema_drop_Ok:
  assumes "schema_drop env (w, d) = (Ok u, (w', d'))"
  shows "d' = d\<lparr>file_mirror := None, file_local := None, file_meta := None, user_version := 0\<rparr>"
  using execute_all_Ok [OF assms [unfolded schema_drop_def]] by (simp add: set_version_def)

lemma schema_init_Ok:
  assumes "schema_init env (w, d) = (Ok u, (w', d'))"
  shows "d' = opened d \<and> (user_version d < VERSION \<longrightarrow> user_version d \<noteq> 0 \<longrightarrow> file_local d \<noteq> None \<and> file_mirror d \<noteq> None)"
proof -
  obtain v s1 where s1: "on_world (le_sql env) (w, d) = (Ok v, s1)" "abind get_st (\<lambda>(_, d).
     if user_version d = 0
     then abind (on_world (le_sql env)) (\<lambda>_.
          abind (if has_table_list d then schema_drop env else ret ()) (\<lambda>_. schema_create env))
     else if user_version d \<noteq> VERSION \<and> user_version d < VERSION then schema_upgrade env (user_version d)
     else ret ()) s1 = (Ok u, (w', d'))"
    using assms unfolding schema_init_def by (rule abind_OkE)
  then obtain w1 where w1: "s1 = (w1, d)" by (metis on_world_snd prod.collapse snd_conv)
  show ?thesis
  proof (cases "user_version d = 0")
    case True
    then have "abind (on_world (le_sql env)) (\<lambda>_. abind (if has_table_list d then schema_drop env else ret ()) (\<lambda>_. schema_create env)) (w1, d)
        = (Ok u, (w', d'))" using s1(2) w1 by simp
    then obtain v2 s2 where s2: "on_world (le_sql env) (w1, d) = (Ok v2, s2)"
        "abind (if has_table_list d then schema_drop env else ret ()) (\<lambda>_. schema_create env) s2 = (Ok u, (w', d'))" by (rule abind_OkE)
    then obtain v3 s3 where s3: "(if has_table_list d then schema_drop env else ret ()) s2 = (Ok v3, s3)" "schema_create env s3 = (Ok u, (w', d'))"
      by (metis abind_OkE)
    obtain w2 w3 d3 where e: "s2 = (w2, d)" "s3 = (w3, d3)" using s2(1) by (metis on_world_snd prod.collapse snd_conv)
    have "d3 = (if has_table_list d then d\<lparr>file_mirror := None, file_local := None, file_meta := None, user_version := 0\<rparr> else d)"
      using s3(1) e schema_drop_Ok [of env w2 d v3 w3 d3] by (auto simp: ret_def split: if_splits)
    moreover have "exec_all [create_local_table, create_mirror_table, create_override_index, create_deleted_index,
        create_meta_table, set_version VERSION] d3 = Ok d'"
      using s3(2) unfolding e schema_create_def by (rule execute_all_Ok)
    ultimately show ?thesis using True create_runs [of d3] by (simp add: opened_def)
  next
    case nz: False
    show ?thesis
    proof (cases "user_version d < VERSION")
      case True
      then have "schema_upgrade env (user_version d) (w1, d) = (Ok u, (w', d'))" using s1(2) w1 nz by simp
      then have "exec_all [create_meta_table, update_local_timestamps, update_mirror_timestamps, set_version VERSION] d = Ok d'"
        using True by (rule schema_upgrade_Ok)
      then show ?thesis
        using True nz by (auto simp: opened_def create_defs update_local_timestamps_def update_mirror_timestamps_def
            split: option.splits)
    next
      case False
      then show ?thesis using s1(2) w1 nz by (auto simp: opened_def ret_def)
    qed
  qed
qed

lemma set_pragmas_keeps: "set_pragmas env n s = (r, s') \<Longrightarrow> snd s' = snd s"
proof (induction n arbitrary: s)
  case (Suc n)
  then show ?case by (auto simp: abind_def dest!: on_world_snd split: prod.splits outcome.splits)
qed (simp add: ret_def)

lemma in_file_transaction_Ok:
  assumes "in_file_transaction env m (w, d) = (Ok u, (w', d'))"
  shows "\<exists>w1 v w2. m (w1, d) = (Ok v, (w2, d'))"
proof -
  obtain v s where "abind (on_world (le_sql env)) (\<lambda>_. abind m (\<lambda>_. on_world (le_sql env))) (w, d) = (Ok v, s)" "s = (w', d')"
    using assms by (auto simp: in_file_transaction_def split: prod.splits outcome.splits)
  then obtain v1 s1 where s1: "on_world (le_sql env) (w, d) = (Ok v1, s1)" "abind m (\<lambda>_. on_world (le_sql env)) s1 = (Ok v, (w', d'))"
    by (metis abind_OkE)
  then obtain v2 s2 where "m s1 = (Ok v2, s2)" "on_world (le_sql env) s2 = (Ok v, (w', d'))" by (metis abind_OkE)
  then have "m (fst s1, d) = (Ok v2, (fst s2, d'))" using s1(1) by (metis on_world_snd prod.collapse snd_conv)
  then show ?thesis by blast
qed

lemma in_file_transaction_not_Ok:
  "in_file_transaction env m (w, d) = (r, (w', d')) \<Longrightarrow> \<not> is_Ok r \<Longrightarrow> d' = d"
  by (auto simp: in_file_transaction_def split: prod.splits outcome.splits)

lemma opened_opened: "opened (opened d) = opened d"
  by (simp add: opened_def VERSION_def)

lemma optional_pragmas_keep: "(if b then set_pragmas env n else ret ()) (w, d) = (r, s') \<Longrightarrow> snd s' = d"
  by (cases b) (auto simp: ret_def dest: set_pragmas_keeps)

lemma with_connection_cases:
  assumes "with_connection env key (w, d) = (r, (w', d'))"
  shows "(\<not> is_Ok r \<and> d' = d) \<or> (\<exists>w1. in_file_transaction env (schema_init env) (w1, d) = (r, (w', d')))"
  using assms [unfolded with_connection_def]
proof (cases rule: abind_cases)
  case (Ok a s1)
  then obtain w1 where s1: "s1 = (w1, d)" by (metis optional_pragmas_keep prod.collapse)
  show ?thesis using Ok(2)
  proof (cases rule: abind_cases)
    case (Ok a2 s2)
    then have "s2 = (fst s2, d)" using s1 by (metis set_pragmas_keeps prod.collapse snd_conv)
    then show ?thesis using Ok(2) by metis
  next
    case (Err e)
    then show ?thesis using s1 set_pragmas_keeps [OF Err(1)] by simp
  next
    case (Panic p)
    then show ?thesis using s1 set_pragmas_keeps [OF Panic(1)] by simp
  qed
next
  case (Err e)
  then show ?thesis using optional_pragmas_keep [OF Err(1)] by simp
next
  case (Panic p)
  then show ?thesis using optional_pragmas_keep [OF Panic(1)] by simp
qed

lemma with_connection_once:
  assumes "with_connection env key (w, d) = (r, (w', d'))"
  shows "(is_Ok r \<longrightarrow> d' = opened d) \<and> (\<not> is_Ok r \<longrightarrow> d' = d)"
  using with_connection_cases [OF assms] in_file_transaction_not_Ok [of env _ _ d r w' d']
  by (cases r) (auto dest!: in_file_transaction_Ok dest: schema_init_Ok)

text \<open>
  C36. Opening a logins database is safe to repeat and never half done. When it succeeds, a new file has
  empty tables at the current version, one from before versions were kept has lost its stale tables,
  one of an earlier version has all its rows, with their times in milliseconds instead of microseconds,
  and one of the current or a later version is untouched; opening the result again changes nothing, so
  the times are never divided twice. When it does not succeed the file is as it was.
\<close>

theorem open_migrates_once:
  assumes "with_connection env key (w, d) = (r, (w', d'))"
  shows "(is_Ok r \<longrightarrow> d' = opened d \<and> VERSION \<le> user_version d') \<and> (\<not> is_Ok r \<longrightarrow> d' = d) \<and>
    (is_Ok r \<longrightarrow> (\<forall>env' key' v v' r' d''. with_connection env' key' (v, d') = (r', (v', d'')) \<longrightarrow> d'' = d'))"
proof -
  have "with_connection env' key' (v, opened d) = (r', (v', d'')) \<Longrightarrow> d'' = opened d" for env' key' v v' r' d''
    using with_connection_once [of env' key' v "opened d" r' v' d''] opened_opened by (cases "is_Ok r'") auto
  then show ?thesis using with_connection_once [OF assms] by (auto simp: opened_def VERSION_def)
qed

definition old_file :: LoginFile where
  "old_file = \<lparr>user_version = 3, has_table_list = False,
     file_local = Some [local_row (row_of_login (login1\<lparr>time_created := 5000000, time_password_changed := 7000999\<rparr>)) None False 0],
     file_mirror = Some [], file_meta = None\<rparr>"

theorem open_migrates_once_witness:
  "\<exists>w' d'. with_connection login_env1 None ((), old_file) = (Ok (), (w', d')) \<and> user_version d' = 4 \<and>
     map_option (map col_timePasswordChanged) (file_local d') = Some [7000]"
proof -
  obtain w' d' where r: "with_connection login_env1 None ((), old_file) = (Ok (), (w', d'))"
    by (simp add: with_connection_def in_file_transaction_def schema_init_def schema_upgrade_def login_env1_def old_file_def
        file_exec_def create_defs update_local_timestamps_def update_mirror_timestamps_def VERSION_def
        abind_def get_st_def on_world_def ret_def assert_that_def)
  have "is_Ok (Ok () :: (LoginError, unit) outcome)" by simp
  then have "d' = opened old_file"
    by (rule conjunct1 [OF mp [OF conjunct1 [OF open_migrates_once [OF r]]]])
  then have "user_version d' = 4 \<and> map_option (map col_timePasswordChanged) (file_local d') = Some [7000]"
    by (simp add: opened_def old_file_def VERSION_def to_millis_def local_row_def row_of_login_def LoginRow.defs login1_def)
  then show ?thesis by (intro exI [of _ w'] exI [of _ d'] conjI r) simp_all
qed

end
