(* ===== verification/PlacesTypes.thy ===== *)
theory PlacesTypes
  imports Prelude
begin

text \<open>
  The basic types of the Places component (\<^verbatim>\<open>components/places/src\<close>): visit transitions and the
  bit set of them (\<^verbatim>\<open>types.rs\<close>, \<^verbatim>\<open>types/visit_transition_set.rs\<close>), bookmark types and sync status,
  the guids of the bookmark roots (\<^verbatim>\<open>storage/bookmarks/root_guid.rs\<close>), valid guids
  (\<^verbatim>\<open>valid_guid.rs\<close>), the URL hash that indexes \<^verbatim>\<open>moz_places\<close> (\<^verbatim>\<open>hash.rs\<close>) and cutting a string at
  a character boundary (\<^verbatim>\<open>util.rs\<close>). A Rust string is the list of its bytes.
\<close>

unbundle bit_operations_syntax

section \<open>Visit transitions\<close>

datatype VisitTransition =
  Link | Typed | Bookmark_visit | Embed | RedirectPermanent | RedirectTemporary | Download | FramedLink | Reload

fun visit_transition_u8 :: "VisitTransition \<Rightarrow> nat" where
  "visit_transition_u8 Link = 1"
| "visit_transition_u8 Typed = 2"
| "visit_transition_u8 Bookmark_visit = 3"
| "visit_transition_u8 Embed = 4"
| "visit_transition_u8 RedirectPermanent = 5"
| "visit_transition_u8 RedirectTemporary = 6"
| "visit_transition_u8 Download = 7"
| "visit_transition_u8 FramedLink = 8"
| "visit_transition_u8 Reload = 9"

definition from_primitive :: "nat \<Rightarrow> VisitTransition option" where
  "from_primitive p =
     (if p = 1 then Some Link else if p = 2 then Some Typed else if p = 3 then Some Bookmark_visit
      else if p = 4 then Some Embed else if p = 5 then Some RedirectPermanent
      else if p = 6 then Some RedirectTemporary else if p = 7 then Some Download
      else if p = 8 then Some FramedLink else if p = 9 then Some Reload else None)"

datatype InvalidVisitType = InvalidVisitType

section \<open>Sets of visit transitions\<close>

record VisitTransitionSet =
  vts_bits :: u16

definition bit_of :: "VisitTransition \<Rightarrow> u16" where
  "bit_of t = push_bit (visit_transition_u8 t) 1"

definition ALL_BITS_SET :: u16 where
  "ALL_BITS_SET =
     bit_of Link OR bit_of Typed OR bit_of Bookmark_visit OR bit_of Embed OR bit_of RedirectPermanent OR
     bit_of RedirectTemporary OR bit_of Download OR bit_of FramedLink OR bit_of Reload"

definition vts_new :: VisitTransitionSet where
  "vts_new = \<lparr>vts_bits = 0\<rparr>"

definition vts_all :: VisitTransitionSet where
  "vts_all = \<lparr>vts_bits = ALL_BITS_SET\<rparr>"

definition vts_single :: "VisitTransition \<Rightarrow> VisitTransitionSet" where
  "vts_single ty = \<lparr>vts_bits = bit_of ty\<rparr>"

definition vts_contains :: "VisitTransitionSet \<Rightarrow> VisitTransition \<Rightarrow> bool" where
  "vts_contains s t \<longleftrightarrow> vts_bits s AND bit_of t \<noteq> 0"

definition vts_insert :: "VisitTransition \<Rightarrow> VisitTransitionSet \<Rightarrow> VisitTransitionSet" where
  "vts_insert t s = s\<lparr>vts_bits := vts_bits s OR bit_of t\<rparr>"

definition vts_remove :: "VisitTransition \<Rightarrow> VisitTransitionSet \<Rightarrow> VisitTransitionSet" where
  "vts_remove t s = s\<lparr>vts_bits := vts_bits s AND NOT (bit_of t)\<rparr>"

definition vts_complement :: "VisitTransitionSet \<Rightarrow> VisitTransitionSet" where
  "vts_complement s = \<lparr>vts_bits = NOT (vts_bits s) AND ALL_BITS_SET\<rparr>"

definition count_ones :: "u16 \<Rightarrow> nat" where
  "count_ones w = length (filter (bit w) [0..<16])"

definition vts_len :: "VisitTransitionSet \<Rightarrow> usize" where
  "vts_len s = count_ones (vts_bits s)"

definition vts_is_empty :: "VisitTransitionSet \<Rightarrow> bool" where
  "vts_is_empty s \<longleftrightarrow> vts_bits s = 0"

definition vts_try_from :: "u16 \<Rightarrow> (InvalidVisitType, VisitTransitionSet) outcome" where
  "vts_try_from b = (if b \<noteq> b AND ALL_BITS_SET then Err InvalidVisitType else Ok \<lparr>vts_bits = b\<rparr>)"

definition vts_extend :: "VisitTransition list \<Rightarrow> VisitTransitionSet \<Rightarrow> VisitTransitionSet" where
  "vts_extend ts s = foldl (\<lambda>s t. vts_insert t s) s ts"

definition vts_from_iter :: "VisitTransition list \<Rightarrow> VisitTransitionSet" where
  "vts_from_iter ts = vts_extend ts vts_new"

text \<open>The iterator: its remaining bits and its position.\<close>

record VisitTransitionSetIter =
  it_bits :: u16
  it_pos :: nat

definition vts_into_iter :: "VisitTransitionSet \<Rightarrow> VisitTransitionSetIter" where
  "vts_into_iter s = \<lparr>it_bits = vts_bits s, it_pos = 0\<rparr>"

lemma drop_bit_1_less:
  assumes "(w :: u16) \<noteq> 0" shows "unat (drop_bit (Suc 0) w) < unat w"
proof -
  have "0 < unat w" using assms by (simp add: word_gt_0 [symmetric] unat_gt_0)
  then show ?thesis by (simp add: drop_bit_eq_div unat_div)
qed

function skip_zeros :: "VisitTransitionSetIter \<Rightarrow> VisitTransitionSetIter" where
  "skip_zeros it =
     (if it_bits it \<noteq> 0 \<and> it_bits it AND 1 = 0
      then skip_zeros \<lparr>it_bits = drop_bit 1 (it_bits it), it_pos = it_pos it + 1\<rparr>
      else it)"
  by pat_completeness auto
termination
  by (relation "measure (\<lambda>it. unat (it_bits it))") (auto simp: drop_bit_1_less)

declare skip_zeros.simps [simp del]

definition vts_next :: "(VisitTransitionSetIter, unit, VisitTransition option) action" where
  "vts_next it =
     (if it_bits it = 0 then (Ok None, it)
      else let it1 = skip_zeros it in
        (case from_primitive (it_pos it1) of
           None \<Rightarrow> (Panic ''Bug in VisitTransitionSet'', it1)
         | Some result \<Rightarrow> (Ok (Some result), \<lparr>it_bits = drop_bit 1 (it_bits it1), it_pos = it_pos it1 + 1\<rparr>)))"

text \<open>The elements an iterator has still to deliver.\<close>

definition pending :: "VisitTransitionSetIter \<Rightarrow> nat set" where
  "pending it = {n. it_pos it \<le> n \<and> bit (it_bits it) (n - it_pos it)}"

lemma pending_shift:
  "pending \<lparr>it_bits = drop_bit (Suc 0) (it_bits it), it_pos = Suc (it_pos it)\<rparr> = pending it - {it_pos it}"
proof -
  have "bit (drop_bit (Suc 0) (it_bits it)) (n - Suc (it_pos it)) = bit (it_bits it) (n - it_pos it)"
    if "Suc (it_pos it) \<le> n" for n
    using that by (simp add: bit_drop_bit_eq Suc_diff_Suc Suc_le_lessD)
  then show ?thesis by (auto simp: pending_def)
qed

lemma pending_empty: "pending it = {} \<longleftrightarrow> it_bits it = 0"
proof
  assume e: "pending it = {}"
  have "\<not> bit (it_bits it) n" for n using e by (auto simp: pending_def dest: spec [of _ "it_pos it + n"])
  then show "it_bits it = 0" by (simp add: bit_eq_iff)
qed (simp add: pending_def)

lemma skip_zeros_correct:
  "it_bits it \<noteq> 0 \<Longrightarrow> pending (skip_zeros it) = pending it \<and> bit (it_bits (skip_zeros it)) 0"
proof (induction it rule: skip_zeros.induct)
  case (1 it)
  let ?s = "\<lparr>it_bits = drop_bit (Suc 0) (it_bits it), it_pos = Suc (it_pos it)\<rparr>"
  have b: "bit (it_bits it) 0 \<longleftrightarrow> it_bits it AND 1 \<noteq> 0" by (simp add: and_one_eq odd_iff_mod_2_eq_one bit_0)
  show ?case
  proof (cases "bit (it_bits it) 0")
    case True
    then show ?thesis using b by (subst (1 2) skip_zeros.simps) simp
  next
    case False
    then have p: "pending ?s = pending it" using pending_shift [of it] by (auto simp: pending_def)
    then have "it_bits ?s \<noteq> 0" using 1(2) pending_empty by metis
    then show ?thesis using 1 False b p by (subst (1 2) skip_zeros.simps) simp
  qed
qed

lemma pending_min: "bit (it_bits it) 0 \<Longrightarrow> it_pos it \<in> pending it" "n \<in> pending it \<Longrightarrow> it_pos it \<le> n"
  by (auto simp: pending_def)

text \<open>
  \<^verbatim>\<open>into_iter().collect()\<close>: the iterator is called until it returns nothing.
\<close>

function vts_collect :: "VisitTransitionSetIter \<Rightarrow> (unit, VisitTransition list) outcome" where
  "vts_collect it =
     (case vts_next it of
        (Ok None, _) \<Rightarrow> Ok []
      | (Ok (Some t), it') \<Rightarrow> omap (\<lambda>ts. t # ts) (vts_collect it')
      | (Err e, _) \<Rightarrow> Err e
      | (Panic p, _) \<Rightarrow> Panic p)"
  by pat_completeness auto
termination
proof (relation "measure (\<lambda>it. unat (it_bits it))", goal_cases)
  case (2 it r it' o t)
  have le: "unat (it_bits (skip_zeros it)) \<le> unat (it_bits it)" for it
  proof (induction it rule: skip_zeros.induct)
    case (1 it)
    then show ?case
      using drop_bit_1_less [of "it_bits it"] by (subst skip_zeros.simps) (auto intro: le_trans less_imp_le)
  qed
  have nz: "it_bits (skip_zeros it) \<noteq> 0" if "it_bits it \<noteq> 0" using skip_zeros_correct [OF that] by auto
  show ?case
    using 2 le [of it] nz drop_bit_1_less [of "it_bits (skip_zeros it)"]
    by (auto simp: vts_next_def Let_def split: if_splits option.splits)
qed simp

declare vts_collect.simps [simp del]

subsection \<open>What the bits mean\<close>

definition vts_set :: "VisitTransitionSet \<Rightarrow> VisitTransition set" where
  "vts_set s = {t. vts_contains s t}"

definition vts_ok :: "VisitTransitionSet \<Rightarrow> bool" where
  "vts_ok s \<longleftrightarrow> vts_bits s AND ALL_BITS_SET = vts_bits s"

definition all_transitions :: "VisitTransition list" where
  "all_transitions =
     [Link, Typed, Bookmark_visit, Embed, RedirectPermanent, RedirectTemporary, Download, FramedLink, Reload]"

lemma all_transitions_UNIV: "t \<in> set all_transitions"
  by (cases t) (simp_all add: all_transitions_def)

lemma map_u8_all_transitions: "map visit_transition_u8 all_transitions = [1..<10]"
  by (simp add: all_transitions_def upt_rec)

lemma visit_transition_u8_bounds: "1 \<le> visit_transition_u8 t" "visit_transition_u8 t < 10"
  by (cases t; simp)+

lemma from_primitive_u8 [simp]: "from_primitive (visit_transition_u8 t) = Some t"
  by (cases t) (simp_all add: from_primitive_def)

lemma from_primitive_Some: "from_primitive n = Some t \<longleftrightarrow> n = visit_transition_u8 t"
  by (cases t) (auto simp: from_primitive_def)

lemma u8_surj: "1 \<le> n \<Longrightarrow> n < 10 \<Longrightarrow> \<exists>t. n = visit_transition_u8 t"
  using map_u8_all_transitions by (metis atLeastLessThan_iff imageE list.set_map set_upt)

lemma bit_bit_of: "bit (bit_of t) n \<longleftrightarrow> n = visit_transition_u8 t"
  using visit_transition_u8_bounds [of t] by (auto simp: bit_of_def bit_exp_iff)

lemma bit_ALL_BITS_SET: "bit ALL_BITS_SET n \<longleftrightarrow> 1 \<le> n \<and> n < 10"
  using u8_surj [of n] visit_transition_u8_bounds by (auto simp: ALL_BITS_SET_def bit_or_iff bit_bit_of)

lemma vts_contains_bit: "vts_contains s t \<longleftrightarrow> bit (vts_bits s) (visit_transition_u8 t)"
  by (simp add: vts_contains_def bit_of_def and_exp_eq_0_iff_not_bit)

lemma vts_ok_bits: "vts_ok s \<longleftrightarrow> (\<forall>n. bit (vts_bits s) n \<longrightarrow> 1 \<le> n \<and> n < 10)"
  using bit_imp_le_length [of "vts_bits s"]
  by (simp add: vts_ok_def bit_eq_iff [where 'a = u16] bit_and_iff bit_ALL_BITS_SET) blast

lemma u8_inj: "visit_transition_u8 t = visit_transition_u8 t' \<longleftrightarrow> t = t'"
  by (metis from_primitive_u8 option.inject)

lemma vts_collect_pending:
  "pending it \<subseteq> {1..<10} \<Longrightarrow>
     vts_collect it = Ok (map (\<lambda>n. the (from_primitive n)) (sorted_list_of_set (pending it)))"
proof (induction it rule: vts_collect.induct)
  case (1 it)
  show ?case
  proof (cases "it_bits it = 0")
    case True
    then show ?thesis using pending_empty [of it] by (subst vts_collect.simps) (simp add: vts_next_def)
  next
    case False
    let ?i = "skip_zeros it"
    let ?n = "\<lparr>it_bits = drop_bit 1 (it_bits ?i), it_pos = it_pos ?i + 1\<rparr>"
    have p: "pending ?i = pending it" "bit (it_bits ?i) 0" using skip_zeros_correct [OF False] by auto
    have m: "it_pos ?i \<in> pending it" using pending_min(1) [OF p(2)] p(1) by simp
    then obtain t where t: "it_pos ?i = visit_transition_u8 t" using 1(2) u8_surj by (meson atLeastLessThan_iff subsetD)
    have next_it: "vts_next it = (Ok (Some t), ?n)" using False t by (simp add: vts_next_def Let_def)
    have pn: "pending ?n = pending it - {it_pos ?i}" using pending_shift [of ?i] p(1) by simp
    have fin: "finite (pending it)" using 1(2) finite_subset by blast
    have "Min (pending it) = it_pos ?i" using m fin p(1) pending_min(2) by (metis Min_eqI)
    then have "sorted_list_of_set (pending it) = it_pos ?i # sorted_list_of_set (pending ?n)"
      using fin m pn sorted_list_of_set_nonempty [of "pending it"] by (auto simp: insert_absorb)
    moreover have "pending ?n \<subseteq> {1..<10}" using 1(2) pn by auto
    then have "vts_collect ?n = Ok (map (\<lambda>n. the (from_primitive n)) (sorted_list_of_set (pending ?n)))"
      by (rule 1(1) [OF next_it [symmetric] refl refl])
    ultimately show ?thesis using next_it t by (subst vts_collect.simps) simp
  qed
qed

lemma vts_collect_correct:
  assumes "vts_ok s"
  shows "vts_collect (vts_into_iter s) = Ok (filter (vts_contains s) all_transitions)"
proof -
  have pend: "pending (vts_into_iter s) = {n. bit (vts_bits s) n}" by (simp add: pending_def vts_into_iter_def)
  then have sub: "pending (vts_into_iter s) \<subseteq> {1..<10}" using assms by (auto simp: vts_ok_bits)
  have "pending (vts_into_iter s) = set (filter (bit (vts_bits s)) [1..<10])"
    using assms pend by (auto simp: vts_ok_bits)
  then have "sorted_list_of_set (pending (vts_into_iter s)) = filter (bit (vts_bits s)) [1..<10]"
    using sorted_list_of_set.idem_if_sorted_distinct [of "filter (bit (vts_bits s)) [1..<10]"]
      sorted_wrt_filter [OF sorted_upt, of "bit (vts_bits s)" 1 10] by simp
  also have "\<dots> = map visit_transition_u8 (filter (vts_contains s) all_transitions)"
    by (simp only: map_u8_all_transitions [symmetric] filter_map comp_def ext [OF vts_contains_bit])
  finally show ?thesis using vts_collect_pending [OF sub] by (simp add: comp_def)
qed

lemmas vts_bit_simps = vts_ok_bits vts_contains_bit bit_or_iff bit_and_iff bit_not_iff bit_bit_of bit_ALL_BITS_SET u8_inj
  visit_transition_u8_bounds

lemma vts_insert_correct: "vts_ok s \<Longrightarrow> vts_ok (vts_insert t s)" "vts_set (vts_insert t s) = insert t (vts_set s)"
  using visit_transition_u8_bounds [of t] by (auto simp: vts_insert_def vts_set_def vts_bit_simps)

lemma vts_remove_correct: "vts_ok s \<Longrightarrow> vts_ok (vts_remove t s)" "vts_set (vts_remove t s) = vts_set s - {t}"
  by (auto simp: vts_remove_def vts_set_def vts_bit_simps dest: bit_imp_possible_bit)

lemma vts_complement_correct: "vts_ok (vts_complement s)" "vts_set (vts_complement s) = - vts_set s"
proof -
  have "visit_transition_u8 t < 16" for t using visit_transition_u8_bounds(2) [of t] by simp
  then show "vts_set (vts_complement s) = - vts_set s"
    using visit_transition_u8_bounds(1) by (auto simp: vts_complement_def vts_set_def vts_bit_simps)
qed (simp add: vts_complement_def vts_bit_simps)

lemma vts_extend_correct:
  "vts_ok s \<Longrightarrow> vts_ok (vts_extend ts s)" "vts_set (vts_extend ts s) = set ts \<union> vts_set s"
  by (induction ts arbitrary: s) (auto simp: vts_extend_def vts_insert_correct)

lemma vts_from_iter_correct: "vts_ok (vts_from_iter ts)" "vts_set (vts_from_iter ts) = set ts"
  using vts_extend_correct [where s = vts_new and ts = ts] by (auto simp: vts_from_iter_def vts_new_def vts_set_def vts_bit_simps)

lemma vts_bits_image:
  assumes "vts_ok s" shows "{n. bit (vts_bits s) n} = visit_transition_u8 ` vts_set s"
proof (intro set_eqI iffI)
  fix n assume "n \<in> {n. bit (vts_bits s) n}"
  then have b: "bit (vts_bits s) n" by simp
  then obtain t where "n = visit_transition_u8 t" using assms u8_surj unfolding vts_ok_bits by blast
  then show "n \<in> visit_transition_u8 ` vts_set s" using b by (simp add: vts_set_def vts_contains_bit)
qed (auto simp: vts_set_def vts_contains_bit)

lemma vts_len_correct:
  assumes "vts_ok s" shows "vts_len s = card (vts_set s)"
proof -
  have "vts_len s = card (set (filter (bit (vts_bits s)) [0..<16]))"
    unfolding vts_len_def count_ones_def by (metis distinct_card distinct_filter distinct_upt)
  also have "set (filter (bit (vts_bits s)) [0..<16]) = {n. bit (vts_bits s) n}"
    using assms by (auto simp: vts_ok_bits)
  also have "card \<dots> = card (vts_set s)"
    using vts_bits_image [OF assms] by (simp add: card_image inj_on_def u8_inj)
  finally show ?thesis .
qed

lemma vts_ext:
  assumes "vts_ok s" "vts_ok s'" "vts_set s = vts_set s'" shows "s = s'"
proof -
  have "{n. bit (vts_bits s) n} = {n. bit (vts_bits s') n}" using assms by (simp add: vts_bits_image)
  then have "vts_bits s = vts_bits s'" by (auto simp: bit_eq_iff)
  then show ?thesis by simp
qed

text \<open>
  C37. A set of visit transitions is the mathematical set it stands for: \<^verbatim>\<open>insert\<close>, \<^verbatim>\<open>remove\<close>,
  \<^verbatim>\<open>complement\<close>, \<^verbatim>\<open>contains\<close>, \<^verbatim>\<open>is_empty\<close> and collecting a list are the operations on sets, its length
  is the number of its elements, iterating it never hits the panic and gives every element once in the
  order of the type, and an integer is accepted as a set exactly if it is the representation of one.
\<close>

theorem visit_transition_set_correct:
  assumes "vts_ok s"
  shows "(vts_ok (vts_insert t s) \<and> vts_set (vts_insert t s) = insert t (vts_set s)) \<and>
    (vts_ok (vts_remove t s) \<and> vts_set (vts_remove t s) = vts_set s - {t}) \<and>
    (vts_ok (vts_complement s) \<and> vts_set (vts_complement s) = - vts_set s) \<and>
    (vts_ok (vts_from_iter ts) \<and> vts_set (vts_from_iter ts) = set ts) \<and>
    (vts_is_empty s \<longleftrightarrow> vts_set s = {}) \<and> vts_len s = card (vts_set s) \<and>
    vts_collect (vts_into_iter s) = Ok (filter (\<lambda>t. t \<in> vts_set s) all_transitions) \<and>
    (vts_set s = vts_set s' \<and> vts_ok s' \<longrightarrow> s = s') \<and>
    vts_try_from b = (if vts_ok \<lparr>vts_bits = b\<rparr> then Ok \<lparr>vts_bits = b\<rparr> else Err InvalidVisitType)"
proof (intro conjI)
  show "vts_is_empty s \<longleftrightarrow> vts_set s = {}"
    using vts_ext [OF assms, of vts_new] by (auto simp: vts_is_empty_def vts_new_def vts_set_def vts_bit_simps)
  show "vts_collect (vts_into_iter s) = Ok (filter (\<lambda>t. t \<in> vts_set s) all_transitions)"
    using vts_collect_correct [OF assms] by (simp add: vts_set_def)
  show "vts_try_from b = (if vts_ok \<lparr>vts_bits = b\<rparr> then Ok \<lparr>vts_bits = b\<rparr> else Err InvalidVisitType)"
    by (auto simp: vts_try_from_def vts_ok_def)
  show "vts_set s = vts_set s' \<and> vts_ok s' \<longrightarrow> s = s'" using vts_ext [OF assms] by blast
qed (simp_all add: vts_insert_correct vts_remove_correct vts_complement_correct vts_from_iter_correct vts_len_correct assms)

theorem visit_transition_set_correct_witness:
  "vts_collect (vts_into_iter (vts_from_iter [Reload, Link])) = Ok [Link, Reload] \<and>
   vts_len (vts_from_iter [Reload, Link]) = 2"
  using visit_transition_set_correct [of "vts_from_iter [Reload, Link]" Link "[]" vts_new 0] vts_from_iter_correct [of "[Reload, Link]"]
  by (simp add: all_transitions_def)

section \<open>Bookmark types and sync status\<close>

datatype BookmarkType = Bookmark | Folder | Separator

fun bookmark_type_u8 :: "BookmarkType \<Rightarrow> nat" where
  "bookmark_type_u8 Bookmark = 1"
| "bookmark_type_u8 Folder = 2"
| "bookmark_type_u8 Separator = 3"

definition bookmark_type_from_u8 :: "nat \<Rightarrow> BookmarkType option" where
  "bookmark_type_from_u8 v =
     (if v = 1 then Some Bookmark else if v = 2 then Some Folder else if v = 3 then Some Separator else None)"

definition from_u8_with_valid_url :: "nat \<Rightarrow> bool \<Rightarrow> BookmarkType" where
  "from_u8_with_valid_url v has_valid_url =
     (case bookmark_type_from_u8 v of
        Some Folder \<Rightarrow> Folder
      | Some Separator \<Rightarrow> Separator
      | _ \<Rightarrow> if has_valid_url then Bookmark else Folder)"

datatype SyncStatus = Unknown | New | Normal

fun places_status_u8 :: "SyncStatus \<Rightarrow> nat" where
  "places_status_u8 Unknown = 0"
| "places_status_u8 New = 1"
| "places_status_u8 Normal = 2"

definition places_status_from_u8 :: "nat \<Rightarrow> SyncStatus" where
  "places_status_from_u8 v = (if v = 1 then New else if v = 2 then Normal else Unknown)"

section \<open>Guids\<close>

datatype BookmarkRootGuid = Root | Menu | Toolbar | Unfiled | Mobile

fun root_as_str :: "BookmarkRootGuid \<Rightarrow> string" where
  "root_as_str Root = ''root________''"
| "root_as_str Menu = ''menu________''"
| "root_as_str Toolbar = ''toolbar_____''"
| "root_as_str Unfiled = ''unfiled_____''"
| "root_as_str Mobile = ''mobile______''"

definition GUIDS :: "(BookmarkRootGuid \<times> string) list" where
  "GUIDS = map (\<lambda>r. (r, root_as_str r)) [Root, Menu, Toolbar, Unfiled, Mobile]"

definition well_known :: "string \<Rightarrow> BookmarkRootGuid option" where
  "well_known guid = map_option fst (find (\<lambda>(_, sync_guid). sync_guid = guid) GUIDS)"

definition is_root :: "string \<Rightarrow> bool" where
  "is_root guid \<longleftrightarrow> well_known guid \<noteq> None"

lemma well_known_Some: "well_known g = Some r \<longleftrightarrow> g = root_as_str r"
  by (cases r) (auto simp: well_known_def GUIDS_def)

lemma is_root_iff: "is_root g \<longleftrightarrow> (\<exists>r. g = root_as_str r)"
  using well_known_Some by (metis is_root_def not_Some_eq)

definition is_valid_places_byte :: "char \<Rightarrow> bool" where
  "is_valid_places_byte b \<longleftrightarrow>
     (let n = (of_char b :: nat) in
      n = 45 \<or> 48 \<le> n \<and> n \<le> 57 \<or> 65 \<le> n \<and> n \<le> 90 \<or> n = 95 \<or> 97 \<le> n \<and> n \<le> 122)"

definition is_valid_places_guid :: "string \<Rightarrow> bool" where
  "is_valid_places_guid s \<longleftrightarrow> length s = 12 \<and> list_all is_valid_places_byte s"

section \<open>Strings\<close>

text \<open>A byte that continues a UTF-8 sequence.\<close>

definition is_continuation :: "char \<Rightarrow> bool" where
  "is_continuation b \<longleftrightarrow> (of_char b :: nat) div 64 = 2"

definition is_char_boundary :: "string \<Rightarrow> usize \<Rightarrow> bool" where
  "is_char_boundary s i \<longleftrightarrow> i = 0 \<or> i = length s \<or> i < length s \<and> \<not> is_continuation (s ! i)"

fun boundary_before :: "string \<Rightarrow> usize \<Rightarrow> usize" where
  "boundary_before s 0 = 0"
| "boundary_before s (Suc i) = (if is_char_boundary s (Suc i) then Suc i else boundary_before s i)"

definition slice_up_to :: "string \<Rightarrow> usize \<Rightarrow> string" where
  "slice_up_to s max_len = (if max_len \<ge> length s then s else take (boundary_before s max_len) s)"

definition str_slice :: "string \<Rightarrow> usize \<Rightarrow> ('e, string) outcome" where
  "str_slice s i = (if is_char_boundary s i then Ok (take i s) else Panic ''byte index is not a char boundary'')"

lemma boundary_before_correct:
  "boundary_before s i \<le> i \<and> is_char_boundary s (boundary_before s i) \<and>
   (\<forall>j \<le> i. is_char_boundary s j \<longrightarrow> j \<le> boundary_before s i)"
  by (induction i) (auto simp: is_char_boundary_def le_Suc_eq)

lemma slice_up_to_longest:
  "\<exists>i. slice_up_to s m = take i s \<and> i \<le> m \<and> is_char_boundary s i \<and>
     (\<forall>j \<le> m. is_char_boundary s j \<longrightarrow> length (take j s) \<le> length (slice_up_to s m))"
proof (cases "m \<ge> length s")
  case True
  then show ?thesis by (intro exI [of _ "length s"]) (auto simp: slice_up_to_def is_char_boundary_def)
next
  case False
  then show ?thesis
    using boundary_before_correct [of s m]
    by (intro exI [of _ "boundary_before s m"]) (auto simp: slice_up_to_def)
qed

lemma length_slice_up_to: "length (slice_up_to s m) \<le> m"
  using boundary_before_correct [of s m] by (auto simp: slice_up_to_def)

section \<open>The hash of a URL\<close>

type_synonym u32 = "32 word"

definition MAX_BYTES_TO_HASH :: usize where
  "MAX_BYTES_TO_HASH = 1500"

definition GOLDEN_RATIO :: u32 where
  "GOLDEN_RATIO = 0x9E3779B9"

definition add_u32_to_hash :: "u32 \<Rightarrow> u32 \<Rightarrow> u32" where
  "add_u32_to_hash hash new_value = (word_rotl 5 hash XOR new_value) * GOLDEN_RATIO"

definition hash_string :: "string \<Rightarrow> u32" where
  "hash_string s = foldl (\<lambda>hash cur. add_u32_to_hash hash (of_char cur)) 0 s"

fun position :: "char \<Rightarrow> string \<Rightarrow> usize option" where
  "position c [] = None"
| "position c (b # bs) = (if b = c then Some 0 else map_option Suc (position c bs))"

definition hash_url :: "string \<Rightarrow> ('e, u64) outcome" where
  "hash_url spec =
     obind (str_slice spec (min (length spec) MAX_BYTES_TO_HASH)) (\<lambda>to_hash.
     let str_hash = (ucast (hash_string to_hash) :: u64) in
     obind (str_slice spec (min (length spec) 50)) (\<lambda>str_head.
     case position CHR '':'' str_head of
       Some pos \<Rightarrow>
         obind (str_slice spec pos) (\<lambda>prefix.
         let prefix_hash = (ucast (hash_string prefix AND 0xffff) :: u64)
         in Ok (push_bit 32 prefix_hash + str_hash))
     | None \<Rightarrow> Ok str_hash))"

datatype PrefixMode = Lo | Hi

definition hash_url_prefix :: "string \<Rightarrow> PrefixMode \<Rightarrow> ('e, u64) outcome" where
  "hash_url_prefix spec_prefix mode =
     obind (str_slice spec_prefix (min (length spec_prefix) MAX_BYTES_TO_HASH)) (\<lambda>to_hash.
     let hash = push_bit 32 (ucast (hash_string to_hash AND 0xffff) :: u64)
     in Ok (if mode = Hi then hash + 0xffffffff else hash))"

lemma position_Some:
  "position c s = Some i \<Longrightarrow> i < length s \<and> s ! i = c \<and> c \<notin> set (take i s)"
  by (induction s arbitrary: i) (auto split: if_splits)

lemma u32_bound: "unat (z :: u32) < 2 ^ 32"
  by (rule unsigned_less [THEN less_le_trans]) simp

lemma unat_prefix_hash:
  fixes x :: u32 and y :: u32
  shows "unat (push_bit 32 (ucast (x AND 0xffff) :: u64)) = unat (x AND 0xffff) * 2 ^ 32"
    and "unat (push_bit 32 (ucast (x AND 0xffff) :: u64) + ucast y) = unat (x AND 0xffff) * 2 ^ 32 + unat y"
    and "unat (x AND 0xffff) < 2 ^ 16"
proof -
  show lt: "unat (x AND 0xffff) < 2 ^ 16"
    using word_and_le1 [of x "0xffff"] by (simp add: word_le_nat_alt)
  then have b: "unat (x AND 0xffff) * 2 ^ 32 < 2 ^ 48" by simp
  have up: "unat (ucast z :: u64) = unat z" for z :: u32
    using u32_bound [of z] by (simp add: unsigned_ucast_eq take_bit_nat_eq_self)
  show e: "unat (push_bit 32 (ucast (x AND 0xffff) :: u64)) = unat (x AND 0xffff) * 2 ^ 32"
    using b up [of "x AND 0xffff"] by (simp add: push_bit_eq_mult unat_word_ariths)
  have "unat y < 2 ^ 32" using u32_bound [of y] by simp
  then show "unat (push_bit 32 (ucast (x AND 0xffff) :: u64) + ucast y) = unat (x AND 0xffff) * 2 ^ 32 + unat y"
    using b e up [of y] by (simp add: unat_word_ariths)
qed

text \<open>
  C38. The hash of a URL fits in 48 bits, and the two prefix hashes of its scheme enclose it: a query
  for the hashes between \<^verbatim>\<open>hash_url_prefix(scheme, Lo)\<close> and \<^verbatim>\<open>hash_url_prefix(scheme, Hi)\<close> misses no URL
  of that scheme.
\<close>

theorem hash_prefix_range:
  assumes "hash_url spec = Ok h" and "position CHR '':'' (take 50 spec) = Some pos"
  shows "\<exists>lo hi. hash_url_prefix (take pos spec) Lo = Ok lo \<and> hash_url_prefix (take pos spec) Hi = Ok hi \<and>
    lo \<le> h \<and> h \<le> hi \<and> unat hi < 2 ^ 48"
proof -
  let ?x = "hash_string (take pos spec)" and ?y = "hash_string (take (min (length spec) MAX_BYTES_TO_HASH) spec)"
  have p: "pos < 50" "min (length spec) pos = pos" using position_Some [OF assms(2)] by simp_all
  have sl: "take (min (length spec) 50) spec = take 50 spec" by (simp add: min_def)
  have h: "h = push_bit 32 (ucast (?x AND 0xffff)) + ucast ?y"
    using assms by (auto simp: hash_url_def str_slice_def sl Let_def split: if_splits)
  have pre: "hash_url_prefix (take pos spec) m = Ok (if m = Hi then push_bit 32 (ucast (?x AND 0xffff)) + 0xffffffff
      else push_bit 32 (ucast (?x AND 0xffff)))" for m
    using p by (simp add: hash_url_prefix_def str_slice_def MAX_BYTES_TO_HASH_def is_char_boundary_def Let_def)
  have hi: "unat (push_bit 32 (ucast (?x AND 0xffff) :: u64) + 0xffffffff) = unat (?x AND 0xffff) * 2 ^ 32 + (2 ^ 32 - 1)"
    using unat_prefix_hash(2) [of ?x "0xffffffff"] by simp
  have y: "unat ?y < 2 ^ 32" using u32_bound [of ?y] by simp
  have x: "unat (?x AND 0xffff) < 2 ^ 16" by (rule unat_prefix_hash(3))
  show ?thesis
    using x y hi unat_prefix_hash(1,2) [of ?x] by (auto simp: pre h word_le_nat_alt)
qed

theorem hash_prefix_range_witness:
  "\<exists>h lo hi. hash_url ''http://a'' = (Ok h :: (unit, u64) outcome) \<and>
     hash_url_prefix ''http'' Lo = (Ok lo :: (unit, u64) outcome) \<and>
     hash_url_prefix ''http'' Hi = (Ok hi :: (unit, u64) outcome) \<and> lo \<le> h \<and> h \<le> hi"
proof -
  have p: "position CHR '':'' (take 50 ''http://a'') = Some 4" by simp
  obtain h where h: "hash_url ''http://a'' = (Ok h :: (unit, u64) outcome)"
    by (simp add: hash_url_def str_slice_def is_char_boundary_def MAX_BYTES_TO_HASH_def is_continuation_def Let_def)
  obtain lo hi where "hash_url_prefix ''http'' Lo = (Ok lo :: (unit, u64) outcome)"
      "hash_url_prefix ''http'' Hi = (Ok hi :: (unit, u64) outcome)" "lo \<le> h" "h \<le> hi"
    using hash_prefix_range [OF h p] by auto
  with h show ?thesis by blast
qed

end
