(* ===== verification/PlacesTables.thy ===== *)
theory PlacesTables
  imports PlacesTypes
begin

text \<open>
  The Places database (\<^verbatim>\<open>components/places/sql\<close>, \<^verbatim>\<open>components/places/src/db\<close>,
  \<^verbatim>\<open>components/places/src/storage/mod.rs\<close>): the rows of its tables with their constraints, the
  statements with the triggers of the main connection, and transactions. A table is the list of its
  rows. Origins, input history and icons are left out: nothing modelled here reads them, so their
  triggers and \<^verbatim>\<open>delete_pending_temp_tables\<close> are statements without effect. URLs are the strings the
  \<^verbatim>\<open>url\<close> crate serializes, which are ASCII; times are milliseconds below \<open>2 ^ 63\<close>, where the conversions
  between \<^verbatim>\<open>u64\<close> and SQLite's integers lose nothing.
\<close>

section \<open>Errors\<close>

datatype SqlFailure = DatabaseBusy | DatabaseLocked | ConstraintViolation string | IntegralValueOutOfRange int | OtherSqlFailure string

datatype InvalidPlaceInfo =
    NoUrl
  | InvalidGuid
  | InvalidParent string
  | NoSuchGuid string
  | NoSuchUrl
  | MismatchedBookmarkType nat nat
  | UrlTooLong
  | InvalidTag
  | IllegalChange string BookmarkType
  | CannotUpdateRoot BookmarkRootGuid

datatype Corruption =
    NoParent string string
  | InvalidLocalRoots
  | InvalidSyncedRoots
  | NonRootWithoutParent string

datatype PlacesError =
    InvalidPlaceInfoError InvalidPlaceInfo
  | CorruptionError Corruption
  | SqlFailed SqlFailure
  | UrlParseError string
  | InterruptedError

section \<open>Tables\<close>

type_synonym RowId = int
type_synonym Timestamp = nat

record PlaceRow =
  pl_id :: RowId
  pl_url :: string
  pl_title :: "string option"
  pl_visit_count_local :: int
  pl_visit_count_remote :: int
  pl_hidden :: bool
  pl_typed :: int
  pl_frecency :: int
  pl_last_visit_date_local :: Timestamp
  pl_last_visit_date_remote :: Timestamp
  pl_guid :: string
  pl_foreign_count :: int
  pl_sync_status :: nat
  pl_sync_change_counter :: int

record VisitRow =
  v_id :: RowId
  v_is_local :: bool
  v_from_visit :: "RowId option"
  v_place_id :: RowId
  v_visit_date :: Timestamp
  v_visit_type :: nat

record BookmarkRow =
  bm_id :: RowId
  bm_fk :: "RowId option"
  bm_type :: nat
  bm_parent :: "RowId option"
  bm_position :: int
  bm_title :: "string option"
  bm_dateAdded :: Timestamp
  bm_lastModified :: Timestamp
  bm_guid :: string
  bm_syncStatus :: nat
  bm_syncChangeCounter :: int

record TagRow =
  tag_id :: RowId
  tag_tag :: string
  tag_lastModified :: Timestamp

record PlacesTables =
  moz_places :: "PlaceRow list"
  moz_places_tombstones :: "string list"
  moz_historyvisits :: "VisitRow list"
  moz_historyvisit_tombstones :: "(RowId \<times> Timestamp) list"
  moz_bookmarks :: "BookmarkRow list"
  moz_bookmarks_deleted :: "(string \<times> Timestamp) list"
  moz_tags :: "TagRow list"
  moz_tags_relation :: "(RowId \<times> RowId) list"
  moz_meta :: "string \<rightharpoonup> Timestamp"

definition no_places :: PlacesTables where
  "no_places = \<lparr>moz_places = [], moz_places_tombstones = [], moz_historyvisits = [], moz_historyvisit_tombstones = [],
     moz_bookmarks = [], moz_bookmarks_deleted = [], moz_tags = [], moz_tags_relation = [], moz_meta = Map.empty\<rparr>"

text \<open>The id SQLite gives to a new row of a table with an \<^verbatim>\<open>INTEGER PRIMARY KEY\<close>.\<close>

definition next_rowid :: "RowId list \<Rightarrow> RowId" where
  "next_rowid ids = (if ids = [] then 1 else Max (set ids) + 1)"

lemma next_rowid_fresh: "next_rowid ids \<notin> set ids"
proof (cases "ids = []")
  case False
  have "Max (set ids) + 1 \<notin> set ids"
  proof
    assume "Max (set ids) + 1 \<in> set ids"
    from Max_ge [OF List.finite_set this] show False by linarith
  qed
  then show ?thesis using False by (simp add: next_rowid_def)
qed simp

section \<open>The connection\<close>

text \<open>The tables as the connection sees them, and those to go back to while a transaction is open.\<close>

record Conn =
  cn_tables :: PlacesTables
  cn_saved :: "PlacesTables option"

record 'w PlacesEnv =
  pe_sql :: "('w, SqlFailure, unit) action"
  pe_now :: "'w \<Rightarrow> nat"
  pe_random_guid :: "('w, unit, string) action"
  pe_err_if_interrupted :: "('w, unit, unit) action"
  pe_url_parse :: "string \<Rightarrow> string option"
  pe_max_vars :: usize

type_synonym ('w, 'a) places_op = "('w \<times> Conn, PlacesError, 'a) action"

definition world :: "('e \<Rightarrow> PlacesError) \<Rightarrow> ('w, 'e, 'a) action \<Rightarrow> ('w, 'a) places_op" where
  "world err m = (\<lambda>(w, c). case m w of (r, w') \<Rightarrow> (omap_err err r, (w', c)))"

definition sql :: "'w PlacesEnv \<Rightarrow> ('w, unit) places_op" where
  "sql env = world SqlFailed (pe_sql env)"

text \<open>One statement, which changes the tables or fails and leaves them.\<close>

definition exec :: "'w PlacesEnv \<Rightarrow> (PlacesTables \<Rightarrow> (SqlFailure, PlacesTables) outcome) \<Rightarrow> ('w, unit) places_op" where
  "exec env f = abind (sql env) (\<lambda>_. \<lambda>(w, c).
     case f (cn_tables c) of
       Ok t \<Rightarrow> (Ok (), (w, c\<lparr>cn_tables := t\<rparr>))
     | Err e \<Rightarrow> (Err (SqlFailed e), (w, c))
     | Panic p \<Rightarrow> (Panic p, (w, c)))"

definition query :: "'w PlacesEnv \<Rightarrow> (PlacesTables \<Rightarrow> 'a) \<Rightarrow> ('w, 'a) places_op" where
  "query env f = abind (sql env) (\<lambda>_. \<lambda>(w, c). (Ok (f (cn_tables c)), (w, c)))"

text \<open>\<^verbatim>\<open>Timestamp::now()\<close>, and the SQL function of the same name.\<close>

definition now :: "'w PlacesEnv \<Rightarrow> ('w, Timestamp) places_op" where
  "now env = (\<lambda>(w, c). (Ok (pe_now env w div 1000000), (w, c)))"

text \<open>\<^verbatim>\<open>SyncGuid::new()\<close>.\<close>

definition new_guid :: "'w PlacesEnv \<Rightarrow> ('w, string) places_op" where
  "new_guid env = (\<lambda>(w, c). case pe_random_guid env w of
     (Ok g, w') \<Rightarrow> (Ok g, (w', c))
   | (Err _, w') \<Rightarrow> (Panic ''called `Result::unwrap()` on an `Err` value'', (w', c))
   | (Panic p, w') \<Rightarrow> (Panic p, (w', c)))"

definition err_if_interrupted :: "'w PlacesEnv \<Rightarrow> ('w, unit) places_op" where
  "err_if_interrupted env = world (\<lambda>_. InterruptedError) (pe_err_if_interrupted env)"

definition delete_pending_temp_tables :: "'w PlacesEnv \<Rightarrow> ('w, unit) places_op" where
  "delete_pending_temp_tables env = sql env"

section \<open>Transactions\<close>

definition begin_tx :: "'w PlacesEnv \<Rightarrow> ('w, unit) places_op" where
  "begin_tx env = abind (sql env) (\<lambda>_. \<lambda>(w, c).
     if cn_saved c \<noteq> None
     then (Err (SqlFailed (OtherSqlFailure ''cannot start a transaction within a transaction'')), (w, c))
     else (Ok (), (w, c\<lparr>cn_saved := Some (cn_tables c)\<rparr>)))"

text \<open>\<^verbatim>\<open>get_tx_with_retry_on_locked\<close>: one more attempt if the database is busy or locked.\<close>

definition begin_transaction :: "'w PlacesEnv \<Rightarrow> ('w, unit) places_op" where
  "begin_transaction env = (\<lambda>s. case begin_tx env s of
     (Err (SqlFailed DatabaseBusy), s') \<Rightarrow> begin_tx env s'
   | (Err (SqlFailed DatabaseLocked), s') \<Rightarrow> begin_tx env s'
   | other \<Rightarrow> other)"

text \<open>
  \<^verbatim>\<open>UncheckedTransaction::commit\<close> marks the transaction as finished before it runs the statement, so a
  failing \<^verbatim>\<open>COMMIT\<close> leaves it open.
\<close>

definition commit_tx :: "'w PlacesEnv \<Rightarrow> ('w, unit) places_op" where
  "commit_tx env = abind (sql env) (\<lambda>_. \<lambda>(w, c).
     if cn_saved c = None then (Err (SqlFailed (OtherSqlFailure ''cannot commit - no transaction is active'')), (w, c))
     else (Ok (), (w, c\<lparr>cn_saved := None\<rparr>)))"

definition rollback_tx :: "'w PlacesEnv \<Rightarrow> ('w, unit) places_op" where
  "rollback_tx env = abind (sql env) (\<lambda>_. \<lambda>(w, c).
     case cn_saved c of
       None \<Rightarrow> (Err (SqlFailed (OtherSqlFailure ''cannot rollback - no transaction is active'')), (w, c))
     | Some t \<Rightarrow> (Ok (), (w, \<lparr>cn_tables = t, cn_saved = None\<rparr>)))"

text \<open>Dropping an unfinished transaction rolls it back; an error is only logged.\<close>

definition drop_tx :: "'w PlacesEnv \<Rightarrow> 'w \<times> Conn \<Rightarrow> 'w \<times> Conn" where
  "drop_tx env s = (if cn_saved (snd s) = None then s else snd (rollback_tx env s))"

text \<open>
  The common shape \<^verbatim>\<open>let tx = begin_transaction()?; body?; tx.commit()?\<close>: an error or a panic of the
  body drops the transaction.
\<close>

definition in_tx :: "'w PlacesEnv \<Rightarrow> ('w, 'a) places_op \<Rightarrow> ('w, 'a) places_op" where
  "in_tx env m = abind (begin_transaction env) (\<lambda>_. \<lambda>s. case m s of
     (Ok a, s') \<Rightarrow> abind (commit_tx env) (\<lambda>_. ret a) s'
   | (Err e, s') \<Rightarrow> (Err e, drop_tx env s')
   | (Panic p, s') \<Rightarrow> (Panic p, drop_tx env s'))"

section \<open>Pages\<close>

definition URL_LENGTH_MAX :: usize where
  "URL_LENGTH_MAX = 65536"

definition TITLE_LENGTH_MAX :: usize where
  "TITLE_LENGTH_MAX = 4096"

definition TAG_LENGTH_MAX :: usize where
  "TAG_LENGTH_MAX = 100"

record PageInfo =
  pi_url :: string
  pi_guid :: string
  pi_row_id :: RowId
  pi_title :: string
  pi_hidden :: bool
  pi_typed :: nat
  pi_frecency :: int
  pi_visit_count_local :: int
  pi_visit_count_remote :: int
  pi_last_visit_date_local :: Timestamp
  pi_last_visit_date_remote :: Timestamp
  pi_sync_status :: SyncStatus
  pi_sync_change_counter :: nat

text \<open>Reading a column as a \<^verbatim>\<open>u32\<close>, and a string as a URL.\<close>

definition get_u32 :: "int \<Rightarrow> (PlacesError, nat) outcome" where
  "get_u32 n = (if 0 \<le> n \<and> n < 2 ^ 32 then Ok (nat n) else Err (SqlFailed (IntegralValueOutOfRange n)))"

definition get_url :: "'w PlacesEnv \<Rightarrow> string \<Rightarrow> (PlacesError, string) outcome" where
  "get_url env u = ok_or (UrlParseError u) (pe_url_parse env u)"

definition page_info_from_row :: "'w PlacesEnv \<Rightarrow> PlaceRow \<Rightarrow> (PlacesError, PageInfo) outcome" where
  "page_info_from_row env r =
     obind (get_url env (pl_url r)) (\<lambda>url.
     obind (get_u32 (pl_typed r)) (\<lambda>typed.
     obind (get_u32 (pl_sync_change_counter r)) (\<lambda>counter.
     Ok \<lparr>pi_url = url, pi_guid = pl_guid r, pi_row_id = pl_id r,
         pi_title = (case pl_title r of Some t \<Rightarrow> t | None \<Rightarrow> []),
         pi_hidden = pl_hidden r, pi_typed = typed, pi_frecency = pl_frecency r,
         pi_visit_count_local = pl_visit_count_local r, pi_visit_count_remote = pl_visit_count_remote r,
         pi_last_visit_date_local = pl_last_visit_date_local r,
         pi_last_visit_date_remote = pl_last_visit_date_remote r,
         pi_sync_status = places_status_from_u8 (pl_sync_status r), pi_sync_change_counter = counter\<rparr>)))"

record FetchedPageInfo =
  fp_page :: PageInfo
  fp_last_visit_id :: "RowId option"

text \<open>The index on the hash only makes the comparison of the URLs cheaper.\<close>

definition fetch_page_info :: "'w PlacesEnv \<Rightarrow> string \<Rightarrow> ('w, FetchedPageInfo option) places_op" where
  "fetch_page_info env url =
     abind (query env (\<lambda>t. map_option (\<lambda>r. (r, find (\<lambda>v. v_place_id v = pl_id r \<and>
         (v_visit_date v = pl_last_visit_date_local r \<or> v_visit_date v = pl_last_visit_date_remote r)) (moz_historyvisits t)))
       (find (\<lambda>r. pl_url r = url) (moz_places t)))) (\<lambda>row.
     case row of
       None \<Rightarrow> ret None
     | Some (r, v) \<Rightarrow>
         abind (lift (page_info_from_row env r)) (\<lambda>page.
         ret (Some \<lparr>fp_page = page, fp_last_visit_id = map_option v_id v\<rparr>)))"

definition insert_place :: "string \<Rightarrow> string \<Rightarrow> PlacesTables \<Rightarrow> (SqlFailure, PlacesTables) outcome" where
  "insert_place guid url t =
     (if guid \<in> set (map pl_guid (moz_places t)) then Err (ConstraintViolation ''UNIQUE constraint failed: moz_places.guid'')
      else Ok (t\<lparr>
        moz_places := moz_places t @ [\<lparr>pl_id = next_rowid (map pl_id (moz_places t)), pl_url = url, pl_title = None,
          pl_visit_count_local = 0, pl_visit_count_remote = 0, pl_hidden = False, pl_typed = 0, pl_frecency = - 1,
          pl_last_visit_date_local = 0, pl_last_visit_date_remote = 0, pl_guid = guid, pl_foreign_count = 0,
          pl_sync_status = places_status_u8 New, pl_sync_change_counter = 0\<rparr>],
        moz_places_tombstones := removeAll guid (moz_places_tombstones t)\<rparr>))"

text \<open>\<^verbatim>\<open>last_insert_rowid\<close> after an insert into \<^verbatim>\<open>moz_places\<close>: the row is the last of the list.\<close>

definition new_page_info :: "'w PlacesEnv \<Rightarrow> string \<Rightarrow> string option \<Rightarrow> ('w, PageInfo) places_op" where
  "new_page_info env url new_guid_opt =
     abind (case new_guid_opt of Some guid \<Rightarrow> ret guid | None \<Rightarrow> new_guid env) (\<lambda>guid.
     if length url > URL_LENGTH_MAX then throw (InvalidPlaceInfoError UrlTooLong)
     else
       abind (exec env (insert_place guid url)) (\<lambda>_.
       abind get_st (\<lambda>(_, c).
       ret \<lparr>pi_url = url, pi_guid = guid, pi_row_id = pl_id (last (moz_places (cn_tables c))), pi_title = [],
            pi_hidden = True, pi_typed = 0, pi_frecency = - 1, pi_visit_count_local = 0, pi_visit_count_remote = 0,
            pi_last_visit_date_local = 0, pi_last_visit_date_remote = 0,
            pi_sync_status = New, pi_sync_change_counter = 0\<rparr>)))"

text \<open>The row id of a URL, which is added if it is not there.\<close>

definition page_row_id :: "'w PlacesEnv \<Rightarrow> string \<Rightarrow> ('w, RowId) places_op" where
  "page_row_id env url =
     abind (fetch_page_info env url) (\<lambda>info.
     case info of
       Some i \<Rightarrow> ret (pi_row_id (fp_page i))
     | None \<Rightarrow> abind (new_page_info env url None) (\<lambda>p. ret (pi_row_id p)))"

section \<open>Metadata\<close>

definition places_put_meta :: "'w PlacesEnv \<Rightarrow> string \<Rightarrow> Timestamp \<Rightarrow> ('w, unit) places_op" where
  "places_put_meta env key value = exec env (\<lambda>t. Ok (t\<lparr>moz_meta := (moz_meta t)(key \<mapsto> value)\<rparr>))"

definition places_get_meta :: "'w PlacesEnv \<Rightarrow> string \<Rightarrow> ('w, Timestamp option) places_op" where
  "places_get_meta env key = query env (\<lambda>t. moz_meta t key)"

definition places_delete_meta :: "'w PlacesEnv \<Rightarrow> string \<Rightarrow> ('w, unit) places_op" where
  "places_delete_meta env key = exec env (\<lambda>t. Ok (t\<lparr>moz_meta := (moz_meta t)(key := None)\<rparr>))"

section \<open>Bookmark statements\<close>

text \<open>\<^verbatim>\<open>length(guid)\<close> counts characters.\<close>

definition sql_length :: "string \<Rightarrow> nat" where
  "sql_length s = length (filter (\<lambda>b. \<not> is_continuation b) s)"

definition bookmark_checks :: "PlacesTables \<Rightarrow> BookmarkRow \<Rightarrow> bool" where
  "bookmark_checks t r \<longleftrightarrow>
     sql_length (bm_guid r) = 12 \<and>
     (bm_type r = 1 \<and> bm_fk r \<noteq> None \<or> bm_type r > 1 \<and> bm_fk r = None) \<and>
     (bm_guid r = ''root________'' \<or> bm_parent r \<noteq> None) \<and>
     (case bm_fk r of None \<Rightarrow> True | Some fk \<Rightarrow> fk \<in> set (map pl_id (moz_places t))) \<and>
     (case bm_parent r of None \<Rightarrow> True | Some p \<Rightarrow> p \<in> set (map bm_id (moz_bookmarks t)))"

definition bump_foreign_count :: "RowId option \<Rightarrow> int \<Rightarrow> PlaceRow list \<Rightarrow> PlaceRow list" where
  "bump_foreign_count fk n = map (\<lambda>p. if Some (pl_id p) = fk then p\<lparr>pl_foreign_count := pl_foreign_count p + n\<rparr> else p)"

definition insert_bookmark_row :: "BookmarkRow \<Rightarrow> PlacesTables \<Rightarrow> (SqlFailure, PlacesTables) outcome" where
  "insert_bookmark_row r t =
     (let row = r\<lparr>bm_id := next_rowid (map bm_id (moz_bookmarks t))\<rparr> in
      if bm_guid row \<in> set (map bm_guid (moz_bookmarks t)) \<or> \<not> bookmark_checks t row
      then Err (ConstraintViolation ''moz_bookmarks'')
      else Ok (t\<lparr>moz_bookmarks := moz_bookmarks t @ [row],
                 moz_places := bump_foreign_count (bm_fk row) 1 (moz_places t),
                 moz_bookmarks_deleted := filter (\<lambda>(g, _). g \<noteq> bm_guid row) (moz_bookmarks_deleted t)\<rparr>))"

definition update_bookmarks :: "(BookmarkRow \<Rightarrow> bool) \<Rightarrow> (BookmarkRow \<Rightarrow> BookmarkRow) \<Rightarrow> PlacesTables \<Rightarrow> PlacesTables" where
  "update_bookmarks P f t = t\<lparr>moz_bookmarks := map (\<lambda>r. if P r then f r else r) (moz_bookmarks t)\<rparr>"

text \<open>
  The rows that go with a set of deleted ones: children are deleted by the foreign key, with their
  children in turn. There are at most as many rounds as rows.
\<close>

fun cascade :: "nat \<Rightarrow> BookmarkRow list \<Rightarrow> RowId list \<Rightarrow> RowId list" where
  "cascade 0 rows ids = ids"
| "cascade (Suc n) rows ids =
     cascade n rows (ids @ map bm_id (filter (\<lambda>r. bm_id r \<notin> set ids \<and> (\<exists>p \<in> set ids. bm_parent r = Some p)) rows))"

definition deleted_with :: "BookmarkRow list \<Rightarrow> RowId \<Rightarrow> RowId list" where
  "deleted_with rows i = cascade (length rows) rows [i]"

definition delete_bookmark_row :: "Timestamp \<Rightarrow> RowId \<Rightarrow> PlacesTables \<Rightarrow> (SqlFailure, PlacesTables) outcome" where
  "delete_bookmark_row date_removed i t =
     (let gone = filter (\<lambda>r. bm_id r \<in> set (deleted_with (moz_bookmarks t) i)) (moz_bookmarks t);
          tombs = map bm_guid (filter (\<lambda>r. bm_syncStatus r = 2) gone)
      in if \<exists>g \<in> set tombs. g \<in> set (map fst (moz_bookmarks_deleted t))
         then Err (ConstraintViolation ''UNIQUE constraint failed: moz_bookmarks_deleted.guid'')
         else Ok (t\<lparr>moz_bookmarks := filter (\<lambda>r. bm_id r \<notin> set (deleted_with (moz_bookmarks t) i)) (moz_bookmarks t),
                    moz_places := fold (\<lambda>r. bump_foreign_count (bm_fk r) (- 1)) gone (moz_places t),
                    moz_bookmarks_deleted := moz_bookmarks_deleted t @ map (\<lambda>g. (g, date_removed)) tombs\<rparr>))"

end
