(* ===== verification/BookmarkDb.thy ===== *)
theory BookmarkDb
  imports PlacesTables
begin

text \<open>
  Bookmark storage (\<^verbatim>\<open>components/places/src/storage/bookmarks.rs\<close>): the tree kept in \<^verbatim>\<open>moz_bookmarks\<close>
  through row ids of the parent and positions among the siblings, and the operations of the public
  API on it.
\<close>

section \<open>The roots\<close>

definition create_root :: "'w PlacesEnv \<Rightarrow> string \<Rightarrow> string \<Rightarrow> nat \<Rightarrow> Timestamp \<Rightarrow> ('w, unit) places_op" where
  "create_root env title guid pos moment =
     exec env (\<lambda>t. insert_bookmark_row
       \<lparr>bm_id = 0, bm_fk = None, bm_type = bookmark_type_u8 Folder,
        bm_parent = map_option bm_id (find (\<lambda>r. bm_guid r = root_as_str Root) (moz_bookmarks t)),
        bm_position = int pos, bm_title = Some title, bm_dateAdded = moment, bm_lastModified = moment, bm_guid = guid,
        bm_syncStatus = places_status_u8 New, bm_syncChangeCounter = 1\<rparr> t)"

definition create_bookmark_roots :: "'w PlacesEnv \<Rightarrow> ('w, unit) places_op" where
  "create_bookmark_roots env =
     abind (now env) (\<lambda>moment.
     abind (create_root env ''root'' (root_as_str Root) 0 moment) (\<lambda>_.
     abind (create_root env ''menu'' (root_as_str Menu) 0 moment) (\<lambda>_.
     abind (create_root env ''toolbar'' (root_as_str Toolbar) 1 moment) (\<lambda>_.
     abind (create_root env ''unfiled'' (root_as_str Unfiled) 2 moment) (\<lambda>_.
     create_root env ''mobile'' (root_as_str Mobile) 3 moment)))))"

section \<open>Reading one bookmark\<close>

record RawBookmark =
  rb_place_id :: "RowId option"
  rb_row_id :: RowId
  rb_bookmark_type :: BookmarkType
  rb_parent_id :: "RowId option"
  rb_parent_guid :: "string option"
  rb_position :: nat
  rb_title :: "string option"
  rb_url :: "string option"
  rb_date_added :: Timestamp
  rb_date_modified :: Timestamp
  rb_guid :: string
  rb_sync_status :: SyncStatus
  rb_sync_change_counter :: nat
  rb_child_count :: nat
  rb_grandparent_id :: "RowId option"

definition nullif_empty :: "string option \<Rightarrow> string option" where
  "nullif_empty x = (if x = Some [] then None else x)"

definition bookmark_with_id :: "PlacesTables \<Rightarrow> RowId option \<Rightarrow> BookmarkRow option" where
  "bookmark_with_id t i = (case i of None \<Rightarrow> None | Some i \<Rightarrow> find (\<lambda>r. bm_id r = i) (moz_bookmarks t))"

definition place_with_id :: "PlacesTables \<Rightarrow> RowId option \<Rightarrow> PlaceRow option" where
  "place_with_id t i = (case i of None \<Rightarrow> None | Some i \<Rightarrow> find (\<lambda>r. pl_id r = i) (moz_places t))"

text \<open>\<^verbatim>\<open>RAW_BOOKMARK_SQL\<close> and \<^verbatim>\<open>RawBookmark::from_row\<close>.\<close>

definition raw_bookmark_from_row :: "'w PlacesEnv \<Rightarrow> PlacesTables \<Rightarrow> BookmarkRow \<Rightarrow> (PlacesError, RawBookmark) outcome" where
  "raw_bookmark_from_row env t b =
     (let p = bookmark_with_id t (bm_parent b) in
      obind (get_u32 (bm_position b)) (\<lambda>pos.
      obind (case place_with_id t (bm_fk b) of
               None \<Rightarrow> Ok None
             | Some h \<Rightarrow> omap Some (get_url env (pl_url h))) (\<lambda>url.
      obind (get_u32 (bm_syncChangeCounter b)) (\<lambda>counter.
      Ok \<lparr>rb_place_id = bm_fk b, rb_row_id = bm_id b,
          rb_bookmark_type = from_u8_with_valid_url (bm_type b) (bm_fk b \<noteq> None),
          rb_parent_id = bm_parent b, rb_parent_guid = map_option bm_guid p, rb_position = pos,
          rb_title = nullif_empty (bm_title b), rb_url = url,
          rb_date_added = bm_dateAdded b, rb_date_modified = bm_lastModified b, rb_guid = bm_guid b,
          rb_sync_status = places_status_from_u8 (bm_syncStatus b), rb_sync_change_counter = counter,
          rb_child_count = length (filter (\<lambda>r. bm_parent r = Some (bm_id b)) (moz_bookmarks t)),
          rb_grandparent_id = (case p of None \<Rightarrow> None | Some q \<Rightarrow> bm_parent q)\<rparr>))))"

definition get_raw_bookmark :: "'w PlacesEnv \<Rightarrow> string \<Rightarrow> ('w, RawBookmark option) places_op" where
  "get_raw_bookmark env guid =
     abind (query env (\<lambda>t. map_option (raw_bookmark_from_row env t) (find (\<lambda>r. bm_guid r = guid) (moz_bookmarks t)))) (\<lambda>row.
     case row of None \<Rightarrow> ret None | Some r \<Rightarrow> abind (lift r) (\<lambda>b. ret (Some b)))"

section \<open>Positions\<close>

datatype BookmarkPosition = Specific nat | Append

definition shift_from :: "RowId \<Rightarrow> nat \<Rightarrow> int \<Rightarrow> PlacesTables \<Rightarrow> PlacesTables" where
  "shift_from parent pos d =
     update_bookmarks (\<lambda>r. bm_parent r = Some parent \<and> bm_position r \<ge> int pos)
       (\<lambda>r. r\<lparr>bm_position := bm_position r + d\<rparr>)"

definition resolve_pos_for_insert :: "'w PlacesEnv \<Rightarrow> BookmarkPosition \<Rightarrow> RawBookmark \<Rightarrow> ('w, nat) places_op" where
  "resolve_pos_for_insert env pos parent =
     (case pos of
        Specific specified \<Rightarrow>
          let actual = min specified (rb_child_count parent) in
          abind (exec env (\<lambda>t. Ok (shift_from (rb_row_id parent) actual 1 t))) (\<lambda>_. ret actual)
      | Append \<Rightarrow> ret (rb_child_count parent))"

definition update_pos_for_deletion :: "'w PlacesEnv \<Rightarrow> nat \<Rightarrow> RowId \<Rightarrow> ('w, unit) places_op" where
  "update_pos_for_deletion env pos parent_id = exec env (\<lambda>t. Ok (shift_from parent_id pos (- 1) t))"

definition sub_u32 :: "bool \<Rightarrow> nat \<Rightarrow> nat \<Rightarrow> ('e, nat) outcome" where
  "sub_u32 dbg a b =
     (if b \<le> a then Ok (a - b)
      else if dbg then Panic ''attempt to subtract with overflow''
      else Ok (a + 2 ^ 32 - b))"

definition move_between :: "RowId \<Rightarrow> nat \<Rightarrow> nat \<Rightarrow> PlacesTables \<Rightarrow> PlacesTables" where
  "move_between parent new_index cur_index =
     update_bookmarks
       (\<lambda>r. bm_parent r = Some parent \<and> int (min cur_index new_index) \<le> bm_position r \<and> bm_position r \<le> int (max cur_index new_index))
       (\<lambda>r. r\<lparr>bm_position := (if new_index < cur_index then bm_position r + 1 else bm_position r - 1)\<rparr>)"

definition update_pos_for_move ::
    "'w PlacesEnv \<Rightarrow> bool \<Rightarrow> BookmarkPosition \<Rightarrow> RawBookmark \<Rightarrow> RawBookmark \<Rightarrow> ('w, nat) places_op" where
  "update_pos_for_move env dbg pos bm parent =
     (case rb_parent_id bm of
        None \<Rightarrow> panic ''called `Option::unwrap()` on a `None` value''
      | Some p \<Rightarrow>
          abind (assert_that (p = rb_row_id parent) ''assertion failed: `(left == right)`'') (\<lambda>_.
          abind (lift (sub_u32 dbg (rb_child_count parent) 1)) (\<lambda>last_index.
          let new_index = (case pos of Specific specified \<Rightarrow> min specified last_index | Append \<Rightarrow> last_index) in
          abind (exec env (\<lambda>t. Ok (move_between (rb_row_id parent) new_index (rb_position bm) t))) (\<lambda>_.
          ret new_index))))"

section \<open>Inserting\<close>

record InsertableCommon =
  in_parent_guid :: string
  in_position :: BookmarkPosition
  in_date_added :: "Timestamp option"
  in_last_modified :: "Timestamp option"
  in_guid :: "string option"

record InsertableBookmark = InsertableCommon +
  inb_url :: string
  inb_title :: "string option"

record InsertableFolder = InsertableCommon +
  inf_title :: "string option"

datatype InsertableItem =
    InsertBookmark InsertableBookmark
  | InsertSeparator InsertableCommon
  | InsertFolder InsertableFolder

fun insertable_common :: "InsertableItem \<Rightarrow> InsertableCommon" where
  "insertable_common (InsertBookmark b) = InsertableCommon.truncate b"
| "insertable_common (InsertSeparator s) = s"
| "insertable_common (InsertFolder f) = InsertableCommon.truncate f"

fun insertable_type :: "InsertableItem \<Rightarrow> BookmarkType" where
  "insertable_type (InsertBookmark _) = Bookmark"
| "insertable_type (InsertSeparator _) = Separator"
| "insertable_type (InsertFolder _) = Folder"

fun insertable_title :: "InsertableItem \<Rightarrow> string option" where
  "insertable_title (InsertBookmark b) = inb_title b"
| "insertable_title (InsertSeparator _) = None"
| "insertable_title (InsertFolder f) = inf_title f"

definition maybe_truncate_title :: "string option \<Rightarrow> string option" where
  "maybe_truncate_title t = map_option (\<lambda>title. slice_up_to title TITLE_LENGTH_MAX) t"

definition or_now :: "'w PlacesEnv \<Rightarrow> Timestamp option \<Rightarrow> ('w, Timestamp) places_op" where
  "or_now env x = (case x of Some v \<Rightarrow> ret v | None \<Rightarrow> now env)"

definition bump_counter :: "RowId \<Rightarrow> PlacesTables \<Rightarrow> PlacesTables" where
  "bump_counter i = update_bookmarks (\<lambda>r. bm_id r = i) (\<lambda>r. r\<lparr>bm_syncChangeCounter := bm_syncChangeCounter r + 1\<rparr>)"

definition insert_bookmark_in_tx :: "'w PlacesEnv \<Rightarrow> InsertableItem \<Rightarrow> ('w, string) places_op" where
  "insert_bookmark_in_tx env bm =
     (let common = insertable_common bm; parent_guid = in_parent_guid common in
      if parent_guid = root_as_str Root then throw (InvalidPlaceInfoError (CannotUpdateRoot Root))
      else
        abind (get_raw_bookmark env parent_guid) (\<lambda>found.
        abind (lift (ok_or (InvalidPlaceInfoError (NoSuchGuid parent_guid)) found)) (\<lambda>parent.
        if rb_bookmark_type parent \<noteq> Folder then throw (InvalidPlaceInfoError (InvalidParent parent_guid))
        else
          abind (resolve_pos_for_insert env (in_position common) parent) (\<lambda>pos.
          abind (case bm of
                   InsertBookmark b \<Rightarrow> abind (page_row_id env (inb_url b)) (\<lambda>i. ret (Some i))
                 | _ \<Rightarrow> ret None) (\<lambda>fk.
          abind (case in_guid common of Some g \<Rightarrow> ret g | None \<Rightarrow> new_guid env) (\<lambda>guid.
          abind (or_now env (in_date_added common)) (\<lambda>date_added.
          abind (or_now env (in_last_modified common)) (\<lambda>modified.
          abind (exec env (insert_bookmark_row
            \<lparr>bm_id = 0, bm_fk = fk, bm_type = bookmark_type_u8 (insertable_type bm), bm_parent = Some (rb_row_id parent),
             bm_position = int pos, bm_title = maybe_truncate_title (insertable_title bm),
             bm_dateAdded = date_added, bm_lastModified = max modified date_added, bm_guid = guid,
             bm_syncStatus = places_status_u8 New, bm_syncChangeCounter = 1\<rparr>)) (\<lambda>_.
          abind (exec env (\<lambda>t. Ok (bump_counter (rb_row_id parent) t))) (\<lambda>_.
          ret guid))))))))))"

text \<open>
  The body runs in a transaction that is committed if it succeeds and rolled back if it returns an
  error; a panic drops it.
\<close>

definition insert_bookmark :: "'w PlacesEnv \<Rightarrow> InsertableItem \<Rightarrow> ('w, string) places_op" where
  "insert_bookmark env bm = abind (begin_transaction env) (\<lambda>_. \<lambda>s.
     case insert_bookmark_in_tx env bm s of
       (Panic p, s1) \<Rightarrow> (Panic p, drop_tx env s1)
     | (result, s1) \<Rightarrow>
         (case delete_pending_temp_tables env s1 of
            (Ok _, s2) \<Rightarrow> abind (if is_Ok result then commit_tx env else rollback_tx env) (\<lambda>_. lift result) s2
          | (Err e, s2) \<Rightarrow> (Err e, drop_tx env s2)
          | (Panic p, s2) \<Rightarrow> (Panic p, drop_tx env s2)))"

section \<open>Deleting\<close>

definition delete_bookmark_in_tx :: "'w PlacesEnv \<Rightarrow> string \<Rightarrow> ('w, bool) places_op" where
  "delete_bookmark_in_tx env guid =
     (case well_known guid of
        Some r \<Rightarrow> throw (InvalidPlaceInfoError (CannotUpdateRoot r))
      | None \<Rightarrow>
          abind (get_raw_bookmark env guid) (\<lambda>found.
          case found of
            None \<Rightarrow> ret False
          | Some record \<Rightarrow>
              abind (lift (ok_or (CorruptionError (NonRootWithoutParent guid)) (rb_parent_id record))) (\<lambda>parent_id.
              abind (update_pos_for_deletion env (rb_position record) parent_id) (\<lambda>_.
              abind (now env) (\<lambda>date_removed.
              abind (exec env (delete_bookmark_row date_removed (rb_row_id record))) (\<lambda>_.
              abind (delete_pending_temp_tables env) (\<lambda>_.
              ret True)))))))"

definition delete_bookmark :: "'w PlacesEnv \<Rightarrow> string \<Rightarrow> ('w, bool) places_op" where
  "delete_bookmark env guid = abind (begin_transaction env) (\<lambda>_. \<lambda>s.
     case delete_bookmark_in_tx env guid s of
       (Panic p, s1) \<Rightarrow> (Panic p, drop_tx env s1)
     | (result, s1) \<Rightarrow> abind (if is_Ok result then commit_tx env else rollback_tx env) (\<lambda>_. lift result) s1)"

section \<open>Updating\<close>

datatype UpdateTreeLocation = NoChange | Position BookmarkPosition | Parent string BookmarkPosition

datatype UpdatableItem =
    UpdatableBookmark UpdateTreeLocation "string option" "string option"
  | UpdatableSeparator UpdateTreeLocation
  | UpdatableFolder UpdateTreeLocation "string option"

fun updatable_type :: "UpdatableItem \<Rightarrow> BookmarkType" where
  "updatable_type (UpdatableBookmark _ _ _) = Bookmark"
| "updatable_type (UpdatableSeparator _) = Separator"
| "updatable_type (UpdatableFolder _ _) = Folder"

fun updatable_location :: "UpdatableItem \<Rightarrow> UpdateTreeLocation" where
  "updatable_location (UpdatableBookmark l _ _) = l"
| "updatable_location (UpdatableSeparator l) = l"
| "updatable_location (UpdatableFolder l _) = l"

fun updatable_title :: "UpdatableItem \<Rightarrow> string option" where
  "updatable_title (UpdatableBookmark _ _ title) = title"
| "updatable_title (UpdatableSeparator _) = None"
| "updatable_title (UpdatableFolder _ title) = title"

text \<open>
  An update walks up the tree with a recursive query. The query need not end: an operation that may
  run forever is a function into \<open>option\<close>, and \<open>None\<close> is the run that does not return.
\<close>

type_synonym ('w, 'a) maybe_op = "'w \<times> Conn \<Rightarrow> ((PlacesError, 'a) outcome \<times> ('w \<times> Conn)) option"

definition runs :: "('w, 'a) places_op \<Rightarrow> ('w, 'a) maybe_op" where
  "runs m s = Some (m s)"

definition mbind :: "('w, 'a) maybe_op \<Rightarrow> ('a \<Rightarrow> ('w, 'b) maybe_op) \<Rightarrow> ('w, 'b) maybe_op" where
  "mbind m f s = (case m s of
     None \<Rightarrow> None
   | Some (Ok a, s') \<Rightarrow> f a s'
   | Some (Err e, s') \<Rightarrow> Some (Err e, s')
   | Some (Panic p, s') \<Rightarrow> Some (Panic p, s'))"

definition folder_parent :: "BookmarkRow list \<Rightarrow> RowId \<Rightarrow> RowId option" where
  "folder_parent rows a =
     (case find (\<lambda>r. bm_id r = a) rows of
        None \<Rightarrow> None
      | Some r \<Rightarrow> if bm_type r = bookmark_type_u8 Folder then bm_parent r else None)"

partial_function (option) ancestors :: "BookmarkRow list \<Rightarrow> RowId \<Rightarrow> RowId list option" where
  "ancestors rows a =
     (case folder_parent rows a of
        None \<Rightarrow> Some [a]
      | Some p \<Rightarrow> Option.bind (ancestors rows p) (\<lambda>as. Some (a # as)))"

definition set_ancestors_last_modified :: "'w PlacesEnv \<Rightarrow> RowId \<Rightarrow> Timestamp \<Rightarrow> ('w, unit) maybe_op" where
  "set_ancestors_last_modified env parent_id time =
     mbind (runs (query env (\<lambda>t. ancestors (moz_bookmarks t) parent_id))) (\<lambda>as.
     case as of
       None \<Rightarrow> (\<lambda>_. None)
     | Some ids \<Rightarrow>
         runs (\<lambda>(w, c). (Ok (), (w, c\<lparr>cn_tables :=
           update_bookmarks (\<lambda>r. bm_id r \<in> set ids) (\<lambda>r. r\<lparr>bm_lastModified := time\<rparr>) (cn_tables c)\<rparr>))))"

definition update_bookmark_row ::
    "RowId option \<Rightarrow> RowId \<Rightarrow> nat \<Rightarrow> string option \<Rightarrow> Timestamp \<Rightarrow> bool \<Rightarrow> RowId \<Rightarrow> PlacesTables \<Rightarrow>
     (SqlFailure, PlacesTables) outcome" where
  "update_bookmark_row fk parent pos title time change_incr i t =
     (let upd = (\<lambda>r. r\<lparr>bm_fk := fk, bm_parent := Some parent, bm_position := int pos, bm_title := title,
            bm_lastModified := time, bm_syncChangeCounter := bm_syncChangeCounter r + (if change_incr then 1 else 0)\<rparr>);
          changed = filter (\<lambda>r. bm_id r = i) (moz_bookmarks t);
          moved = filter (\<lambda>r. bm_fk r \<noteq> None \<and> fk \<noteq> None \<and> bm_fk r \<noteq> fk) changed
      in if list_all (\<lambda>r. bookmark_checks t (upd r)) changed
         then Ok ((update_bookmarks (\<lambda>r. bm_id r = i) upd t)\<lparr>
           moz_places := fold (\<lambda>r ps. bump_foreign_count (bm_fk r) (- 1) (bump_foreign_count fk 1 ps)) moved (moz_places t)\<rparr>)
         else Err (ConstraintViolation ''moz_bookmarks''))"

definition new_title :: "string option \<Rightarrow> string option \<Rightarrow> string option" where
  "new_title update existing = (case update of None \<Rightarrow> existing | Some v \<Rightarrow> if v = [] then None else Some v)"

text \<open>
  Where the item goes: the row id of its parent, its position there, and whether the change counters of
  the old and of the new parent are bumped.
\<close>

definition relocate ::
    "'w PlacesEnv \<Rightarrow> bool \<Rightarrow> string \<Rightarrow> RawBookmark \<Rightarrow> string \<Rightarrow> RowId \<Rightarrow> UpdateTreeLocation \<Rightarrow>
     ('w, RowId \<times> nat \<times> bool \<times> bool) places_op" where
  "relocate env dbg guid existing existing_parent_guid existing_parent_id location =
     (case location of
        NoChange \<Rightarrow> ret (existing_parent_id, rb_position existing, False, False)
      | Position pos \<Rightarrow>
          abind (get_raw_bookmark env existing_parent_guid) (\<lambda>found.
          abind (lift (ok_or (CorruptionError (NoParent guid existing_parent_guid)) found)) (\<lambda>parent.
          abind (update_pos_for_move env dbg pos existing parent) (\<lambda>pos.
          ret (existing_parent_id, pos, True, False))))
      | Parent new_parent_guid pos \<Rightarrow>
          if new_parent_guid = root_as_str Root then throw (InvalidPlaceInfoError (CannotUpdateRoot Root))
          else
            abind (get_raw_bookmark env new_parent_guid) (\<lambda>found.
            abind (lift (ok_or (InvalidPlaceInfoError (NoSuchGuid new_parent_guid)) found)) (\<lambda>new_parent.
            if rb_bookmark_type new_parent \<noteq> Folder then throw (InvalidPlaceInfoError (InvalidParent new_parent_guid))
            else
              abind (get_raw_bookmark env existing_parent_guid) (\<lambda>found.
              abind (lift (ok_or (CorruptionError (NoParent guid existing_parent_guid)) found)) (\<lambda>existing_parent.
              abind (update_pos_for_deletion env (rb_position existing) (rb_row_id existing_parent)) (\<lambda>_.
              abind (resolve_pos_for_insert env pos new_parent) (\<lambda>pos.
              ret (rb_row_id new_parent, pos, True, True))))))))"

definition new_place_id :: "'w PlacesEnv \<Rightarrow> RawBookmark \<Rightarrow> UpdatableItem \<Rightarrow> ('w, RowId option) places_op" where
  "new_place_id env existing item =
     (case item of
        UpdatableBookmark _ url _ \<Rightarrow>
          (case url of
             None \<Rightarrow> ret (rb_place_id existing)
           | Some url \<Rightarrow> abind (page_row_id env url) (\<lambda>i. ret (Some i)))
      | _ \<Rightarrow> abind (assert_that (rb_place_id existing = None) ''assertion failed: `(left == right)`'') (\<lambda>_. ret None))"

text \<open>The statements that write an update.\<close>

definition write_update ::
    "'w PlacesEnv \<Rightarrow> (PlacesTables \<Rightarrow> (SqlFailure, PlacesTables) outcome) \<Rightarrow> RowId \<Rightarrow> RowId \<Rightarrow> bool \<Rightarrow> bool \<Rightarrow> Timestamp \<Rightarrow>
     ('w, unit) maybe_op" where
  "write_update env stmt existing_parent_id parent_id update_old_parent_status update_new_parent_status time =
     mbind (runs (exec env stmt)) (\<lambda>_.
     mbind (set_ancestors_last_modified env existing_parent_id time) (\<lambda>_.
     mbind (runs (if update_old_parent_status then exec env (\<lambda>t. Ok (bump_counter existing_parent_id t)) else ret ())) (\<lambda>_.
     if update_new_parent_status
     then mbind (set_ancestors_last_modified env parent_id time) (\<lambda>_. runs (exec env (\<lambda>t. Ok (bump_counter parent_id t))))
     else runs (ret ()))))"

definition update_existing ::
    "'w PlacesEnv \<Rightarrow> bool \<Rightarrow> string \<Rightarrow> UpdatableItem \<Rightarrow> RawBookmark \<Rightarrow> string \<Rightarrow> RowId \<Rightarrow> ('w, unit) maybe_op" where
  "update_existing env dbg guid item existing existing_parent_guid existing_parent_id =
     (if rb_bookmark_type existing \<noteq> updatable_type item
      then runs (throw (InvalidPlaceInfoError (MismatchedBookmarkType
             (bookmark_type_u8 (rb_bookmark_type existing)) (bookmark_type_u8 (updatable_type item)))))
      else
        mbind (runs (relocate env dbg guid existing existing_parent_guid existing_parent_id (updatable_location item)))
          (\<lambda>(parent_id, pos, update_old_parent_status, update_new_parent_status).
        mbind (runs (new_place_id env existing item)) (\<lambda>place_id.
        let title = new_title (updatable_title item) (rb_title existing);
            change_incr = (title \<noteq> rb_title existing \<or> place_id \<noteq> rb_place_id existing)
        in mbind (runs (now env)) (\<lambda>time.
           write_update env
             (update_bookmark_row place_id parent_id pos (maybe_truncate_title title) time change_incr (rb_row_id existing))
             existing_parent_id parent_id update_old_parent_status update_new_parent_status time))))"

definition update_bookmark_in_tx :: "'w PlacesEnv \<Rightarrow> bool \<Rightarrow> string \<Rightarrow> UpdatableItem \<Rightarrow> ('w, unit) maybe_op" where
  "update_bookmark_in_tx env dbg guid item =
     (if is_root guid then runs (throw (InvalidPlaceInfoError (CannotUpdateRoot Root)))
      else
        mbind (runs (get_raw_bookmark env guid)) (\<lambda>found.
        mbind (runs (lift (ok_or (InvalidPlaceInfoError (NoSuchGuid guid)) found))) (\<lambda>existing.
        mbind (runs (lift (ok_or (CorruptionError (NonRootWithoutParent guid)) (rb_parent_guid existing)))) (\<lambda>existing_parent_guid.
        mbind (runs (lift (ok_or (CorruptionError (NoParent guid existing_parent_guid)) (rb_parent_id existing)))) (\<lambda>existing_parent_id.
        update_existing env dbg guid item existing existing_parent_guid existing_parent_id)))))"

text \<open>The transaction is committed whatever the body returns.\<close>

definition update_bookmark :: "'w PlacesEnv \<Rightarrow> bool \<Rightarrow> string \<Rightarrow> UpdatableItem \<Rightarrow> ('w, unit) maybe_op" where
  "update_bookmark env dbg guid item = mbind (runs (begin_transaction env)) (\<lambda>_. \<lambda>s.
     case update_bookmark_in_tx env dbg guid item s of
       None \<Rightarrow> None
     | Some (Panic p, s1) \<Rightarrow> Some (Panic p, drop_tx env s1)
     | Some (result, s1) \<Rightarrow> Some (abind (commit_tx env) (\<lambda>_. lift result) s1))"

end
