(* ===== verification/BookmarkTree.thy ===== *)
theory BookmarkTree
  imports BookmarkDb "HOL-Library.Multiset"
begin

text \<open>
  The tree that the rows of \<^verbatim>\<open>moz_bookmarks\<close> stand for: the ordered children of a row, the invariant
  that every operation keeps, and what renumbering, inserting and deleting rows do to the lists of
  children.
\<close>

section \<open>Children\<close>

definition child_rows :: "BookmarkRow list \<Rightarrow> RowId \<Rightarrow> BookmarkRow list" where
  "child_rows rows p = filter (\<lambda>r. bm_parent r = Some p) rows"

definition children :: "BookmarkRow list \<Rightarrow> RowId \<Rightarrow> BookmarkRow list" where
  "children rows p = sort_key bm_position (child_rows rows p)"

definition numbered :: "BookmarkRow list \<Rightarrow> bool" where
  "numbered xs \<longleftrightarrow> map bm_position xs = map int [0..<length xs]"

lemma numbered_nth: "numbered xs \<longleftrightarrow> (\<forall>i < length xs. bm_position (xs ! i) = int i)"
  unfolding numbered_def list_eq_iff_nth_eq by simp

lemma mset_children [simp]: "mset (children rows p) = mset (child_rows rows p)"
  by (simp add: children_def)

lemma set_children [simp]: "set (children rows p) = {r \<in> set rows. bm_parent r = Some p}"
  by (simp add: children_def child_rows_def)

lemma length_children: "length (children rows p) = length (child_rows rows p)"
  by (simp add: children_def)

lemma filter_singleton:
  assumes "inj_on f (set xs)" "distinct xs" "k \<in> set xs"
  shows "filter (\<lambda>x. f k = f x) xs = [k]"
proof -
  have "filter (\<lambda>x. f k = f x) xs = filter (\<lambda>x. x = k) xs"
    using assms(1,3) by (intro filter_cong) (auto dest: inj_onD)
  also have "\<dots> = [k]" using assms(2,3) by (induction xs) (auto intro: filter_False)
  finally show ?thesis .
qed

text \<open>A numbered arrangement of the children of a row is the list of them.\<close>

lemma children_eqI:
  assumes "mset xs = mset (child_rows rows p)" "numbered xs"
  shows "children rows p = xs"
proof -
  have pos: "map bm_position xs = map int [0..<length xs]" using assms(2) by (simp add: numbered_def)
  have inj: "distinct (map bm_position xs)" unfolding pos by (simp add: distinct_map)
  then have d: "distinct xs" "inj_on bm_position (set xs)" by (simp_all add: distinct_map)
  have d2: "distinct (child_rows rows p)" "set (child_rows rows p) = set xs"
    using d(1) assms(1) by (metis mset_eq_imp_distinct_iff, metis mset_eq_setD)
  show ?thesis unfolding children_def
  proof (rule properties_for_sort_key)
    show "sorted (map bm_position xs)" unfolding pos by (simp add: sorted_iff_nth_mono)
    show "filter (\<lambda>x. bm_position k = bm_position x) xs = filter (\<lambda>x. bm_position k = bm_position x) (child_rows rows p)"
      if "k \<in> set xs" for k
      using filter_singleton [OF d(2,1) that] filter_singleton [of bm_position "child_rows rows p" k] d(2) d2 that by simp
  qed (rule assms(1))
qed

text \<open>
  The children of a row after each row has been changed: any numbered arrangement of the rows that
  have this parent now.
\<close>

lemma children_map_update:
  assumes "distinct rows" "inj_on upd (set rows)" "distinct xs"
    and "set xs = {r \<in> set rows. bm_parent (upd r) = Some p}" "numbered (map upd xs)"
  shows "children (map upd rows) p = map upd xs"
proof (rule children_eqI)
  have "child_rows (map upd rows) p = map upd (filter (\<lambda>r. bm_parent (upd r) = Some p) rows)"
    by (simp add: child_rows_def filter_map comp_def)
  moreover have "mset xs = mset (filter (\<lambda>r. bm_parent (upd r) = Some p) rows)"
    using assms(1,3,4) by (intro set_eq_iff_mset_eq_distinct [THEN iffD1]) auto
  ultimately show "mset (map upd xs) = mset (child_rows (map upd rows) p)" by simp
qed (rule assms(5))

lemma children_cong:
  "(\<And>r. r \<in> set rows \<Longrightarrow> bm_parent (f r) = Some p \<longleftrightarrow> bm_parent r = Some p) \<Longrightarrow>
   (\<And>r. r \<in> set rows \<Longrightarrow> bm_parent r = Some p \<Longrightarrow> f r = r) \<Longrightarrow> children (map f rows) p = children rows p"
  by (induction rows) (auto simp: children_def child_rows_def)

definition insert_at :: "nat \<Rightarrow> 'a \<Rightarrow> 'a list \<Rightarrow> 'a list" where
  "insert_at k x xs = take k xs @ x # drop k xs"

definition remove_at :: "nat \<Rightarrow> 'a list \<Rightarrow> 'a list" where
  "remove_at k xs = take k xs @ drop (Suc k) xs"

lemma mset_insert_at: "mset (insert_at k x xs) = mset (x # xs)"
proof -
  have "mset (take k xs) + mset (drop k xs) = mset xs" by (metis append_take_drop_id mset_append)
  then show ?thesis by (simp add: insert_at_def)
qed

lemma set_insert_at [simp]: "set (insert_at k x xs) = insert x (set xs)"
  using mset_eq_setD [OF mset_insert_at] by simp

lemma distinct_insert_at [simp]: "distinct (insert_at k x xs) \<longleftrightarrow> x \<notin> set xs \<and> distinct xs"
  using mset_eq_imp_distinct_iff [OF mset_insert_at] by simp

lemma length_insert_at [simp]: "length (insert_at k x xs) = Suc (length xs)"
  by (simp add: insert_at_def)

lemma map_insert_at: "map f (insert_at k x xs) = insert_at k (f x) (map f xs)"
  by (simp add: insert_at_def take_map drop_map)

lemma nth_insert_at:
  "k \<le> length xs \<Longrightarrow> i < Suc (length xs) \<Longrightarrow>
     insert_at k x xs ! i = (if i < k then xs ! i else if i = k then x else xs ! (i - 1))"
  by (auto simp: insert_at_def nth_append nth_Cons' min_def)

lemma mset_remove_at: "k < length xs \<Longrightarrow> mset (xs ! k # remove_at k xs) = mset xs"
  unfolding remove_at_def by (metis id_take_nth_drop mset.simps(2) mset_append union_mset_add_mset_right)

lemma set_remove_at: "k < length xs \<Longrightarrow> distinct xs \<Longrightarrow> set (remove_at k xs) = set xs - {xs ! k}"
  using mset_eq_setD [OF mset_remove_at, of k xs] mset_eq_imp_distinct_iff [OF mset_remove_at, of k xs] by auto

lemma distinct_remove_at: "k < length xs \<Longrightarrow> distinct xs \<Longrightarrow> distinct (remove_at k xs)"
  using mset_eq_imp_distinct_iff [OF mset_remove_at, of k xs] by simp

lemma length_remove_at [simp]: "k < length xs \<Longrightarrow> length (remove_at k xs) = length xs - 1"
  by (simp add: remove_at_def)

lemma map_remove_at: "map f (remove_at k xs) = remove_at k (map f xs)"
  by (simp add: remove_at_def take_map drop_map)

lemma nth_remove_at:
  "k < length xs \<Longrightarrow> i < length xs - 1 \<Longrightarrow> remove_at k xs ! i = (if i < k then xs ! i else xs ! Suc i)"
  by (auto simp: remove_at_def nth_append min_def)

section \<open>Renumbering\<close>

lemma inj_on_update:
  assumes "distinct (map bm_id rows)" "\<And>r. bm_id (upd r) = bm_id r"
  shows "inj_on upd (set rows)"
  using assms by (auto simp: inj_on_def distinct_map) (metis)

lemma distinct_children: "distinct (map bm_id rows) \<Longrightarrow> distinct (children rows p)"
  by (simp add: children_def child_rows_def distinct_map)

definition shift_row :: "RowId \<Rightarrow> nat \<Rightarrow> int \<Rightarrow> BookmarkRow \<Rightarrow> BookmarkRow" where
  "shift_row p k d r = (if bm_parent r = Some p \<and> int k \<le> bm_position r then r\<lparr>bm_position := bm_position r + d\<rparr> else r)"

lemma shift_row_simps [simp]:
  "bm_id (shift_row p k d r) = bm_id r" "bm_parent (shift_row p k d r) = bm_parent r" "bm_guid (shift_row p k d r) = bm_guid r"
  "bm_type (shift_row p k d r) = bm_type r" "bm_fk (shift_row p k d r) = bm_fk r" "bm_title (shift_row p k d r) = bm_title r"
  "bm_syncStatus (shift_row p k d r) = bm_syncStatus r" "bm_syncChangeCounter (shift_row p k d r) = bm_syncChangeCounter r"
  "bm_dateAdded (shift_row p k d r) = bm_dateAdded r" "bm_lastModified (shift_row p k d r) = bm_lastModified r"
  by (simp_all add: shift_row_def)

lemma moz_bookmarks_shift_from: "moz_bookmarks (shift_from p k d t) = map (shift_row p k d) (moz_bookmarks t)"
  by (simp add: shift_from_def update_bookmarks_def shift_row_def)

lemma children_shift_other: "q \<noteq> p \<Longrightarrow> children (map (shift_row p k d) rows) q = children rows q"
  by (rule children_cong) (auto simp: shift_row_def)

text \<open>
  What the renumbering statements achieve, for rows that are changed by any function that keeps their
  ids: a row that leaves a numbered list, one that joins it, and one that moves in it.
\<close>

definition arranged :: "(BookmarkRow \<Rightarrow> BookmarkRow) \<Rightarrow> BookmarkRow list \<Rightarrow> RowId \<Rightarrow> BookmarkRow list \<Rightarrow> bool" where
  "arranged upd rows p xs \<longleftrightarrow> children (map upd rows) p = map upd xs \<and> numbered (map upd xs)"

lemma children_arranged:
  assumes "distinct (map bm_id rows)" "\<And>r. bm_id (upd r) = bm_id r"
    and "distinct xs" "set xs = {r \<in> set rows. bm_parent (upd r) = Some p}"
    and "\<And>j. j < length xs \<Longrightarrow> bm_position (upd (xs ! j)) = int j"
  shows "arranged upd rows p xs"
  using assms unfolding arranged_def
  by (intro conjI children_map_update inj_on_update) (simp_all add: distinct_map numbered_nth)

lemma children_removed:
  assumes ids: "distinct (map bm_id rows)" "\<And>r. bm_id (upd r) = bm_id r"
    and n: "numbered cs" "distinct cs" and i: "i < length cs"
    and s: "{r \<in> set rows. bm_parent (upd r) = Some p} = set cs - {cs ! i}"
    and pos: "\<And>r. r \<in> set cs \<Longrightarrow> r \<noteq> cs ! i \<Longrightarrow> bm_position (upd r) = bm_position r - (if int i < bm_position r then 1 else 0)"
  shows "arranged upd rows p (remove_at i cs)"
proof (rule children_arranged [OF ids])
  show "distinct (remove_at i cs)" "set (remove_at i cs) = {r \<in> set rows. bm_parent (upd r) = Some p}"
    using i n(2) s by (simp_all add: distinct_remove_at set_remove_at)
  fix j assume j: "j < length (remove_at i cs)"
  have K: "bm_position (upd (cs ! k)) = int k - (if i < k then 1 else 0)" if "k < length cs" "k \<noteq> i" for k
  proof -
    have "bm_position (cs ! k) = int k" "cs ! k \<in> set cs" "cs ! k \<noteq> cs ! i"
      using n i that by (auto simp: numbered_nth nth_eq_iff_index_eq)
    then show ?thesis using pos [of "cs ! k"] by simp
  qed
  show "bm_position (upd (remove_at i cs ! j)) = int j"
    using K [of j] K [of "Suc j"] i j by (cases "j < i") (simp_all add: nth_remove_at)
qed

lemma children_inserted:
  assumes ids: "distinct (map bm_id rows)" "\<And>r. bm_id (upd r) = bm_id r"
    and n: "numbered cs" "distinct cs" and k: "k \<le> length cs" and item: "item \<notin> set cs" "bm_position (upd item) = int k"
    and s: "{r \<in> set rows. bm_parent (upd r) = Some p} = insert item (set cs)"
    and pos: "\<And>r. r \<in> set cs \<Longrightarrow> bm_position (upd r) = bm_position r + (if int k \<le> bm_position r then 1 else 0)"
  shows "arranged upd rows p (insert_at k item cs)"
proof (rule children_arranged [OF ids])
  show "distinct (insert_at k item cs)" "set (insert_at k item cs) = {r \<in> set rows. bm_parent (upd r) = Some p}"
    using n(2) item(1) s by simp_all
  fix j assume j: "j < length (insert_at k item cs)"
  show "bm_position (upd (insert_at k item cs ! j)) = int j"
  proof (cases "j = k")
    case True
    then show ?thesis using k item(2) by (simp add: nth_insert_at)
  next
    case False
    have K: "bm_position (upd (cs ! m)) = int m + (if k \<le> m then 1 else 0)" if "m < length cs" for m
      using pos [of "cs ! m"] n that by (simp add: numbered_nth)
    show ?thesis using K [of j] K [of "j - 1"] k j False by (cases "j < k") (simp_all add: nth_insert_at)
  qed
qed

lemma children_moved:
  assumes ids: "distinct (map bm_id rows)" "\<And>r. bm_id (upd r) = bm_id r"
    and n: "numbered cs" "distinct cs" and i: "i < length cs" and j: "j < length cs" and item: "bm_position (upd (cs ! i)) = int j"
    and s: "{r \<in> set rows. bm_parent (upd r) = Some p} = set cs"
    and pos: "\<And>r. r \<in> set cs \<Longrightarrow> r \<noteq> cs ! i \<Longrightarrow> bm_position (upd r) =
      (if int (min i j) \<le> bm_position r \<and> bm_position r \<le> int (max i j) then if j < i then bm_position r + 1 else bm_position r - 1
       else bm_position r)"
  shows "arranged upd rows p (insert_at j (cs ! i) (remove_at i cs))"
proof (rule children_arranged [OF ids])
  let ?xs = "insert_at j (cs ! i) (remove_at i cs)"
  show "distinct ?xs" "set ?xs = {r \<in> set rows. bm_parent (upd r) = Some p}"
    using i n(2) s by (simp_all add: distinct_remove_at set_remove_at insert_absorb)
  fix m assume m: "m < length ?xs"
  show "bm_position (upd (?xs ! m)) = int m"
  proof (cases "m = j")
    case True
    then show ?thesis using i j item by (simp add: nth_insert_at)
  next
    case False
    have K: "bm_position (upd (cs ! k)) =
        (if j < i then if j \<le> k \<and> k \<le> i then int k + 1 else int k else if i \<le> k \<and> k \<le> j then int k - 1 else int k)"
      if "k < length cs" "k \<noteq> i" for k
    proof -
      have "bm_position (cs ! k) = int k" "cs ! k \<in> set cs" "cs ! k \<noteq> cs ! i"
        using n i that by (auto simp: numbered_nth nth_eq_iff_index_eq)
      then show ?thesis using pos [of "cs ! k"] by (cases "j < i") (simp_all add: min_def max_def)
    qed
    have nth: "m < j \<Longrightarrow> m < i \<Longrightarrow> ?xs ! m = cs ! m" "m < j \<Longrightarrow> i \<le> m \<Longrightarrow> ?xs ! m = cs ! Suc m"
        "j < m \<Longrightarrow> m - 1 < i \<Longrightarrow> ?xs ! m = cs ! (m - 1)" "j < m \<Longrightarrow> i < m \<Longrightarrow> ?xs ! m = cs ! m"
      using m i j by (simp_all add: nth_insert_at nth_remove_at)
    have lm: "m < length cs" using m i by simp
    consider "m < j" "m < i" | "m < j" "i \<le> m" | "j < m" "m - 1 < i" | "j < m" "i < m" using False by linarith
    then show ?thesis
    proof cases
      case 1
      then show ?thesis using nth(1) K [OF lm] by simp
    next
      case 2
      then show ?thesis using nth(2) K [of "Suc m"] j by simp
    next
      case 3
      then show ?thesis using nth(3) K [of "m - 1"] lm by simp
    next
      case 4
      then show ?thesis using nth(4) K [OF lm] by simp
    qed
  qed
qed

section \<open>Ancestors and descendants\<close>

definition parent_rel :: "BookmarkRow list \<Rightarrow> (RowId \<times> RowId) set" where
  "parent_rel rows = {(p, i). \<exists>r \<in> set rows. bm_id r = i \<and> bm_parent r = Some p}"

definition closed_below :: "BookmarkRow list \<Rightarrow> RowId set \<Rightarrow> bool" where
  "closed_below rows S \<longleftrightarrow> (\<forall>r \<in> set rows. (\<exists>p \<in> S. bm_parent r = Some p) \<longrightarrow> bm_id r \<in> S)"

lemma cascade_mono: "set ids \<subseteq> set (cascade n rows ids)"
  by (induction n rows ids rule: cascade.induct) auto

lemma Image_rtrancl_subset: "X \<subseteq> R\<^sup>* `` Y \<Longrightarrow> R\<^sup>* `` X \<subseteq> R\<^sup>* `` Y"
  by (blast intro: rtrancl_trans)

lemma cascade_sound: "set (cascade n rows ids) \<subseteq> (parent_rel rows)\<^sup>* `` set ids"
proof (induction n rows ids rule: cascade.induct)
  case (2 n rows ids)
  let ?new = "map bm_id (filter (\<lambda>r. bm_id r \<notin> set ids \<and> (\<exists>p \<in> set ids. bm_parent r = Some p)) rows)"
  have "set (ids @ ?new) \<subseteq> (parent_rel rows)\<^sup>* `` set ids" by (auto simp: parent_rel_def)
  then have "(parent_rel rows)\<^sup>* `` set (ids @ ?new) \<subseteq> (parent_rel rows)\<^sup>* `` set ids"
    by (rule Image_rtrancl_subset)
  then show ?case using 2 by auto
qed auto

lemma cascade_closed: "closed_below rows (set ids) \<Longrightarrow> set (cascade n rows ids) = set ids"
proof (induction n rows ids rule: cascade.induct)
  case (2 n rows ids)
  let ?new = "map bm_id (filter (\<lambda>r. bm_id r \<notin> set ids \<and> (\<exists>p \<in> set ids. bm_parent r = Some p)) rows)"
  have "?new = []" using 2(2) by (auto simp: closed_below_def filter_empty_conv)
  then show ?case using 2 by simp
qed simp

lemma cascade_progress:
  "closed_below rows (set (cascade n rows ids)) \<or>
   n + card (set ids \<inter> set (map bm_id rows)) \<le> card (set (cascade n rows ids) \<inter> set (map bm_id rows))"
proof (induction n rows ids rule: cascade.induct)
  case (2 n rows ids)
  define new where "new = map bm_id (filter (\<lambda>r. bm_id r \<notin> set ids \<and> (\<exists>p \<in> set ids. bm_parent r = Some p)) rows)"
  let ?A = "set (map bm_id rows)"
  have step: "cascade (Suc n) rows ids = cascade n rows (ids @ new)" by (simp add: new_def)
  have new: "set new \<subseteq> ?A - set ids" by (auto simp: new_def)
  show ?case
  proof (cases "new = []")
    case True
    then have "closed_below rows (set ids)" by (auto simp: new_def closed_below_def filter_empty_conv)
    then show ?thesis using True cascade_closed [of rows ids n] step by simp
  next
    case False
    then obtain x where "x \<in> set new" by (meson last_in_set)
    then have "set ids \<inter> ?A \<subset> set (ids @ new) \<inter> ?A" using new by auto
    then have "card (set ids \<inter> ?A) < card (set (ids @ new) \<inter> ?A)" by (intro psubset_card_mono) simp
    then show ?thesis using 2 unfolding step new_def [symmetric] by linarith
  qed
qed simp

lemma deleted_with_set:
  assumes "i \<in> set (map bm_id rows)"
  shows "set (deleted_with rows i) = {j. (i, j) \<in> (parent_rel rows)\<^sup>*}"
proof -
  let ?S = "set (deleted_with rows i)"
  have "card (?S \<inter> set (map bm_id rows)) \<le> length rows"
    by (rule le_trans [OF card_mono [of "set (map bm_id rows)"]]) (use card_length [of "map bm_id rows"] in auto)
  moreover have "card ({i} \<inter> set (map bm_id rows)) = 1" using assms by (simp add: Int_absorb2)
  ultimately have c: "closed_below rows ?S"
    using cascade_progress [of rows "length rows" "[i]"] by (simp add: deleted_with_def)
  have i: "i \<in> ?S" using cascade_mono [of "[i]" "length rows" rows] by (simp add: deleted_with_def)
  have "j \<in> ?S" if "(i, j) \<in> (parent_rel rows)\<^sup>*" for j
    using that by (induction rule: rtrancl_induct) (use i c in \<open>auto simp: closed_below_def parent_rel_def\<close>)
  moreover have "?S \<subseteq> {j. (i, j) \<in> (parent_rel rows)\<^sup>*}"
    using cascade_sound [of "length rows" rows "[i]"] by (auto simp: deleted_with_def)
  ultimately show ?thesis by blast
qed

lemma folder_parent_Some:
  "folder_parent rows a = Some p \<Longrightarrow> (p, a) \<in> parent_rel rows"
  by (auto simp: folder_parent_def parent_rel_def find_Some_iff split: option.splits if_splits)

lemma ancestors_terminates:
  assumes "wf (parent_rel rows)" shows "\<exists>as. ancestors rows a = Some as"
  using assms
proof (induction a rule: wf_induct_rule)
  case (less a)
  show ?case
  proof (cases "folder_parent rows a")
    case None
    then show ?thesis by (subst ancestors.simps) simp
  next
    case (Some p)
    then obtain as where "ancestors rows p = Some as" using less folder_parent_Some by blast
    then show ?thesis using Some by (subst ancestors.simps) simp
  qed
qed

text \<open>The query of a row that is its own ancestor does not end.\<close>

lemma ancestors_step:
  assumes "folder_parent rows a = Some p" "ancestors rows a = Some as"
  shows "\<exists>as'. ancestors rows p = Some as' \<and> length as = Suc (length as')"
  using assms(2) by (subst (asm) ancestors.simps) (auto simp: assms(1) bind_eq_Some_conv)

lemma ancestors_chain:
  assumes "(a, b) \<in> {(a, p). folder_parent rows a = Some p} ^^ n" "ancestors rows a = Some as"
  shows "\<exists>bs. ancestors rows b = Some bs \<and> length as = n + length bs"
  using assms
proof (induction n arbitrary: b)
  case (Suc n)
  then obtain c where "(a, c) \<in> {(a, p). folder_parent rows a = Some p} ^^ n" "folder_parent rows c = Some b" by auto
  then show ?case using Suc ancestors_step [of rows c b] by fastforce
qed simp

lemma ancestors_cycle:
  assumes "(a, a) \<in> {(a, p). folder_parent rows a = Some p}\<^sup>+"
  shows "ancestors rows a = None"
proof (rule ccontr)
  assume "ancestors rows a \<noteq> None"
  then obtain as where as: "ancestors rows a = Some as" by blast
  obtain n where "0 < n" "(a, a) \<in> {(a, p). folder_parent rows a = Some p} ^^ n" using assms by (auto simp: trancl_power)
  then show False using ancestors_chain [OF _ as] as by force
qed

end
