(* ===== verification/BookmarkTables.thy ===== *)
theory BookmarkTables
  imports BookmarkTree
begin

text \<open>
  What a bookmark operation that succeeds does to the tables, as functions from tables to tables, and
  the rules that compute it from the code.
\<close>

section \<open>Successful runs\<close>

text \<open>\<open>sat m R\<close>: \<open>m\<close> leaves transactions alone, and relates the tables before and after a success.\<close>

definition sat :: "('w, 'a) places_op \<Rightarrow> (PlacesTables \<Rightarrow> 'a \<Rightarrow> PlacesTables \<Rightarrow> bool) \<Rightarrow> bool" where
  "sat m R \<longleftrightarrow> (\<forall>w c r w' c'. m (w, c) = (r, (w', c')) \<longrightarrow>
     cn_saved c' = cn_saved c \<and> (\<forall>a. r = Ok a \<longrightarrow> R (cn_tables c) a (cn_tables c')))"

lemma satD:
  "sat m R \<Longrightarrow> m (w, c) = (Ok a, (w', c')) \<Longrightarrow> R (cn_tables c) a (cn_tables c')"
  "sat m R \<Longrightarrow> m (w, c) = (r, (w', c')) \<Longrightarrow> cn_saved c' = cn_saved c"
  by (auto simp: sat_def)

lemma sat_weaken: "sat m R \<Longrightarrow> (\<And>t a t'. R t a t' \<Longrightarrow> Q t a t') \<Longrightarrow> sat m Q"
  unfolding sat_def by blast

lemma sat_abind:
  assumes "sat m R" "\<And>a. sat (f a) (Q a)"
  shows "sat (abind m f) (\<lambda>t b t''. \<exists>a t'. R t a t' \<and> Q a t' b t'')"
  unfolding sat_def
proof (intro allI impI, goal_cases)
  case (1 w c r w' c')
  from this show ?case
  proof (cases rule: abind_cases)
    case (Ok a s1)
    obtain w1 c1 where s1: "s1 = (w1, c1)" by (cases s1)
    then show ?thesis
      using satD [OF assms(1), of w c] satD(2) [OF assms(1), of w c] satD [OF assms(2), of a w1 c1] Ok by auto
  qed (use satD(2) [OF assms(1)] in auto)
qed

lemma sat_ret: "sat (ret a) (\<lambda>t b t'. b = a \<and> t' = t)"
  by (simp add: sat_def ret_def)

lemma sat_throw: "sat (throw e) (\<lambda>_ _ _. False)"
  by (simp add: sat_def throw_def)

lemma sat_panic: "sat (panic p) (\<lambda>_ _ _. False)"
  by (simp add: sat_def panic_def)

lemma sat_lift: "sat (lift r) (\<lambda>t a t'. r = Ok a \<and> t' = t)"
  by (simp add: sat_def lift_def)

lemma sat_assert: "sat (assert_that b msg) (\<lambda>t _ t'. b \<and> t' = t)"
  by (simp add: sat_def assert_that_def ret_def panic_def)

lemma sat_if: "(b \<Longrightarrow> sat m R) \<Longrightarrow> (\<not> b \<Longrightarrow> sat m' Q) \<Longrightarrow> sat (if b then m else m') (\<lambda>t a t'. if b then R t a t' else Q t a t')"
  by simp

lemma sat_sql: "sat (sql env) (\<lambda>t _ t'. t' = t)"
  by (auto simp: sat_def sql_def world_def split: prod.splits)

lemma sat_exec: "sat (exec env f) (\<lambda>t _ t'. f t = Ok t')"
  by (auto simp: sat_def exec_def sql_def world_def abind_def split: prod.splits outcome.splits)

lemma sat_query: "sat (query env f) (\<lambda>t a t'. a = f t \<and> t' = t)"
  by (auto simp: sat_def query_def sql_def world_def abind_def split: prod.splits outcome.splits)

lemma sat_now: "sat (now env) (\<lambda>t _ t'. t' = t)"
  by (simp add: sat_def now_def)

lemma sat_new_guid: "sat (new_guid env) (\<lambda>t _ t'. t' = t)"
  by (auto simp: sat_def new_guid_def split: prod.splits outcome.splits)

lemma sat_or_now: "sat (or_now env x) (\<lambda>t _ t'. t' = t)"
  by (cases x) (auto simp: or_now_def intro: sat_weaken [OF sat_ret] sat_now)

lemmas sat_rules = sat_abind sat_ret sat_throw sat_panic sat_lift sat_assert sat_sql sat_exec sat_query sat_now sat_new_guid sat_or_now

section \<open>The parts of the operations\<close>

lemma find_in_set: "find P xs = Some x \<Longrightarrow> x \<in> set xs \<and> P x"
  by (auto simp: find_Some_iff)

lemma sat_get_raw_bookmark:
  "sat (get_raw_bookmark env g) (\<lambda>t x t'. t' = t \<and> (\<forall>b. x = Some b \<longrightarrow>
     (\<exists>r. find (\<lambda>r. bm_guid r = g) (moz_bookmarks t) = Some r \<and> raw_bookmark_from_row env t r = Ok b)))"
proof -
  have "sat (case row of None \<Rightarrow> ret None | Some r \<Rightarrow> abind (lift r) (\<lambda>b. ret (Some b)))
      (\<lambda>t x t'. t' = t \<and> (\<forall>b. x = Some b \<longrightarrow> row = Some (Ok b)))" for row
    by (cases row) (auto intro!: sat_weaken [OF sat_ret] sat_weaken [OF sat_abind [OF sat_lift sat_ret]])
  then show ?thesis
    unfolding get_raw_bookmark_def by (rule sat_weaken [OF sat_abind [OF sat_query]]) auto
qed

lemma sat_fetch_page_info:
  "sat (fetch_page_info env url) (\<lambda>t x t'. t' = t \<and>
     (case x of None \<Rightarrow> url \<notin> set (map pl_url (moz_places t))
      | Some i \<Rightarrow> \<exists>r \<in> set (moz_places t). pl_url r = url \<and> page_info_from_row env r = Ok (fp_page i)))"
proof -
  have "sat (case row of None \<Rightarrow> ret None | Some (r, v) \<Rightarrow>
         abind (lift (page_info_from_row env r)) (\<lambda>page. ret (Some \<lparr>fp_page = page, fp_last_visit_id = map_option v_id v\<rparr>)))
      (\<lambda>t x t'. t' = t \<and> (case x of None \<Rightarrow> row = None | Some i \<Rightarrow> \<exists>r v. row = Some (r, v) \<and> page_info_from_row env r = Ok (fp_page i)))" for row
    by (cases row) (auto intro!: sat_weaken [OF sat_ret] sat_weaken [OF sat_abind [OF sat_lift sat_ret]])
  then show ?thesis
    unfolding fetch_page_info_def
    by (rule sat_weaken [OF sat_abind [OF sat_query]])
      (auto simp: find_None_iff split: option.splits dest!: find_in_set)
qed

lemma page_info_row_id: "page_info_from_row env r = Ok p \<Longrightarrow> pi_row_id p = pl_id r"
  by (auto simp: page_info_from_row_def obind_Ok_iff)

text \<open>Adding a page leaves the others alone; its row is the last.\<close>

lemma insert_place_Ok:
  assumes "insert_place guid url t = Ok t'"
  shows "\<exists>p. t' = t\<lparr>moz_places := moz_places t @ [p], moz_places_tombstones := removeAll guid (moz_places_tombstones t)\<rparr> \<and>
    pl_url p = url \<and> pl_guid p = guid \<and> pl_foreign_count p = 0 \<and> pl_id p \<notin> set (map pl_id (moz_places t)) \<and>
    guid \<notin> set (map pl_guid (moz_places t))"
  using assms next_rowid_fresh [of "map pl_id (moz_places t)"] by (auto simp: insert_place_def split: if_splits)

definition page_added :: "PlacesTables \<Rightarrow> PlacesTables \<Rightarrow> bool" where
  "page_added t t' \<longleftrightarrow> (\<exists>guid p. t' = t\<lparr>moz_places := moz_places t @ [p], moz_places_tombstones := removeAll guid (moz_places_tombstones t)\<rparr> \<and>
     pl_guid p = guid \<and> pl_foreign_count p = 0 \<and> pl_id p \<notin> set (map pl_id (moz_places t)) \<and> guid \<notin> set (map pl_guid (moz_places t)))"

lemma sat_page_row_id:
  "sat (page_row_id env url) (\<lambda>t i t'. (t' = t \<or> page_added t t') \<and> (\<exists>p \<in> set (moz_places t'). pl_id p = i \<and> pl_url p = url))"
proof -
  let ?R = "\<lambda>t i t'. (t' = t \<or> page_added t t') \<and> (\<exists>p \<in> set (moz_places t'). pl_id p = i \<and> pl_url p = url)"
  have new: "sat (abind (new_page_info env url None) (\<lambda>p. ret (pi_row_id p))) ?R"
  proof -
    have st: "sat (abind get_st (\<lambda>(_, c). ret (h (cn_tables c)))) (\<lambda>t x t'. t' = t \<and> x = h t)" for h :: "PlacesTables \<Rightarrow> PageInfo"
      by (simp add: sat_def ret_def)
    show ?thesis unfolding new_page_info_def option.case
      by (rule sat_weaken [OF sat_abind [OF sat_abind [OF sat_new_guid sat_if [OF sat_throw sat_abind [OF sat_exec st]]] sat_ret]])
        (auto simp: page_added_def split: if_splits dest!: insert_place_Ok)
  qed
  have "sat (case info of Some i \<Rightarrow> ret (pi_row_id (fp_page i)) | None \<Rightarrow> abind (new_page_info env url None) (\<lambda>p. ret (pi_row_id p)))
      (\<lambda>t i t'. (\<exists>f. info = Some f \<and> i = pi_row_id (fp_page f) \<and> t' = t) \<or> ?R t i t')" for info
    by (cases info) (auto intro: sat_weaken [OF sat_ret] sat_weaken [OF new])
  then show ?thesis unfolding page_row_id_def
    by (rule sat_weaken [OF sat_abind [OF sat_fetch_page_info]]) (auto dest!: page_info_row_id, blast)
qed

lemma raw_bookmark_Ok:
  assumes "raw_bookmark_from_row env t r = Ok b"
  shows "rb_row_id b = bm_id r" "rb_place_id b = bm_fk r" "rb_parent_id b = bm_parent r" "rb_guid b = bm_guid r"
    "int (rb_position b) = bm_position r" "rb_title b = nullif_empty (bm_title r)"
    "rb_child_count b = length (child_rows (moz_bookmarks t) (bm_id r))"
    "rb_bookmark_type b = from_u8_with_valid_url (bm_type r) (bm_fk r \<noteq> None)"
    "rb_parent_guid b = map_option bm_guid (bookmark_with_id t (bm_parent r))"
  using assms
  by (auto simp: raw_bookmark_from_row_def obind_Ok_iff get_u32_def child_rows_def Let_def split: if_splits)

definition clip :: "BookmarkPosition \<Rightarrow> nat \<Rightarrow> nat" where
  "clip pos n = (case pos of Specific k \<Rightarrow> min k n | Append \<Rightarrow> n)"

definition make_room :: "BookmarkPosition \<Rightarrow> RowId \<Rightarrow> nat \<Rightarrow> PlacesTables \<Rightarrow> PlacesTables" where
  "make_room pos p n t = (case pos of Specific k \<Rightarrow> shift_from p (min k n) 1 t | Append \<Rightarrow> t)"

lemma sat_resolve_pos_for_insert:
  "sat (resolve_pos_for_insert env pos parent) (\<lambda>t k t'. k = clip pos (rb_child_count parent) \<and>
     t' = make_room pos (rb_row_id parent) (rb_child_count parent) t)"
  by (cases pos) (auto simp: resolve_pos_for_insert_def clip_def make_room_def Let_def
      intro!: sat_weaken [OF sat_ret] sat_weaken [OF sat_abind [OF sat_exec sat_ret]])

lemma sat_update_pos_for_deletion:
  "sat (update_pos_for_deletion env pos parent) (\<lambda>t _ t'. t' = shift_from parent pos (- 1) t)"
  unfolding update_pos_for_deletion_def by (rule sat_weaken [OF sat_exec]) simp

text \<open>The row of a new item, but for its id.\<close>

definition is_new_row :: "InsertableItem \<Rightarrow> RowId \<Rightarrow> nat \<Rightarrow> PlacesTables \<Rightarrow> BookmarkRow \<Rightarrow> bool" where
  "is_new_row bm p k t r \<longleftrightarrow>
     bm_type r = bookmark_type_u8 (insertable_type bm) \<and> bm_parent r = Some p \<and> bm_position r = int k \<and>
     bm_title r = maybe_truncate_title (insertable_title bm) \<and> bm_syncStatus r = places_status_u8 New \<and> bm_syncChangeCounter r = 1 \<and>
     (case in_guid (insertable_common bm) of None \<Rightarrow> True | Some g \<Rightarrow> bm_guid r = g) \<and>
     (case bm of InsertBookmark b \<Rightarrow> \<exists>q \<in> set (moz_places t). bm_fk r = Some (pl_id q) \<and> pl_url q = inb_url b | _ \<Rightarrow> bm_fk r = None)"

definition insert_effect :: "InsertableItem \<Rightarrow> PlacesTables \<Rightarrow> string \<Rightarrow> PlacesTables \<Rightarrow> bool" where
  "insert_effect bm t guid t' \<longleftrightarrow>
     (let parent_guid = in_parent_guid (insertable_common bm); pos = in_position (insertable_common bm) in
      parent_guid \<noteq> root_as_str Root \<and>
      (\<exists>parent t2 t3 new. find (\<lambda>r. bm_guid r = parent_guid) (moz_bookmarks t) = Some parent \<and>
        from_u8_with_valid_url (bm_type parent) (bm_fk parent \<noteq> None) = Folder \<and>
        (let n = length (child_rows (moz_bookmarks t) (bm_id parent)); t1 = make_room pos (bm_id parent) n t in
         (t2 = t1 \<or> page_added t1 t2) \<and> is_new_row bm (bm_id parent) (clip pos n) t2 new) \<and> bm_guid new = guid \<and>
        insert_bookmark_row new t2 = Ok t3 \<and> t' = bump_counter (bm_id parent) t3))"

lemma sat_insert_bookmark_in_tx: "sat (insert_bookmark_in_tx env bm) (insert_effect bm)"
proof -
  let ?c = "insertable_common bm"
  have page: "sat (case bm of InsertBookmark b \<Rightarrow> abind (page_row_id env (inb_url b)) (\<lambda>i. ret (Some i)) | _ \<Rightarrow> ret None)
      (\<lambda>t fk t'. (t' = t \<or> page_added t t') \<and>
        (case bm of InsertBookmark b \<Rightarrow> \<exists>q \<in> set (moz_places t'). fk = Some (pl_id q) \<and> pl_url q = inb_url b | _ \<Rightarrow> fk = None))"
    by (cases bm) (auto intro!: sat_weaken [OF sat_ret] sat_weaken [OF sat_abind [OF sat_page_row_id sat_ret]])
  have guid: "sat (case in_guid ?c of Some g \<Rightarrow> ret g | None \<Rightarrow> new_guid env)
      (\<lambda>t g t'. t' = t \<and> (case in_guid ?c of None \<Rightarrow> True | Some h \<Rightarrow> g = h))"
    by (cases "in_guid ?c") (auto intro: sat_weaken [OF sat_ret] sat_weaken [OF sat_new_guid])
  show ?thesis unfolding insert_bookmark_in_tx_def Let_def
    apply (rule sat_weaken)
     apply (rule sat_if [OF sat_throw] sat_abind [OF sat_get_raw_bookmark] sat_abind [OF sat_lift]
        sat_abind [OF sat_resolve_pos_for_insert] sat_abind [OF page] sat_abind [OF guid] sat_abind [OF sat_or_now]
        sat_abind [OF sat_exec] sat_ret)+
    apply (clarsimp split: if_splits)
    apply (frule raw_bookmark_Ok(1), frule raw_bookmark_Ok(7), frule raw_bookmark_Ok(8))
    apply (simp add: insert_effect_def Let_def)
    apply (rule exI, rule conjI, assumption, rule exI, rule exI, rule conjI [rotated], rule conjI [rotated], rule conjI,
        assumption, rule refl)
     apply (simp_all add: is_new_row_def split: option.splits InsertableItem.splits)
    done
qed

definition delete_effect :: "string \<Rightarrow> PlacesTables \<Rightarrow> bool \<Rightarrow> PlacesTables \<Rightarrow> bool" where
  "delete_effect guid t done_it t' \<longleftrightarrow>
     well_known guid = None \<and>
     (if done_it
      then (\<exists>r p k time. find (\<lambda>r. bm_guid r = guid) (moz_bookmarks t) = Some r \<and> bm_parent r = Some p \<and>
              bm_position r = int k \<and> delete_bookmark_row time (bm_id r) (shift_from p k (- 1) t) = Ok t')
      else t' = t)"

lemma sat_delete_bookmark_in_tx: "sat (delete_bookmark_in_tx env guid) (delete_effect guid)"
proof (cases "well_known guid")
  case None
  have found: "sat (case found of None \<Rightarrow> ret False
     | Some record \<Rightarrow>
         abind (lift (ok_or (CorruptionError (NonRootWithoutParent guid)) (rb_parent_id record))) (\<lambda>parent_id.
         abind (update_pos_for_deletion env (rb_position record) parent_id) (\<lambda>_.
         abind (now env) (\<lambda>date_removed.
         abind (exec env (delete_bookmark_row date_removed (rb_row_id record))) (\<lambda>_.
         abind (delete_pending_temp_tables env) (\<lambda>_. ret True))))))
     (\<lambda>t done_it t'. if done_it then \<exists>b p time. found = Some b \<and> rb_parent_id b = Some p \<and>
         delete_bookmark_row time (rb_row_id b) (shift_from p (rb_position b) (- 1) t) = Ok t' else t' = t)" for found
    by (cases found) (auto simp: delete_pending_temp_tables_def intro!: sat_weaken [OF sat_ret]
        sat_weaken [OF sat_abind [OF sat_lift sat_abind [OF sat_update_pos_for_deletion sat_abind [OF sat_now
          sat_abind [OF sat_exec sat_abind [OF sat_sql sat_ret]]]]]])
  show ?thesis unfolding delete_bookmark_in_tx_def None option.case
  proof (rule sat_weaken [OF sat_abind [OF sat_get_raw_bookmark found]], elim exE conjE)
    fix t done_it t' a t1
    assume "t1 = t" "\<forall>b. a = Some b \<longrightarrow> (\<exists>r. find (\<lambda>r. bm_guid r = guid) (moz_bookmarks t) = Some r \<and> raw_bookmark_from_row env t r = Ok b)"
      "if done_it then \<exists>b p time. a = Some b \<and> rb_parent_id b = Some p \<and>
         delete_bookmark_row time (rb_row_id b) (shift_from p (rb_position b) (- 1) t1) = Ok t' else t' = t1"
    then show "delete_effect guid t done_it t'"
      unfolding delete_effect_def using None by (cases done_it) (simp_all, metis raw_bookmark_Ok(1,3,5))
  qed
next
  case (Some r)
  then show ?thesis by (simp add: delete_bookmark_in_tx_def sat_weaken [OF sat_throw])
qed

section \<open>Updates\<close>

definition satm :: "('w, 'a) maybe_op \<Rightarrow> (PlacesTables \<Rightarrow> 'a \<Rightarrow> PlacesTables \<Rightarrow> bool) \<Rightarrow> bool" where
  "satm m R \<longleftrightarrow> (\<forall>w c r w' c'. m (w, c) = Some (r, (w', c')) \<longrightarrow>
     cn_saved c' = cn_saved c \<and> (\<forall>a. r = Ok a \<longrightarrow> R (cn_tables c) a (cn_tables c')))"

lemma satm_runs: "sat m R \<Longrightarrow> satm (runs m) R"
  by (auto simp: sat_def satm_def runs_def)

lemma satm_weaken: "satm m R \<Longrightarrow> (\<And>t a t'. R t a t' \<Longrightarrow> Q t a t') \<Longrightarrow> satm m Q"
  unfolding satm_def by blast

lemma satm_mbind:
  assumes "satm m R" "\<And>a. satm (f a) (Q a)"
  shows "satm (mbind m f) (\<lambda>t b t''. \<exists>a t'. R t a t' \<and> Q a t' b t'')"
  unfolding satm_def
proof (intro allI impI, goal_cases)
  case (1 w c r w' c')
  obtain r1 w1 c1 where m: "m (w, c) = Some (r1, (w1, c1))" using 1 by (auto simp: mbind_def split: option.splits)
  have s: "cn_saved c1 = cn_saved c" "\<And>a. r1 = Ok a \<Longrightarrow> R (cn_tables c) a (cn_tables c1)"
    using assms(1) m by (auto simp: satm_def)
  show ?case
  proof (cases r1)
    case (Ok a)
    then have "f a (w1, c1) = Some (r, (w', c'))" using 1 m by (simp add: mbind_def)
    then have "cn_saved c' = cn_saved c1" "\<And>b. r = Ok b \<Longrightarrow> Q a (cn_tables c1) b (cn_tables c')"
      using assms(2) [of a] unfolding satm_def by blast+
    then show ?thesis using s Ok by auto
  qed (use 1 m s in \<open>auto simp: mbind_def\<close>)
qed

lemma satm_if:
  "(b \<Longrightarrow> satm m R) \<Longrightarrow> (\<not> b \<Longrightarrow> satm m' Q) \<Longrightarrow> satm (if b then m else m') (\<lambda>t a t'. if b then R t a t' else Q t a t')"
  by simp

lemma satm_set_ancestors:
  "satm (set_ancestors_last_modified env a time) (\<lambda>t _ t'. \<exists>ids. ancestors (moz_bookmarks t) a = Some ids \<and>
     t' = update_bookmarks (\<lambda>r. bm_id r \<in> set ids) (\<lambda>r. r\<lparr>bm_lastModified := time\<rparr>) t)"
proof -
  have "satm (case as of None \<Rightarrow> (\<lambda>_. None) | Some ids \<Rightarrow>
         runs (\<lambda>(w, c). (Ok (), (w, c\<lparr>cn_tables :=
           update_bookmarks (\<lambda>r. bm_id r \<in> set ids) (\<lambda>r. r\<lparr>bm_lastModified := time\<rparr>) (cn_tables c)\<rparr>))))
      (\<lambda>t _ t'. \<exists>ids. as = Some ids \<and> t' = update_bookmarks (\<lambda>r. bm_id r \<in> set ids) (\<lambda>r. r\<lparr>bm_lastModified := time\<rparr>) t)" for as
    by (cases as) (auto simp: satm_def runs_def)
  then show ?thesis unfolding set_ancestors_last_modified_def
    by (rule satm_weaken [OF satm_mbind [OF satm_runs [OF sat_query]]]) auto
qed

text \<open>Where an item goes.\<close>

fun moved_to :: "UpdateTreeLocation \<Rightarrow> BookmarkRow \<Rightarrow> RowId \<Rightarrow> PlacesTables \<Rightarrow> RowId \<Rightarrow> nat \<Rightarrow> PlacesTables \<Rightarrow> bool" where
  "moved_to NoChange r p t p' k t' \<longleftrightarrow> p' = p \<and> int k = bm_position r \<and> t' = t"
| "moved_to (Position pos) r p t p' k t' \<longleftrightarrow>
     p' = p \<and> k = clip pos (length (child_rows (moz_bookmarks t) p) - 1) \<and>
     (\<exists>i. int i = bm_position r \<and> t' = move_between p k i t)"
| "moved_to (Parent g pos) r p t p' k t' \<longleftrightarrow> g \<noteq> root_as_str Root \<and>
     (\<exists>q i. find (\<lambda>r. bm_guid r = g) (moz_bookmarks t) = Some q \<and>
        from_u8_with_valid_url (bm_type q) (bm_fk q \<noteq> None) = Folder \<and> p' = bm_id q \<and> int i = bm_position r \<and>
        (let n = length (child_rows (moz_bookmarks t) (bm_id q)) in
         k = clip pos n \<and> t' = make_room pos (bm_id q) n (shift_from p i (- 1) t)))"

definition keyed :: "PlacesTables \<Rightarrow> bool" where
  "keyed t \<longleftrightarrow> distinct (map bm_id (moz_bookmarks t)) \<and> distinct (map bm_guid (moz_bookmarks t))"

lemma find_unique:
  assumes "distinct (map f xs)" "x \<in> set xs" shows "find (\<lambda>y. f y = f x) xs = Some x"
  using assms by (induction xs) auto

lemma parent_by_guid:
  assumes "keyed t" "bookmark_with_id t (Some p) = Some q" "find (\<lambda>r. bm_guid r = bm_guid q) (moz_bookmarks t) = Some q'"
  shows "bm_id q' = p"
proof -
  have q: "q \<in> set (moz_bookmarks t)" "bm_id q = p" using assms(2) by (auto simp: bookmark_with_id_def dest: find_in_set)
  then have "find (\<lambda>r. bm_guid r = bm_guid q) (moz_bookmarks t) = Some q"
    using assms(1) by (intro find_unique) (simp_all add: keyed_def)
  then show ?thesis using assms(3) q by simp
qed

lemma sat_update_pos_for_move:
  "sat (update_pos_for_move env dbg pos bm parent) (\<lambda>t k t'. rb_parent_id bm = Some (rb_row_id parent) \<and>
     (1 \<le> rb_child_count parent \<longrightarrow> k = clip pos (rb_child_count parent - 1) \<and> t' = move_between (rb_row_id parent) k (rb_position bm) t))"
proof (cases "rb_parent_id bm")
  case None
  then show ?thesis by (simp add: update_pos_for_move_def sat_weaken [OF sat_panic])
next
  case (Some p)
  show ?thesis unfolding update_pos_for_move_def Some option.case Let_def
    by (rule sat_weaken [OF sat_abind [OF sat_assert sat_abind [OF sat_lift sat_abind [OF sat_exec sat_ret]]]])
      (auto simp: clip_def sub_u32_def split: BookmarkPosition.splits if_splits)
qed

lemma sat_relocate:
  assumes "raw_bookmark_from_row env t0 r = Ok b" "r \<in> set (moz_bookmarks t0)" "bm_parent r = Some p"
    "bookmark_with_id t0 (Some p) = Some q"
  shows "sat (relocate env dbg guid b (bm_guid q) p loc) (\<lambda>t (p', k, o', n') t'. t = t0 \<longrightarrow> keyed t0 \<longrightarrow>
    moved_to loc r p t p' k t' \<and> o' = (loc \<noteq> NoChange) \<and> n' = (\<exists>g pos. loc = Parent g pos))"
proof -
  note b = raw_bookmark_Ok [OF assms(1)]
  have n: "1 \<le> length (child_rows (moz_bookmarks t0) p)"
    using assms(2,3) by (auto simp: child_rows_def Suc_le_eq length_greater_0_conv filter_empty_conv)
  show ?thesis
  proof (cases loc)
    case NoChange
    then show ?thesis using b by (auto simp: relocate_def intro!: sat_weaken [OF sat_ret])
  next
    case (Position pos)
    show ?thesis unfolding relocate_def Position UpdateTreeLocation.case
      apply (rule sat_weaken [OF sat_abind [OF sat_get_raw_bookmark sat_abind [OF sat_lift
            sat_abind [OF sat_update_pos_for_move sat_ret]]]])
      using n b(3,5) assms(3) parent_by_guid [OF _ assms(4)]
      apply (auto dest!: raw_bookmark_Ok(7))
      done
  next
    case (Parent g pos)
    show ?thesis unfolding relocate_def Parent UpdateTreeLocation.case
      apply (rule sat_weaken)
      apply (rule sat_if [OF sat_throw] sat_abind [OF sat_get_raw_bookmark] sat_abind [OF sat_lift]
        sat_abind [OF sat_update_pos_for_deletion] sat_abind [OF sat_resolve_pos_for_insert] sat_ret)+
      using b(5) parent_by_guid [OF _ assms(4)]
      apply (auto simp: raw_bookmark_Ok(1,7,8) split: if_splits)
      apply (rule exI [of _ "rb_position b"], simp)
      done
  qed
qed

definition new_fk :: "UpdatableItem \<Rightarrow> RowId option \<Rightarrow> PlacesTables \<Rightarrow> RowId option \<Rightarrow> bool" where
  "new_fk item old t fk \<longleftrightarrow>
     (case item of
        UpdatableBookmark _ (Some url) _ \<Rightarrow> \<exists>q \<in> set (moz_places t). fk = Some (pl_id q) \<and> pl_url q = url
      | UpdatableBookmark _ None _ \<Rightarrow> fk = old
      | _ \<Rightarrow> old = None \<and> fk = None)"

lemma sat_new_place_id:
  "sat (new_place_id env b item) (\<lambda>t fk t'. (t' = t \<or> page_added t t') \<and> new_fk item (rb_place_id b) t' fk)"
  by (cases item) (auto simp: new_place_id_def new_fk_def split: option.splits
      intro!: sat_weaken [OF sat_ret] sat_weaken [OF sat_abind [OF sat_page_row_id sat_ret]]
        sat_weaken [OF sat_abind [OF sat_assert sat_ret]])

definition touched :: "RowId set \<Rightarrow> Timestamp \<Rightarrow> (RowId \<Rightarrow> int) \<Rightarrow> BookmarkRow \<Rightarrow> BookmarkRow" where
  "touched A time bump r = r\<lparr>bm_lastModified := (if bm_id r \<in> A then time else bm_lastModified r),
     bm_syncChangeCounter := bm_syncChangeCounter r + bump (bm_id r)\<rparr>"

lemma touched_none: "map (touched {} time (\<lambda>_. 0)) rows = rows"
  by (rule map_idI) (simp add: touched_def)

lemma bump_counter_touched: "bump_counter i t = t\<lparr>moz_bookmarks := map (touched {} 0 (\<lambda>j. if j = i then 1 else 0)) (moz_bookmarks t)\<rparr>"
  unfolding bump_counter_def update_bookmarks_def
  by (rule arg_cong [where f = "\<lambda>rows. t\<lparr>moz_bookmarks := rows\<rparr>"]) (simp add: touched_def)

lemma set_modified_touched:
  "update_bookmarks (\<lambda>r. bm_id r \<in> A) (\<lambda>r. r\<lparr>bm_lastModified := time\<rparr>) t =
     t\<lparr>moz_bookmarks := map (touched A time (\<lambda>_. 0)) (moz_bookmarks t)\<rparr>"
  unfolding update_bookmarks_def
  by (rule arg_cong [where f = "\<lambda>rows. t\<lparr>moz_bookmarks := rows\<rparr>"]) (simp add: touched_def)

lemma touched_simps [simp]:
  "bm_id (touched A time f r) = bm_id r" "bm_parent (touched A time f r) = bm_parent r" "bm_guid (touched A time f r) = bm_guid r"
  "bm_type (touched A time f r) = bm_type r" "bm_fk (touched A time f r) = bm_fk r" "bm_title (touched A time f r) = bm_title r"
  "bm_syncStatus (touched A time f r) = bm_syncStatus r" "bm_position (touched A time f r) = bm_position r"
  by (simp_all add: touched_def)

lemma find_map: "find P (map f xs) = map_option f (find (\<lambda>x. P (f x)) xs)"
  by (induction xs) auto

lemma folder_parent_map:
  assumes "\<And>r. bm_id (f r) = bm_id r" "\<And>r. bm_type (f r) = bm_type r" "\<And>r. bm_parent (f r) = bm_parent r"
  shows "folder_parent (map f rows) = folder_parent rows"
  by (rule ext) (simp add: folder_parent_def find_map assms comp_def split: option.splits)

lemma ancestors_cong_Some:
  assumes "folder_parent rows = folder_parent rows'" "ancestors rows a = Some as" shows "ancestors rows' a = Some as"
proof -
  have "folder_parent rows = folder_parent rows' \<longrightarrow> ancestors rows' a = Some as"
  proof (rule ancestors.raw_induct [OF _ assms(2)])
    fix anc rows a as
    assume IH: "\<And>rows a as. anc rows a = Some as \<Longrightarrow> folder_parent rows = folder_parent rows' \<longrightarrow> ancestors rows' a = Some as"
      and b: "(case folder_parent rows a of None \<Rightarrow> Some [a] | Some p \<Rightarrow> Option.bind (anc rows p) (\<lambda>as. Some (a # as))) = Some as"
    show "folder_parent rows = folder_parent rows' \<longrightarrow> ancestors rows' a = Some as"
    proof
      assume e: "folder_parent rows = folder_parent rows'"
      show "ancestors rows' a = Some as"
        using b IH e by (subst ancestors.simps) (auto split: option.splits simp: bind_eq_Some_conv)
    qed
  qed
  then show ?thesis using assms(1) by blast
qed

lemma ancestors_cong: "folder_parent rows = folder_parent rows' \<Longrightarrow> ancestors rows = ancestors rows'"
  by (rule ext) (metis ancestors_cong_Some not_Some_eq)

lemma touched_touched:
  "touched A time f (touched {} time' g r) = touched A time (\<lambda>i. f i + g i) r"
  "touched A time f (touched B time g r) = touched (A \<union> B) time (\<lambda>i. f i + g i) r"
  "touched {} time' f (touched A time g r) = touched A time (\<lambda>i. f i + g i) r"
  by (simp_all add: touched_def)

definition update_effect :: "string \<Rightarrow> UpdatableItem \<Rightarrow> PlacesTables \<Rightarrow> PlacesTables \<Rightarrow> bool" where
  "update_effect guid item t t' \<longleftrightarrow> \<not> is_root guid \<and>
     (\<exists>r p p' k t1 t2 t3 fk time A.
        find (\<lambda>r. bm_guid r = guid) (moz_bookmarks t) = Some r \<and> bm_parent r = Some p \<and>
        from_u8_with_valid_url (bm_type r) (bm_fk r \<noteq> None) = updatable_type item \<and>
        moved_to (updatable_location item) r p t p' k t1 \<and> (t2 = t1 \<or> page_added t1 t2) \<and> new_fk item (bm_fk r) t2 fk \<and>
        (let title = new_title (updatable_title item) (nullif_empty (bm_title r));
             incr = (title \<noteq> nullif_empty (bm_title r) \<or> fk \<noteq> bm_fk r);
             moved = updatable_location item \<noteq> NoChange; to_parent = (\<exists>g pos. updatable_location item = Parent g pos)
         in update_bookmark_row fk p' k (maybe_truncate_title title) time incr (bm_id r) t2 = Ok t3 \<and>
            ancestors (moz_bookmarks t3) p \<noteq> None \<and> (to_parent \<longrightarrow> (\<exists>ids. ancestors (moz_bookmarks t3) p' = Some ids)) \<and>
            t' = t3\<lparr>moz_bookmarks := map (touched A time
               (\<lambda>i. (if moved \<and> i = p then 1 else 0) + (if to_parent \<and> i = p' then 1 else 0))) (moz_bookmarks t3)\<rparr>))"

lemma mbind_Ok:
  "mbind m f s = Some (Ok b, s'') \<longleftrightarrow> (\<exists>a s'. m s = Some (Ok a, s') \<and> f a s' = Some (Ok b, s''))"
  by (auto simp: mbind_def split: option.splits outcome.splits)

lemma satmD: "satm m R \<Longrightarrow> m (w, c) = Some (Ok a, (w', c')) \<Longrightarrow> R (cn_tables c) a (cn_tables c')"
  by (auto simp: satm_def)

text \<open>The part of an update after the new place of the item is known.\<close>

lemma satm_write_update:
  "satm (write_update env f p p' old new time)
   (\<lambda>t _ t'. \<exists>t3 A. f t = Ok t3 \<and> ancestors (moz_bookmarks t3) p \<noteq> None \<and> (new \<longrightarrow> (\<exists>ids. ancestors (moz_bookmarks t3) p' = Some ids)) \<and>
      t' = t3\<lparr>moz_bookmarks := map (touched A time (\<lambda>i. (if old \<and> i = p then 1 else 0) + (if new \<and> i = p' then 1 else 0)))
        (moz_bookmarks t3)\<rparr>)"
proof -
  let ?R = "\<lambda>b q. \<lambda>t _ t'. t' = (if b then bump_counter q t else t)"
  have old: "sat (if old then exec env (\<lambda>t. Ok (bump_counter p t)) else ret ()) (?R old p)"
    by (cases old) (auto intro: sat_weaken [OF sat_exec] sat_weaken [OF sat_ret])
  have new: "satm (if new then mbind (set_ancestors_last_modified env p' time) (\<lambda>_. runs (exec env (\<lambda>t. Ok (bump_counter p' t))))
     else runs (ret ())) (\<lambda>t _ t'. if new then \<exists>ids. ancestors (moz_bookmarks t) p' = Some ids \<and>
        t' = bump_counter p' (update_bookmarks (\<lambda>r. bm_id r \<in> set ids) (\<lambda>r. r\<lparr>bm_lastModified := time\<rparr>) t) else t' = t)"
    by (cases new) (auto intro: satm_runs [OF sat_weaken [OF sat_ret]]
        intro!: satm_weaken [OF satm_mbind [OF satm_set_ancestors satm_runs [OF sat_exec]]])
  have anc: "ancestors (moz_bookmarks (t\<lparr>moz_bookmarks := map (touched A x g) rows\<rparr>)) = ancestors rows" for t :: PlacesTables and A x g rows
    by (rule ancestors_cong) (simp add: folder_parent_map)
  show ?thesis unfolding write_update_def
  proof (rule satm_weaken [OF satm_mbind [OF satm_runs [OF sat_exec] satm_mbind [OF satm_set_ancestors
        satm_mbind [OF satm_runs [OF old] new]]]], elim exE conjE, goal_cases)
    case (1 t u t' a t3 aa t4 ids ab t5)
    show ?case
    proof (cases new)
      case True
      then obtain ids' where ids': "ancestors (moz_bookmarks t5) p' = Some ids'"
          "t' = bump_counter p' (update_bookmarks (\<lambda>r. bm_id r \<in> set ids') (\<lambda>r. r\<lparr>bm_lastModified := time\<rparr>) t5)"
        using 1 by auto
      have t5: "t5 = t3\<lparr>moz_bookmarks := map (touched (set ids) time (\<lambda>i. if old \<and> i = p then 1 else 0)) (moz_bookmarks t3)\<rparr>"
        using 1 by (cases old) (simp_all add: bump_counter_touched set_modified_touched touched_touched comp_def)
      show ?thesis
        using 1 ids' True anc unfolding t5 
        by (intro exI [of _ t3] exI [of _ "set ids' \<union> set ids"])
          (auto simp: bump_counter_touched set_modified_touched touched_touched comp_def add.commute)
    next
      case False
      then show ?thesis
        using 1 by (intro exI [of _ t3] exI [of _ "set ids"])
          (auto simp: bump_counter_touched set_modified_touched touched_touched comp_def)
    qed
  qed
qed

lemma sat_any: "sat m R \<Longrightarrow> sat m (\<lambda>_ _ _. True)"
  by (erule sat_weaken) simp

lemma satm_any: "satm m R \<Longrightarrow> satm m (\<lambda>_ _ _. True)"
  by (erule satm_weaken) simp

lemma sat_any_abind: "sat m (\<lambda>_ _ _. True) \<Longrightarrow> (\<And>a. sat (f a) (\<lambda>_ _ _. True)) \<Longrightarrow> sat (abind m f) (\<lambda>_ _ _. True)"
  by (rule sat_any [OF sat_abind])

lemma satm_any_mbind: "satm m (\<lambda>_ _ _. True) \<Longrightarrow> (\<And>a. satm (f a) (\<lambda>_ _ _. True)) \<Longrightarrow> satm (mbind m f) (\<lambda>_ _ _. True)"
  by (rule satm_any [OF satm_mbind])

lemma sat_any_relocate: "sat (relocate env dbg guid b pg p loc) (\<lambda>_ _ _. True)"
  unfolding relocate_def
  by (cases loc) (auto intro!: sat_any_abind sat_any [OF sat_ret] sat_any [OF sat_get_raw_bookmark] sat_any [OF sat_lift]
      sat_any [OF sat_update_pos_for_move] sat_any [OF sat_throw] sat_any [OF sat_update_pos_for_deletion]
      sat_any [OF sat_resolve_pos_for_insert])

lemma satm_any_update: "satm (update_bookmark_in_tx env dbg guid item) (\<lambda>_ _ _. True)"
  unfolding update_bookmark_in_tx_def update_existing_def Let_def
  by (auto intro!: satm_any_mbind satm_any [OF satm_runs [OF sat_throw]] satm_any [OF satm_runs [OF sat_get_raw_bookmark]]
      satm_any [OF satm_runs [OF sat_lift]] satm_runs [OF sat_any_relocate] satm_any [OF satm_runs [OF sat_new_place_id]]
      satm_any [OF satm_runs [OF sat_now]] satm_any [OF satm_write_update] split: prod.splits)

lemma mbind_runsE:
  assumes "mbind (runs m) f (w, c) = Some (Ok b, s'')"
  obtains a w' c' where "m (w, c) = (Ok a, (w', c'))" "f a (w', c') = Some (Ok b, s'')"
  using assms by (auto simp: mbind_Ok runs_def)

lemma lift_OkD: "lift r s = (Ok a, s') \<Longrightarrow> r = Ok a \<and> s' = s"
  by (simp add: lift_def)

lemma update_existing_Ok:
  assumes run: "update_existing env dbg guid item b (bm_guid q) p (w, c) = Some (Ok u, (w', c'))"
    and r: "raw_bookmark_from_row env (cn_tables c) r = Ok b" "find (\<lambda>r. bm_guid r = guid) (moz_bookmarks (cn_tables c)) = Some r"
      "bm_parent r = Some p" "bookmark_with_id (cn_tables c) (Some p) = Some q"
    and keyed: "keyed (cn_tables c)" and nr: "\<not> is_root guid"
  shows "update_effect guid item (cn_tables c) (cn_tables c')"
proof -
  let ?t = "cn_tables c" and ?loc = "updatable_location item"
  note b = raw_bookmark_Ok [OF r(1)]
  have rin: "r \<in> set (moz_bookmarks ?t)" using find_in_set [OF r(2)] by simp
  have ty: "rb_bookmark_type b = updatable_type item"
    using run by (auto simp: update_existing_def runs_def throw_def split: if_splits)
  then obtain x w1 c1 where rel: "relocate env dbg guid b (bm_guid q) p ?loc (w, c) = (Ok x, (w1, c1))"
      and rest: "(case x of (p', k, old, new) \<Rightarrow> mbind (runs (new_place_id env b item)) (\<lambda>place_id.
        let title = new_title (updatable_title item) (rb_title b); change_incr = (title \<noteq> rb_title b \<or> place_id \<noteq> rb_place_id b)
        in mbind (runs (now env)) (\<lambda>time.
           write_update env (update_bookmark_row place_id p' k (maybe_truncate_title title) time change_incr (rb_row_id b))
             p p' old new time))) (w1, c1) = Some (Ok u, (w', c'))"
    using run unfolding update_existing_def by (auto elim: mbind_runsE)
  obtain p' k old new where x: "x = (p', k, old, new)" by (cases x)
  have mv: "moved_to ?loc r p ?t p' k (cn_tables c1)" "old = (?loc \<noteq> NoChange)" "new = (\<exists>g pos. ?loc = Parent g pos)"
    using satD(1) [OF sat_relocate [OF r(1) rin r(3,4)] rel] keyed x by auto
  obtain fk w2 c2 where fk: "new_place_id env b item (w1, c1) = (Ok fk, (w2, c2))"
      and rest2: "(let title = new_title (updatable_title item) (rb_title b); change_incr = (title \<noteq> rb_title b \<or> fk \<noteq> rb_place_id b)
        in mbind (runs (now env)) (\<lambda>time.
           write_update env (update_bookmark_row fk p' k (maybe_truncate_title title) time change_incr (rb_row_id b))
             p p' old new time)) (w2, c2) = Some (Ok u, (w', c'))"
    using rest x by (auto elim: mbind_runsE)
  have pg: "cn_tables c2 = cn_tables c1 \<or> page_added (cn_tables c1) (cn_tables c2)" "new_fk item (bm_fk r) (cn_tables c2) fk"
    using satD(1) [OF sat_new_place_id fk] b(2) by auto
  obtain time w3 c3 where nw: "now env (w2, c2) = (Ok time, (w3, c3))"
      and rest3: "(let title = new_title (updatable_title item) (rb_title b); change_incr = (title \<noteq> rb_title b \<or> fk \<noteq> rb_place_id b)
        in write_update env (update_bookmark_row fk p' k (maybe_truncate_title title) time change_incr (rb_row_id b))
             p p' old new time) (w3, c3) = Some (Ok u, (w', c'))"
    using rest2 unfolding Let_def by (auto elim: mbind_runsE)
  have t3: "cn_tables c3 = cn_tables c2" using satD(1) [OF sat_now nw] by simp
  show ?thesis
    using nr r(2,3) ty mv pg satmD [OF satm_write_update rest3 [unfolded Let_def]]
    unfolding update_effect_def Let_def b(1,2,6,8) t3 by blast
qed

lemma update_bookmark_in_tx_Ok:
  assumes run: "update_bookmark_in_tx env dbg guid item (w, c) = Some (Ok u, (w', c'))" and keyed: "keyed (cn_tables c)"
  shows "update_effect guid item (cn_tables c) (cn_tables c')"
proof -
  have nr: "\<not> is_root guid" using run by (auto simp: update_bookmark_in_tx_def runs_def throw_def)
  obtain b w1 c1 pg p where g: "get_raw_bookmark env guid (w, c) = (Ok (Some b), (w1, c1))"
      and b: "rb_parent_guid b = Some pg" "rb_parent_id b = Some p"
      and rest: "update_existing env dbg guid item b pg p (w1, c1) = Some (Ok u, (w', c'))"
    using run nr unfolding update_bookmark_in_tx_def by (auto elim!: mbind_runsE dest!: lift_OkD)
  obtain r where r: "find (\<lambda>r. bm_guid r = guid) (moz_bookmarks (cn_tables c)) = Some r"
      "raw_bookmark_from_row env (cn_tables c) r = Ok b" and c1: "cn_tables c1 = cn_tables c"
    using satD(1) [OF sat_get_raw_bookmark g] by blast
  have p: "bm_parent r = Some p" using raw_bookmark_Ok(3) [OF r(2)] b(2) by simp
  obtain q where "bookmark_with_id (cn_tables c) (Some p) = Some q" "pg = bm_guid q"
    using raw_bookmark_Ok(9) [OF r(2)] b(1) p by (cases "bookmark_with_id (cn_tables c) (Some p)") auto
  then show ?thesis using update_existing_Ok [OF rest [unfolded \<open>pg = bm_guid q\<close>], of r] r p keyed nr by (simp add: c1)
qed

end
