(* ===== verification/BookmarkForest.thy ===== *)
theory BookmarkForest
  imports BookmarkTables
begin

text \<open>
  The invariant of \<^verbatim>\<open>moz_bookmarks\<close> and the tree its rows stand for, read by guid: what every item is
  and the ordered guids of its children.
\<close>

section \<open>The invariant\<close>

definition row_ok :: "BookmarkRow \<Rightarrow> bool" where
  "row_ok r \<longleftrightarrow> (bm_type r = 1 \<and> bm_fk r \<noteq> None \<or> bm_type r \<in> {2, 3} \<and> bm_fk r = None) \<and>
     (bm_parent r = None \<longrightarrow> bm_guid r = root_as_str Root)"

definition parents_ok :: "BookmarkRow list \<Rightarrow> bool" where
  "parents_ok rows \<longleftrightarrow>
     (\<forall>r \<in> set rows. \<forall>p. bm_parent r = Some p \<longrightarrow> (\<exists>q \<in> set rows. bm_id q = p \<and> bm_type q = bookmark_type_u8 Folder))"

definition tree_ok :: "BookmarkRow list \<Rightarrow> bool" where
  "tree_ok rows \<longleftrightarrow> distinct (map bm_id rows) \<and> distinct (map bm_guid rows) \<and> (\<forall>r \<in> set rows. row_ok r) \<and>
     parents_ok rows \<and> wf (parent_rel rows) \<and> (\<forall>p. numbered (children rows p))"

lemma tree_okD:
  assumes "tree_ok rows"
  shows "distinct (map bm_id rows)" "distinct (map bm_guid rows)" "\<And>r. r \<in> set rows \<Longrightarrow> row_ok r" "parents_ok rows"
    "wf (parent_rel rows)" "\<And>p. numbered (children rows p)"
  using assms by (auto simp: tree_ok_def)

lemma tree_ok_keyed: "tree_ok (moz_bookmarks t) \<Longrightarrow> keyed t"
  by (simp add: tree_ok_def keyed_def)

lemma row_ok_type:
  assumes "row_ok r"
  shows "from_u8_with_valid_url (bm_type r) (bm_fk r \<noteq> None) = Folder \<longleftrightarrow> bm_type r = bookmark_type_u8 Folder"
  using assms by (auto simp: row_ok_def from_u8_with_valid_url_def bookmark_type_from_u8_def)

text \<open>A position in a list of children is the number the row carries.\<close>

lemma child_index:
  assumes "tree_ok rows" "r \<in> set rows" "bm_parent r = Some p" "bm_position r = int i"
  shows "i < length (children rows p)" "children rows p ! i = r"
proof -
  obtain j where j: "j < length (children rows p)" "children rows p ! j = r"
    using assms(2,3) by (metis (mono_tags, lifting) in_set_conv_nth mem_Collect_eq set_children)
  moreover have "bm_position (children rows p ! j) = int j"
    using tree_okD(6) [OF assms(1)] j(1) by (simp add: numbered_nth)
  ultimately show "i < length (children rows p)" "children rows p ! i = r" using assms(4) by simp_all
qed

lemma children_positions:
  assumes "numbered (children rows p)" "r \<in> set rows" "bm_parent r = Some p"
  shows "0 \<le> bm_position r" "bm_position r < int (length (children rows p))"
proof -
  obtain j where "j < length (children rows p)" "children rows p ! j = r"
    using assms(2,3) by (metis (mono_tags, lifting) in_set_conv_nth mem_Collect_eq set_children)
  then show "0 \<le> bm_position r" "bm_position r < int (length (children rows p))"
    using assms(1) by (auto simp: numbered_nth)
qed

lemma make_room_rows:
  assumes "numbered (children (moz_bookmarks t) p)"
  shows "moz_bookmarks (make_room pos p (length (child_rows (moz_bookmarks t) p)) t) =
     map (shift_row p (clip pos (length (child_rows (moz_bookmarks t) p))) 1) (moz_bookmarks t)"
proof (cases pos)
  case Append
  have "map (shift_row p (length (child_rows (moz_bookmarks t) p)) 1) (moz_bookmarks t) = moz_bookmarks t"
    using children_positions [OF assms] by (intro map_idI) (force simp: shift_row_def length_children)
  then show ?thesis by (simp add: Append make_room_def clip_def)
qed (simp add: make_room_def clip_def moz_bookmarks_shift_from)

lemma clip_le: "clip pos n \<le> n"
  by (simp add: clip_def split: BookmarkPosition.splits)

section \<open>The tree\<close>

record BookmarkItem =
  it_type :: BookmarkType
  it_title :: "string option"
  it_url :: "string option"

record Forest =
  fo_items :: "string \<rightharpoonup> BookmarkItem"
  fo_kids :: "string \<Rightarrow> string list"

definition item_at :: "BookmarkRow list \<Rightarrow> string \<Rightarrow> BookmarkRow option" where
  "item_at rows g = find (\<lambda>r. bm_guid r = g) rows"

definition page_url :: "PlaceRow list \<Rightarrow> RowId option \<Rightarrow> string option" where
  "page_url ps i = (case i of None \<Rightarrow> None | Some i \<Rightarrow> map_option pl_url (find (\<lambda>p. pl_id p = i) ps))"

definition item_of :: "PlaceRow list \<Rightarrow> BookmarkRow \<Rightarrow> BookmarkItem" where
  "item_of ps r = \<lparr>it_type = from_u8_with_valid_url (bm_type r) (bm_fk r \<noteq> None), it_title = nullif_empty (bm_title r),
     it_url = page_url ps (bm_fk r)\<rparr>"

definition kids :: "BookmarkRow list \<Rightarrow> string \<Rightarrow> string list" where
  "kids rows g = (case item_at rows g of None \<Rightarrow> [] | Some r \<Rightarrow> map bm_guid (children rows (bm_id r)))"

definition forest :: "PlacesTables \<Rightarrow> Forest" where
  "forest t = \<lparr>fo_items = \<lambda>g. map_option (item_of (moz_places t)) (item_at (moz_bookmarks t) g), fo_kids = kids (moz_bookmarks t)\<rparr>"

text \<open>The operations on trees.\<close>

definition add_item :: "string \<Rightarrow> BookmarkItem \<Rightarrow> string \<Rightarrow> nat \<Rightarrow> Forest \<Rightarrow> Forest" where
  "add_item g x p k T = \<lparr>fo_items = (fo_items T)(g \<mapsto> x), fo_kids = (fo_kids T)(p := insert_at k g (fo_kids T p))\<rparr>"

definition below :: "Forest \<Rightarrow> string \<Rightarrow> string set" where
  "below T g = {(a, b). b \<in> set (fo_kids T a)}\<^sup>* `` {g}"

definition remove_item :: "string \<Rightarrow> Forest \<Rightarrow> Forest" where
  "remove_item g T = \<lparr>fo_items = fo_items T |` (- below T g),
     fo_kids = \<lambda>a. if a \<in> below T g then [] else removeAll g (fo_kids T a)\<rparr>"

definition move_item :: "string \<Rightarrow> string \<Rightarrow> nat \<Rightarrow> Forest \<Rightarrow> Forest" where
  "move_item g p k T = T\<lparr>fo_kids := \<lambda>a. if a = p then insert_at k g (removeAll g (fo_kids T a)) else removeAll g (fo_kids T a)\<rparr>"

definition change_item :: "string \<Rightarrow> BookmarkItem \<Rightarrow> Forest \<Rightarrow> Forest" where
  "change_item g x T = T\<lparr>fo_items := (fo_items T)(g \<mapsto> x)\<rparr>"

lemma item_at_Some: "item_at rows g = Some r \<Longrightarrow> r \<in> set rows \<and> bm_guid r = g"
  unfolding item_at_def by (rule find_in_set)

lemma item_at_unique:
  assumes "distinct (map bm_guid rows)" "r \<in> set rows" shows "item_at rows (bm_guid r) = Some r"
  unfolding item_at_def by (rule find_unique [OF assms])

lemma item_at_map: "(\<And>r. bm_guid (f r) = bm_guid r) \<Longrightarrow> item_at (map f rows) g = map_option f (item_at rows g)"
  by (simp add: item_at_def find_map)

lemma item_at_append: "item_at (rows @ rows') g = (case item_at rows g of None \<Rightarrow> item_at rows' g | Some r \<Rightarrow> Some r)"
  by (induction rows) (auto simp: item_at_def)

lemma item_at_None: "item_at rows g = None \<longleftrightarrow> g \<notin> bm_guid ` set rows"
  by (auto simp: item_at_def find_None_iff)

lemma id_unique: "distinct (map bm_id rows) \<Longrightarrow> r \<in> set rows \<Longrightarrow> q \<in> set rows \<Longrightarrow> bm_id r = bm_id q \<longleftrightarrow> r = q"
  by (auto simp: distinct_map dest: inj_onD)

lemma guid_unique: "distinct (map bm_guid rows) \<Longrightarrow> r \<in> set rows \<Longrightarrow> q \<in> set rows \<Longrightarrow> bm_guid r = bm_guid q \<longleftrightarrow> r = q"
  by (auto simp: distinct_map dest: inj_onD)

text \<open>Removing a row by its index in a list of children removes its guid.\<close>

lemma remove_at_removeAll:
  assumes "distinct xs" "i < length xs" shows "remove_at i xs = removeAll (xs ! i) xs"
proof -
  have xs: "xs = take i xs @ xs ! i # drop (Suc i) xs" using assms(2) by (rule id_take_nth_drop)
  then have "distinct (take i xs @ xs ! i # drop (Suc i) xs)" using assms(1) by simp
  then have "xs ! i \<notin> set (take i xs)" "xs ! i \<notin> set (drop (Suc i) xs)" by auto
  then have "removeAll (xs ! i) (take i xs @ xs ! i # drop (Suc i) xs) = remove_at i xs" by (simp add: remove_at_def)
  then show ?thesis using xs by simp
qed

lemma distinct_guids_children:
  assumes "distinct (map bm_guid rows)" "distinct (map bm_id rows)" shows "distinct (map bm_guid (children rows p))"
proof -
  have "inj_on bm_guid (set rows)" using assms(1) by (simp add: distinct_map)
  then have "inj_on bm_guid (set (children rows p))" by (rule inj_on_subset) auto
  then show ?thesis using distinct_children [OF assms(2)] by (simp add: distinct_map)
qed

section \<open>Adding a row\<close>

lemma parent_rel_map:
  assumes "\<And>r. r \<in> set rows \<Longrightarrow> bm_id (f r) = bm_id r \<and> bm_parent (f r) = bm_parent r"
  shows "parent_rel (map f rows) = parent_rel rows"
  using assms by (auto simp: parent_rel_def)

lemma parent_rel_dom: "parents_ok rows \<Longrightarrow> (p, i) \<in> parent_rel rows \<Longrightarrow> p \<in> bm_id ` set rows"
  by (force simp: parents_ok_def parent_rel_def)

lemma no_children: "parents_ok rows \<Longrightarrow> p \<notin> bm_id ` set rows \<Longrightarrow> children rows p = []"
  by (subst set_empty [symmetric], subst set_children) (force simp: parents_ok_def)

text \<open>The children of a parent that no row leaves and no row joins keep their order.\<close>

lemma arranged_same:
  assumes "distinct (map bm_id rows)" "\<And>r. bm_id (upd r) = bm_id r" "numbered cs" "distinct cs"
    and "{r \<in> set rows. bm_parent (upd r) = Some q} = set cs"
    and "\<And>r. r \<in> set cs \<Longrightarrow> bm_position (upd r) = bm_position r"
  shows "arranged upd rows q cs"
  using assms by (intro children_arranged) (auto simp: numbered_nth)

definition adds_row :: "BookmarkRow \<Rightarrow> BookmarkRow \<Rightarrow> nat \<Rightarrow> BookmarkRow list \<Rightarrow> BookmarkRow list \<Rightarrow> bool" where
  "adds_row parent new k rows rows' \<longleftrightarrow>
     parent \<in> set rows \<and> bm_type parent = bookmark_type_u8 Folder \<and> bm_id new \<notin> bm_id ` set rows \<and> bm_guid new \<notin> bm_guid ` set rows \<and>
     row_ok new \<and> bm_parent new = Some (bm_id parent) \<and> bm_position new = int k \<and> k \<le> length (children rows (bm_id parent)) \<and>
     (\<exists>upd. (\<forall>r. bm_id (upd r) = bm_id r \<and> bm_guid (upd r) = bm_guid r \<and> bm_parent (upd r) = bm_parent r \<and> bm_type (upd r) = bm_type r \<and>
        bm_fk (upd r) = bm_fk r \<and> bm_title (upd r) = bm_title r) \<and> rows' = map upd (rows @ [new]) \<and> bm_position (upd new) = int k \<and>
        (\<forall>r \<in> set rows. bm_position (upd r) = bm_position r + (if bm_parent r = Some (bm_id parent) \<and> int k \<le> bm_position r then 1 else 0)))"

lemma adds_row_children:
  assumes ok: "tree_ok rows" and a: "adds_row parent new k rows rows'"
  shows "numbered (children rows' q)"
    and "map bm_guid (children rows' q) = (if q = bm_id parent then insert_at k (bm_guid new) (map bm_guid (children rows q))
       else map bm_guid (children rows q))"
proof -
  let ?p = "bm_id parent"
  obtain upd where u: "\<And>r. bm_id (upd r) = bm_id r" "\<And>r. bm_guid (upd r) = bm_guid r" "\<And>r. bm_parent (upd r) = bm_parent r"
      "rows' = map upd (rows @ [new])" "bm_position (upd new) = int k"
      "\<And>r. r \<in> set rows \<Longrightarrow> bm_position (upd r) = bm_position r + (if bm_parent r = Some ?p \<and> int k \<le> bm_position r then 1 else 0)"
    using a unfolding adds_row_def by blast
  have new: "bm_id new \<notin> bm_id ` set rows" "bm_parent new = Some ?p" "k \<le> length (children rows ?p)" "new \<notin> set rows"
    using a by (auto simp: adds_row_def)
  have d: "distinct (map bm_id (rows @ [new]))" using tree_okD(1) [OF ok] new(1) by auto
  note n = tree_okD(6) [OF ok] distinct_children [OF tree_okD(1) [OF ok]]
  have arr: "arranged upd (rows @ [new]) q (if q = ?p then insert_at k new (children rows ?p) else children rows q)"
  proof (cases "q = ?p")
    case True
    have "arranged upd (rows @ [new]) ?p (insert_at k new (children rows ?p))"
      by (rule children_inserted [OF d u(1) n new(3) _ u(5)]) (use new u in auto)
    then show ?thesis using True by simp
  next
    case False
    have "arranged upd (rows @ [new]) q (children rows q)"
      by (rule arranged_same [OF d u(1) n]) (use new u False in auto)
    then show ?thesis using False by simp
  qed
  then have c: "children rows' q = map upd (if q = ?p then insert_at k new (children rows ?p) else children rows q)"
    "numbered (children rows' q)" unfolding arranged_def u(4) by simp_all
  show "numbered (children rows' q)" by (rule c(2))
  have g: "map bm_guid (map upd xs) = map bm_guid xs" for xs using u(2) by simp
  show "map bm_guid (children rows' q) = (if q = ?p then insert_at k (bm_guid new) (map bm_guid (children rows q))
       else map bm_guid (children rows q))"
    unfolding c(1) g by (simp add: map_insert_at)
qed

lemma adds_row_tree_ok:
  assumes ok: "tree_ok rows" and a: "adds_row parent new k rows rows'" shows "tree_ok rows'"
proof -
  obtain upd where u: "\<And>r. bm_id (upd r) = bm_id r" "\<And>r. bm_guid (upd r) = bm_guid r" "\<And>r. bm_parent (upd r) = bm_parent r"
      "\<And>r. bm_type (upd r) = bm_type r" "\<And>r. bm_fk (upd r) = bm_fk r" "rows' = map upd (rows @ [new])"
    using a unfolding adds_row_def by blast
  have new: "parent \<in> set rows" "bm_type parent = bookmark_type_u8 Folder" "bm_id new \<notin> bm_id ` set rows" "bm_guid new \<notin> bm_guid ` set rows"
      "row_ok new" "bm_parent new = Some (bm_id parent)" using a by (auto simp: adds_row_def)
  have rel: "parent_rel rows' = insert (bm_id parent, bm_id new) (parent_rel rows)"
    using new(6) u(1,3) by (auto simp: parent_rel_def u(6))
  have "(bm_id new, bm_id parent) \<notin> (parent_rel rows)\<^sup>*"
  proof
    assume "(bm_id new, bm_id parent) \<in> (parent_rel rows)\<^sup>*"
    then obtain i where "(bm_id new, i) \<in> parent_rel rows" using new(1,3) by (auto elim: converse_rtranclE)
    then show False using new(3) parent_rel_dom [OF tree_okD(4) [OF ok]] by blast
  qed
  then have "wf (parent_rel rows')" unfolding rel using tree_okD(5) [OF ok] by (simp add: wf_insert)
  moreover have "distinct (map bm_id rows')" "distinct (map bm_guid rows')"
    using tree_okD(1,2) [OF ok] new(3,4) by (auto simp: u comp_def)
  moreover have "\<forall>r \<in> set rows'. row_ok r" using tree_okD(3) [OF ok] new(5) by (auto simp: u row_ok_def)
  moreover have "parents_ok rows'"
    using tree_okD(4) [OF ok] new(1,2,6) unfolding parents_ok_def u(6) by (auto simp: u(1,3,4))
  ultimately show ?thesis using adds_row_children(1) [OF ok a] by (simp add: tree_ok_def)
qed

lemma adds_row_kids:
  assumes ok: "tree_ok rows" and a: "adds_row parent new k rows rows'"
  shows "kids rows' = (kids rows)(bm_guid parent := insert_at k (bm_guid new) (kids rows (bm_guid parent)))"
proof
  fix g
  obtain upd where u: "\<And>r. bm_id (upd r) = bm_id r" "\<And>r. bm_guid (upd r) = bm_guid r" "rows' = map upd (rows @ [new])"
    using a unfolding adds_row_def by blast
  have new: "parent \<in> set rows" "bm_id new \<notin> bm_id ` set rows" "bm_guid new \<notin> bm_guid ` set rows" using a by (auto simp: adds_row_def)
  have at: "item_at rows' g = map_option upd (case item_at rows g of None \<Rightarrow> item_at [new] g | Some r \<Rightarrow> Some r)"
    unfolding u(3) using u(2) by (subst item_at_map) (simp_all add: item_at_append)
  show "kids rows' g = ((kids rows)(bm_guid parent := insert_at k (bm_guid new) (kids rows (bm_guid parent)))) g"
  proof (cases "item_at rows g")
    case None
    have "g \<noteq> bm_guid parent" using None new(1) by (auto simp: item_at_None)
    moreover have "map bm_guid (children rows' (bm_id new)) = []"
      using adds_row_children(2) [OF ok a, of "bm_id new"] new(1,2) no_children [OF tree_okD(4) [OF ok] new(2)] by auto
    ultimately show ?thesis using None at u(1) by (auto simp: kids_def item_at_def split: if_splits)
  next
    case (Some r)
    note r = item_at_Some [OF Some]
    have "g = bm_guid parent \<longleftrightarrow> bm_id r = bm_id parent"
      using r new(1) id_unique [OF tree_okD(1) [OF ok]] guid_unique [OF tree_okD(2) [OF ok]] by metis
    then show ?thesis
      using Some at u(1) adds_row_children(2) [OF ok a] item_at_unique [OF tree_okD(2) [OF ok] new(1)] by (simp add: kids_def)
  qed
qed

lemma adds_row_items:
  assumes "adds_row parent new k rows rows'"
  shows "\<exists>upd. (\<forall>r. bm_type (upd r) = bm_type r \<and> bm_fk (upd r) = bm_fk r \<and> bm_title (upd r) = bm_title r) \<and>
    item_at rows' = (\<lambda>g. map_option upd (((item_at rows)(bm_guid new \<mapsto> new)) g)) \<and> rows' = map upd (rows @ [new])"
proof -
  obtain upd where u: "\<And>r. bm_guid (upd r) = bm_guid r" "rows' = map upd (rows @ [new])"
      "\<And>r. bm_type (upd r) = bm_type r \<and> bm_fk (upd r) = bm_fk r \<and> bm_title (upd r) = bm_title r"
    using assms unfolding adds_row_def by blast
  have "item_at rows (bm_guid new) = None" using assms by (auto simp: adds_row_def item_at_None)
  then have "item_at rows' = (\<lambda>g. map_option upd (((item_at rows)(bm_guid new \<mapsto> new)) g))"
    unfolding u(2) using u(1) by (intro ext, subst item_at_map) (auto simp: item_at_append item_at_def [of "[new]"] split: option.splits)
  then show ?thesis using u(2,3) by blast
qed

section \<open>Removing a row and what is below it\<close>

definition subtree :: "BookmarkRow list \<Rightarrow> RowId \<Rightarrow> RowId set" where
  "subtree rows i = (parent_rel rows)\<^sup>* `` {i}"

lemma subtree_self: "i \<in> subtree rows i"
  by (simp add: subtree_def)

lemma subtree_child: "x \<in> set rows \<Longrightarrow> bm_parent x = Some p \<Longrightarrow> p \<in> subtree rows i \<Longrightarrow> bm_id x \<in> subtree rows i"
  by (auto simp: subtree_def parent_rel_def intro: rtrancl_into_rtrancl)

lemma subtree_iff:
  assumes "distinct (map bm_id rows)" "r \<in> set rows" "x \<in> set rows"
  shows "bm_id x \<in> subtree rows (bm_id r) \<longleftrightarrow> x = r \<or> (\<exists>p. bm_parent x = Some p \<and> p \<in> subtree rows (bm_id r))"
proof
  assume "bm_id x \<in> subtree rows (bm_id r)"
  then have "(bm_id r, bm_id x) \<in> (parent_rel rows)\<^sup>*" by (simp add: subtree_def)
  then show "x = r \<or> (\<exists>p. bm_parent x = Some p \<and> p \<in> subtree rows (bm_id r))"
  proof (cases rule: rtranclE)
    case base
    then show ?thesis using id_unique [OF assms] by simp
  next
    case (step q)
    then obtain y where y: "y \<in> set rows" "bm_id y = bm_id x" "bm_parent y = Some q" by (auto simp: parent_rel_def)
    then have "y = x" using id_unique [OF assms(1) y(1) assms(3)] by simp
    then show ?thesis using y step by (simp add: subtree_def)
  qed
qed (use assms(3) in \<open>auto simp: subtree_self intro: subtree_child\<close>)

lemma parent_not_in_subtree:
  assumes "tree_ok rows" "r \<in> set rows" "bm_parent r = Some p" shows "p \<notin> subtree rows (bm_id r)"
proof
  assume "p \<in> subtree rows (bm_id r)"
  then have "(p, p) \<in> (parent_rel rows)\<^sup>+"
    using assms(2,3) by (auto simp: subtree_def parent_rel_def intro: rtrancl_into_trancl2)
  then show False using wf_acyclic [OF tree_okD(5) [OF assms(1)]] by (simp add: acyclic_def)
qed

definition removes_row :: "BookmarkRow \<Rightarrow> RowId \<Rightarrow> BookmarkRow list \<Rightarrow> BookmarkRow list \<Rightarrow> bool" where
  "removes_row r p rows rows' \<longleftrightarrow> r \<in> set rows \<and> bm_parent r = Some p \<and>
     rows' = map (shift_row p (nat (bm_position r)) (- 1)) (filter (\<lambda>x. bm_id x \<notin> subtree rows (bm_id r)) rows)"

lemma removes_row_children:
  assumes ok: "tree_ok rows" and rm: "removes_row r p rows rows'"
  shows "numbered (children rows' q)"
    and "map bm_guid (children rows' q) = (if q \<in> subtree rows (bm_id r) then [] else removeAll (bm_guid r) (map bm_guid (children rows q)))"
proof -
  let ?D = "subtree rows (bm_id r)" and ?k = "nat (bm_position r)"
  let ?upd = "shift_row p ?k (- 1)" and ?kept = "filter (\<lambda>x. bm_id x \<notin> subtree rows (bm_id r)) rows"
  have r: "r \<in> set rows" "bm_parent r = Some p" and rows': "rows' = map ?upd ?kept" using rm by (auto simp: removes_row_def)
  note n = tree_okD(6) [OF ok] distinct_children [OF tree_okD(1) [OF ok]] and uniq = id_unique [OF tree_okD(1) [OF ok]]
  have d: "distinct (map bm_id ?kept)" using tree_okD(1) [OF ok] by (simp add: distinct_map_filter)
  have k: "bm_position r = int ?k" using children_positions(1) [OF n(1) r] by simp
  note idx = child_index [OF ok r k]
  have pD: "p \<notin> ?D" by (rule parent_not_in_subtree [OF ok r])
  note par = subtree_iff [OF tree_okD(1) [OF ok] r(1)]
  have g: "map bm_guid (map ?upd xs) = map bm_guid xs" for xs by simp
  have dg: "distinct (map bm_guid (children rows q))" by (rule distinct_guids_children [OF tree_okD(2,1) [OF ok]])
  have "arranged ?upd ?kept q (if q \<in> ?D then [] else if q = p then remove_at ?k (children rows p) else children rows q) \<and>
      (q \<noteq> p \<longrightarrow> bm_guid r \<notin> set (map bm_guid (children rows q)))"
  proof (intro conjI)
    show "q \<noteq> p \<longrightarrow> bm_guid r \<notin> set (map bm_guid (children rows q))"
    proof (intro impI notI)
      assume "q \<noteq> p" "bm_guid r \<in> set (map bm_guid (children rows q))"
      then obtain x where "x \<in> set rows" "bm_parent x = Some q" "bm_guid x = bm_guid r" by auto
      then show False using r guid_unique [OF tree_okD(2) [OF ok], of x r] \<open>q \<noteq> p\<close> by auto
    qed
    consider "q \<in> ?D" | "q = p" | "q \<notin> ?D" "q \<noteq> p" by blast
    then show "arranged ?upd ?kept q (if q \<in> ?D then [] else if q = p then remove_at ?k (children rows p) else children rows q)"
    proof cases
      case 1
      then have "arranged ?upd ?kept q []" using par by (intro children_arranged [OF d]) auto
      then show ?thesis using 1 by simp
    next
      case 2
      have "arranged ?upd ?kept p (remove_at ?k (children rows p))"
      proof (rule children_removed [OF d _ n idx(1)])
        show "{x \<in> set ?kept. bm_parent (?upd x) = Some p} = set (children rows p) - {children rows p ! ?k}"
          using par pD r idx(2) by auto
        show "bm_position (?upd x) = bm_position x - (if int ?k < bm_position x then 1 else 0)"
          if x: "x \<in> set (children rows p)" "x \<noteq> children rows p ! ?k" for x
        proof -
          have "bm_position x \<noteq> int ?k" using child_index(2) [OF ok, of x p ?k] x by auto
          then show ?thesis using x by (auto simp: shift_row_def)
        qed
      qed simp
      then show ?thesis using 2 pD by simp
    next
      case 3
      have "arranged ?upd ?kept q (children rows q)"
        using par 3 r by (intro arranged_same [OF d _ n]) (auto simp: shift_row_def)
      then show ?thesis using 3 by simp
    qed
  qed
  then have c: "children rows' q = map ?upd (if q \<in> ?D then [] else if q = p then remove_at ?k (children rows p) else children rows q)"
      "numbered (children rows' q)" "q \<noteq> p \<Longrightarrow> bm_guid r \<notin> set (map bm_guid (children rows q))"
    unfolding arranged_def rows' by simp_all
  show "numbered (children rows' q)" by (rule c(2))
  have "map bm_guid (remove_at ?k (children rows p)) = removeAll (bm_guid r) (map bm_guid (children rows p))" if "q = p"
    using remove_at_removeAll [OF dg, of ?k] idx that by (simp add: map_remove_at)
  then show "map bm_guid (children rows' q) = (if q \<in> ?D then [] else removeAll (bm_guid r) (map bm_guid (children rows q)))"
    unfolding c(1) g using c(3) pD by (auto simp del: set_map)
qed

lemma removes_row_tree_ok:
  assumes ok: "tree_ok rows" and rm: "removes_row r p rows rows'" shows "tree_ok rows'"
proof -
  let ?kept = "filter (\<lambda>x. bm_id x \<notin> subtree rows (bm_id r)) rows"
  have r: "r \<in> set rows" and rows': "rows' = map (shift_row p (nat (bm_position r)) (- 1)) ?kept" using rm by (auto simp: removes_row_def)
  have "parent_rel rows' = parent_rel ?kept" unfolding rows' by (rule parent_rel_map) simp
  then have "parent_rel rows' \<subseteq> parent_rel rows" by (auto simp: parent_rel_def)
  then have "wf (parent_rel rows')" by (rule wf_subset [OF tree_okD(5) [OF ok]])
  moreover have "distinct (map bm_id rows')" "distinct (map bm_guid rows')"
    using tree_okD(1,2) [OF ok] by (auto simp: rows' comp_def distinct_map_filter)
  moreover have "\<forall>x \<in> set rows'. row_ok x" using tree_okD(3) [OF ok] by (auto simp: rows' row_ok_def)
  moreover have "parents_ok rows'"
    unfolding parents_ok_def
  proof (intro ballI allI impI)
    fix y q assume "y \<in> set rows'" "bm_parent y = Some q"
    then obtain x where x: "x \<in> set rows" "bm_id x \<notin> subtree rows (bm_id r)" "bm_parent x = Some q" by (auto simp: rows')
    then obtain z where z: "z \<in> set rows" "bm_id z = q" "bm_type z = bookmark_type_u8 Folder"
      using tree_okD(4) [OF ok] unfolding parents_ok_def by blast
    have "q \<notin> subtree rows (bm_id r)" using x subtree_child by blast
    then show "\<exists>z \<in> set rows'. bm_id z = q \<and> bm_type z = bookmark_type_u8 Folder"
      using z by (intro bexI [of _ "shift_row p (nat (bm_position r)) (- 1) z"]) (auto simp: rows')
  qed
  ultimately show ?thesis using removes_row_children(1) [OF ok rm] by (simp add: tree_ok_def)
qed

text \<open>The tree by guid has the same shape as the tree by row id.\<close>

lemma kids_iff:
  assumes "tree_ok rows" "x \<in> set rows"
  shows "g \<in> set (kids rows (bm_guid x)) \<longleftrightarrow> (\<exists>y \<in> set rows. bm_guid y = g \<and> bm_parent y = Some (bm_id x))"
  using item_at_unique [OF tree_okD(2) [OF assms(1)] assms(2)] by (auto simp: kids_def)

lemma below_subtree:
  assumes ok: "tree_ok rows" and r: "r \<in> set rows"
  shows "{(a, b). b \<in> set (kids rows a)}\<^sup>* `` {bm_guid r} = bm_guid ` {x \<in> set rows. bm_id x \<in> subtree rows (bm_id r)}" (is "?L = ?R")
proof
  show "?L \<subseteq> ?R"
  proof
    fix g assume "g \<in> ?L"
    then have "(bm_guid r, g) \<in> {(a, b). b \<in> set (kids rows a)}\<^sup>*" by simp
    then show "g \<in> ?R"
    proof (induction rule: rtrancl_induct)
      case base
      then show ?case using r subtree_self by auto
    next
      case (step a b)
      then obtain x where x: "x \<in> set rows" "bm_id x \<in> subtree rows (bm_id r)" "a = bm_guid x" by auto
      then obtain y where "y \<in> set rows" "bm_guid y = b" "bm_parent y = Some (bm_id x)" using step kids_iff [OF ok x(1)] by auto
      then show ?case using x(2) subtree_child by blast
    qed
  qed
  have "(bm_guid r, bm_guid x) \<in> {(a, b). b \<in> set (kids rows a)}\<^sup>*"
    if "(bm_id r, i) \<in> (parent_rel rows)\<^sup>*" "x \<in> set rows" "bm_id x = i" for i x
    using that
  proof (induction arbitrary: x rule: rtrancl_induct)
    case base
    then show ?case using id_unique [OF tree_okD(1) [OF ok] r] by fastforce
  next
    case (step p i)
    then obtain y where y: "y \<in> set rows" "bm_id y = i" "bm_parent y = Some p" by (auto simp: parent_rel_def)
    then have "y = x" using step(4,5) id_unique [OF tree_okD(1) [OF ok], of y x] by simp
    obtain z where z: "z \<in> set rows" "bm_id z = p" using tree_okD(4) [OF ok] y unfolding parents_ok_def by blast
    then have "bm_guid x \<in> set (kids rows (bm_guid z))" using kids_iff [OF ok z(1)] y \<open>y = x\<close> by blast
    then show ?case using step(3) [OF z] by (auto intro: rtrancl_into_rtrancl)
  qed
  then show "?R \<subseteq> ?L" by (auto simp: subtree_def)
qed

lemma removes_row_items:
  assumes ok: "tree_ok rows" and rm: "removes_row r p rows rows'"
  shows "item_at rows' g = (if g \<in> bm_guid ` {x \<in> set rows. bm_id x \<in> subtree rows (bm_id r)} then None
     else map_option (shift_row p (nat (bm_position r)) (- 1)) (item_at rows g))"
proof -
  let ?D = "subtree rows (bm_id r)" and ?upd = "shift_row p (nat (bm_position r)) (- 1)"
  have rows': "rows' = map ?upd (filter (\<lambda>x. bm_id x \<notin> ?D) rows)" using rm by (auto simp: removes_row_def)
  have at: "item_at rows' g = map_option ?upd (item_at (filter (\<lambda>x. bm_id x \<notin> ?D) rows) g)" unfolding rows' by (subst item_at_map) simp_all
  show ?thesis
  proof (cases "item_at rows g")
    case None
    moreover have "item_at (filter (\<lambda>x. bm_id x \<notin> ?D) rows) g = None" using None by (auto simp: item_at_None)
    ultimately show ?thesis unfolding at by simp
  next
    case (Some x)
    note x = item_at_Some [OF Some]
    have "g \<in> bm_guid ` {x \<in> set rows. bm_id x \<in> ?D} \<longleftrightarrow> bm_id x \<in> ?D"
      using x guid_unique [OF tree_okD(2) [OF ok], of x] by (auto simp: image_iff)
    moreover have "item_at (filter (\<lambda>x. bm_id x \<notin> ?D) rows) g = (if bm_id x \<in> ?D then None else Some x)"
    proof (cases "bm_id x \<in> ?D")
      case True
      then show ?thesis using x guid_unique [OF tree_okD(2) [OF ok], of x] by (auto simp: item_at_None)
    next
      case False
      have "distinct (map bm_guid (filter (\<lambda>x. bm_id x \<notin> ?D) rows))" using tree_okD(2) [OF ok] by (simp add: distinct_map_filter)
      then show ?thesis using item_at_unique [of "filter (\<lambda>x. bm_id x \<notin> ?D) rows" x] x False by auto
    qed
    ultimately show ?thesis using at Some by simp
  qed
qed

lemma removes_row_kids:
  assumes ok: "tree_ok rows" and rm: "removes_row r p rows rows'"
  shows "kids rows' g = (if g \<in> bm_guid ` {x \<in> set rows. bm_id x \<in> subtree rows (bm_id r)} then [] else removeAll (bm_guid r) (kids rows g))"
proof (cases "item_at rows g")
  case None
  then show ?thesis using removes_row_items [OF ok rm, of g] by (auto simp: kids_def)
next
  case (Some x)
  note x = item_at_Some [OF Some]
  have "g \<in> bm_guid ` {x \<in> set rows. bm_id x \<in> subtree rows (bm_id r)} \<longleftrightarrow> bm_id x \<in> subtree rows (bm_id r)"
    using x guid_unique [OF tree_okD(2) [OF ok], of x] by (auto simp: image_iff)
  then show ?thesis
    using Some removes_row_items [OF ok rm, of g] removes_row_children(2) [OF ok rm, of "bm_id x"] by (auto simp: kids_def)
qed

end
