(* ===== verification/BookmarkMove.thy ===== *)
theory BookmarkMove
  imports BookmarkForest
begin

text \<open>Moving a row to a place in a folder, its own one or another.\<close>

text \<open>The position of another row once a row has left place \<open>i\<close> of \<open>p\<close> and joined place \<open>k\<close> of \<open>p'\<close>.\<close>

definition pos_after :: "RowId \<Rightarrow> nat \<Rightarrow> RowId \<Rightarrow> nat \<Rightarrow> BookmarkRow \<Rightarrow> int" where
  "pos_after p i p' k x =
     (let a = (if bm_parent x = Some p \<and> int i < bm_position x then bm_position x - 1 else bm_position x)
      in if bm_parent x = Some p' \<and> int k \<le> a then a + 1 else a)"

definition keeps_rows :: "(BookmarkRow \<Rightarrow> BookmarkRow) \<Rightarrow> bool" where
  "keeps_rows upd \<longleftrightarrow> (\<forall>x. bm_id (upd x) = bm_id x \<and> bm_guid (upd x) = bm_guid x \<and> bm_type (upd x) = bm_type x)"

definition moves_row :: "BookmarkRow \<Rightarrow> RowId \<Rightarrow> nat \<Rightarrow> RowId \<Rightarrow> nat \<Rightarrow> (BookmarkRow \<Rightarrow> BookmarkRow) \<Rightarrow> BookmarkRow list \<Rightarrow> bool" where
  "moves_row r p i p' k upd rows \<longleftrightarrow>
     r \<in> set rows \<and> bm_parent r = Some p \<and> bm_position r = int i \<and>
     (\<exists>q \<in> set rows. bm_id q = p' \<and> bm_type q = bookmark_type_u8 Folder) \<and> p' \<notin> subtree rows (bm_id r) \<and>
     (if p' = p then k < length (children rows p) else k \<le> length (children rows p')) \<and>
     keeps_rows upd \<and> bm_parent (upd r) = Some p' \<and> bm_position (upd r) = int k \<and> row_ok (upd r) \<and>
     (\<forall>x \<in> set rows. x \<noteq> r \<longrightarrow> bm_parent (upd x) = bm_parent x \<and> bm_fk (upd x) = bm_fk x \<and> bm_title (upd x) = bm_title x \<and>
        bm_position (upd x) = pos_after p i p' k x)"

lemma moves_rowD:
  assumes "moves_row r p i p' k upd rows"
  shows "r \<in> set rows" "bm_parent r = Some p" "bm_position r = int i" "\<exists>q \<in> set rows. bm_id q = p' \<and> bm_type q = bookmark_type_u8 Folder"
    "p' \<notin> subtree rows (bm_id r)" "if p' = p then k < length (children rows p) else k \<le> length (children rows p')"
    "\<And>x. bm_id (upd x) = bm_id x" "\<And>x. bm_guid (upd x) = bm_guid x" "\<And>x. bm_type (upd x) = bm_type x"
    "bm_parent (upd r) = Some p'" "bm_position (upd r) = int k" "row_ok (upd r)"
    "\<And>x. x \<in> set rows \<Longrightarrow> x \<noteq> r \<Longrightarrow> bm_parent (upd x) = bm_parent x"
    "\<And>x. x \<in> set rows \<Longrightarrow> x \<noteq> r \<Longrightarrow> bm_fk (upd x) = bm_fk x"
    "\<And>x. x \<in> set rows \<Longrightarrow> x \<noteq> r \<Longrightarrow> bm_title (upd x) = bm_title x"
    "\<And>x. x \<in> set rows \<Longrightarrow> x \<noteq> r \<Longrightarrow> bm_position (upd x) = pos_after p i p' k x"
  using assms unfolding moves_row_def keeps_rows_def by blast+

lemma other_position:
  assumes "tree_ok rows" "r \<in> set rows" "bm_parent r = Some p" "bm_position r = int i" "x \<in> set rows" "bm_parent x = Some p" "x \<noteq> r"
  shows "bm_position x \<noteq> int i"
  using child_index(2) [OF assms(1,2,3,4)] child_index(2) [OF assms(1,5,6), of i] assms(7) by auto

lemma moves_row_arranged:
  assumes ok: "tree_ok rows" and m: "moves_row r p i p' k upd rows"
  shows "arranged upd rows q (if q = p' then if p' = p then insert_at k r (remove_at i (children rows p)) else insert_at k r (children rows p')
     else if q = p then remove_at i (children rows p) else children rows q)"
proof -
  note d = tree_okD(1) [OF ok] and n = tree_okD(6) [OF ok] distinct_children [OF tree_okD(1) [OF ok]] and M = moves_rowD [OF m]
  note idx = child_index [OF ok M(1,2,3)] and oth = other_position [OF ok M(1,2,3)]
  have pos: "bm_position (upd x) = bm_position x" if "x \<in> set rows" "bm_parent x = Some q" "q \<noteq> p" "q \<noteq> p'" for x
    using M(16) [of x] M(2) that by (cases "x = r") (auto simp: pos_after_def)
  have par: "bm_parent (upd x) = (if x = r then Some p' else bm_parent x)" if "x \<in> set rows" for x using M(10,13) that by simp
  consider "q = p'" "p' = p" | "q = p'" "p' \<noteq> p" | "q \<noteq> p'" "q = p" | "q \<noteq> p'" "q \<noteq> p" by blast
  then show ?thesis
  proof cases
    case 1
    have "arranged upd rows p (insert_at k (children rows p ! i) (remove_at i (children rows p)))"
    proof (rule children_moved [OF d M(7) n idx(1)])
      show "k < length (children rows p)" using M(6) 1 by simp
      show "bm_position (upd (children rows p ! i)) = int k" using idx(2) M(11) by simp
      show "{x \<in> set rows. bm_parent (upd x) = Some p} = set (children rows p)" using M(1,2) par 1 by (auto split: if_splits)
      show "bm_position (upd x) = (if int (min i k) \<le> bm_position x \<and> bm_position x \<le> int (max i k)
          then if k < i then bm_position x + 1 else bm_position x - 1 else bm_position x)"
        if "x \<in> set (children rows p)" "x \<noteq> children rows p ! i" for x
        using M(16) [of x] oth [of x] that idx(2) 1 by (auto simp: pos_after_def Let_def)
    qed
    then show ?thesis using 1 idx(2) by simp
  next
    case 2
    have "arranged upd rows p' (insert_at k r (children rows p'))"
    proof (rule children_inserted [OF d M(7) n])
      show "k \<le> length (children rows p')" "r \<notin> set (children rows p')" using M(2,6) 2 by auto
      show "bm_position (upd r) = int k" by (rule M(11))
      show "{x \<in> set rows. bm_parent (upd x) = Some p'} = insert r (set (children rows p'))" using M(1) par by (auto split: if_splits)
      show "bm_position (upd x) = bm_position x + (if int k \<le> bm_position x then 1 else 0)" if "x \<in> set (children rows p')" for x
        using M(16) [of x] M(2) that 2 by (cases "x = r") (auto simp: pos_after_def Let_def)
    qed
    then show ?thesis using 2 by simp
  next
    case 3
    have "arranged upd rows p (remove_at i (children rows p))"
    proof (rule children_removed [OF d M(7) n idx(1)])
      show "{x \<in> set rows. bm_parent (upd x) = Some p} = set (children rows p) - {children rows p ! i}"
        using M(1,2) par idx(2) 3 by (auto split: if_splits)
      show "bm_position (upd x) = bm_position x - (if int i < bm_position x then 1 else 0)"
        if "x \<in> set (children rows p)" "x \<noteq> children rows p ! i" for x
        using M(16) [of x] that idx(2) 3 by (auto simp: pos_after_def Let_def)
    qed
    then show ?thesis using 3 by simp
  next
    case 4
    have "arranged upd rows q (children rows q)"
      by (rule arranged_same [OF d M(7) n]) (use M(2) par pos 4 in \<open>auto split: if_splits\<close>)
    then show ?thesis using 4 by simp
  qed
qed

lemma moves_row_children:
  assumes ok: "tree_ok rows" and m: "moves_row r p i p' k upd rows"
  shows "numbered (children (map upd rows) q)"
    and "map bm_guid (children (map upd rows) q) =
      (if q = p' then insert_at k (bm_guid r) (removeAll (bm_guid r) (map bm_guid (children rows q)))
       else removeAll (bm_guid r) (map bm_guid (children rows q)))"
proof -
  note M = moves_rowD [OF m] and idx = child_index [OF ok moves_rowD(1,2,3) [OF m]] and c = moves_row_arranged [OF ok m, of q, unfolded arranged_def]
  show "numbered (children (map upd rows) q)" using c by simp
  have g: "map bm_guid (map upd xs) = map bm_guid xs" for xs using M(8) by simp
  have dg: "distinct (map bm_guid (children rows p))" by (rule distinct_guids_children [OF tree_okD(2,1) [OF ok]])
  have rm: "map bm_guid (remove_at i (children rows p)) = removeAll (bm_guid r) (map bm_guid (children rows p))"
    using remove_at_removeAll [OF dg, of i] idx by (simp add: map_remove_at)
  have other: "removeAll (bm_guid r) (map bm_guid (children rows a)) = map bm_guid (children rows a)" if "a \<noteq> p" for a
  proof (rule removeAll_id, rule notI)
    assume "bm_guid r \<in> set (map bm_guid (children rows a))"
    then obtain x where "x \<in> set rows" "bm_parent x = Some a" "bm_guid x = bm_guid r" by auto
    then show False using M(1,2) guid_unique [OF tree_okD(2) [OF ok], of x r] that by auto
  qed
  show "map bm_guid (children (map upd rows) q) =
      (if q = p' then insert_at k (bm_guid r) (removeAll (bm_guid r) (map bm_guid (children rows q)))
       else removeAll (bm_guid r) (map bm_guid (children rows q)))"
    unfolding conjunct1 [OF c] g using rm other by (auto simp: map_insert_at)
qed

lemma moves_row_tree_ok:
  assumes ok: "tree_ok rows" and m: "moves_row r p i p' k upd rows" shows "tree_ok (map upd rows)"
proof -
  note M = moves_rowD [OF m]
  have par: "bm_parent (upd x) = (if x = r then Some p' else bm_parent x)" if "x \<in> set rows" for x using M(10,13) that by simp
  let ?R = "parent_rel rows - {(p, bm_id r)}"
  have rel: "parent_rel (map upd rows) \<subseteq> insert (p', bm_id r) (parent_rel rows)"
    using M(1,7) par by (auto simp: parent_rel_def split: if_splits)
  have "(bm_id r, p') \<notin> (parent_rel rows)\<^sup>*" using M(5) by (simp add: subtree_def)
  then have "wf (insert (p', bm_id r) (parent_rel rows))" using tree_okD(5) [OF ok] by (simp add: wf_insert)
  then have "wf (parent_rel (map upd rows))" using rel by (rule wf_subset)
  moreover have "distinct (map bm_id (map upd rows))" "distinct (map bm_guid (map upd rows))"
    using tree_okD(1,2) [OF ok] M(7,8) by (simp_all add: comp_def)
  moreover have "row_ok (upd x)" if "x \<in> set rows" for x
    using tree_okD(3) [OF ok that] M(8,9,12,13,14) that by (cases "x = r") (auto simp: row_ok_def)
  moreover have "parents_ok (map upd rows)"
    unfolding parents_ok_def
  proof (intro ballI allI impI)
    fix y a assume "y \<in> set (map upd rows)" and a: "bm_parent y = Some a"
    then obtain x where x: "x \<in> set rows" "y = upd x" by auto
    have "\<exists>q \<in> set rows. bm_id q = a \<and> bm_type q = bookmark_type_u8 Folder"
      using par [OF x(1)] a x M(4) tree_okD(4) [OF ok] unfolding parents_ok_def by (cases "x = r") auto
    then show "\<exists>q \<in> set (map upd rows). bm_id q = a \<and> bm_type q = bookmark_type_u8 Folder" using M(7,9) by auto
  qed
  ultimately show ?thesis using moves_row_children(1) [OF ok m] by (simp add: tree_ok_def)
qed

lemma moves_row_kids:
  assumes ok: "tree_ok rows" and m: "moves_row r p i p' k upd rows" and q: "q \<in> set rows" "bm_id q = p'"
  shows "kids (map upd rows) g = (if g = bm_guid q then insert_at k (bm_guid r) (removeAll (bm_guid r) (kids rows g))
     else removeAll (bm_guid r) (kids rows g))"
proof -
  note M = moves_rowD [OF m]
  have at: "item_at (map upd rows) g = map_option upd (item_at rows g)" using M(8) by (rule item_at_map)
  show ?thesis
  proof (cases "item_at rows g")
    case None
    moreover have "g \<noteq> bm_guid q" using None q(1) by (auto simp: item_at_None)
    ultimately show ?thesis using at by (simp add: kids_def)
  next
    case (Some x)
    note x = item_at_Some [OF Some]
    have "g = bm_guid q \<longleftrightarrow> bm_id x = p'"
      using x q id_unique [OF tree_okD(1) [OF ok], of x q] guid_unique [OF tree_okD(2) [OF ok], of x q] by auto
    then show ?thesis using Some at M(7) moves_row_children(2) [OF ok m, of "bm_id x"] by (simp add: kids_def)
  qed
qed

section \<open>Cycles\<close>

text \<open>A folder that has become its own ancestor makes the query for the ancestors run forever.\<close>

lemma folder_parent_row:
  "distinct (map bm_id rows) \<Longrightarrow> x \<in> set rows \<Longrightarrow>
     folder_parent rows (bm_id x) = (if bm_type x = bookmark_type_u8 Folder then bm_parent x else None)"
  using find_unique [of bm_id rows x] by (simp add: folder_parent_def)

lemma moved_below_itself:
  assumes ok: "tree_ok rows" and r: "r \<in> set rows" and u: "\<And>x. bm_id (upd x) = bm_id x" "\<And>x. bm_type (upd x) = bm_type x"
    and par: "\<And>x. x \<in> set rows \<Longrightarrow> bm_parent (upd x) = (if x = r then Some p' else bm_parent x)"
    and q: "q \<in> set rows" "bm_id q = p'" "bm_type q = bookmark_type_u8 Folder" and below: "p' \<in> subtree rows (bm_id r)"
  shows "ancestors (map upd rows) p' = None"
proof (rule ancestors_cycle)
  let ?rows' = "map upd rows"
  let ?F = "{(a, p). folder_parent ?rows' a = Some p}"
  have d: "distinct (map bm_id ?rows')" using tree_okD(1) [OF ok] u(1) by (simp add: comp_def)
  have fp: "folder_parent ?rows' (bm_id x) = (if bm_type x = bookmark_type_u8 Folder then if x = r then Some p' else bm_parent x else None)"
    if "x \<in> set rows" for x
    using folder_parent_row [OF d, of "upd x"] that u par [OF that] by simp
  have up: "(bm_id r, i) \<in> (parent_rel rows)\<^sup>* \<Longrightarrow> x \<in> set rows \<Longrightarrow> bm_id x = i \<Longrightarrow> bm_type x = bookmark_type_u8 Folder \<Longrightarrow>
      bm_type r = bookmark_type_u8 Folder \<and> (i, bm_id r) \<in> ?F\<^sup>*" for i x
  proof (induction arbitrary: x rule: rtrancl_induct)
    case base
    then show ?case using id_unique [OF tree_okD(1) [OF ok], of x r] r by simp
  next
    case (step a i)
    then obtain y where y: "y \<in> set rows" "bm_id y = i" "bm_parent y = Some a" by (auto simp: parent_rel_def)
    then have yx: "y = x" using step.prems id_unique [OF tree_okD(1) [OF ok], of y x] by simp
    obtain z where z: "z \<in> set rows" "bm_id z = a" "bm_type z = bookmark_type_u8 Folder"
      using tree_okD(4) [OF ok] y unfolding parents_ok_def by blast
    note IH = step.IH [OF z]
    show ?case
    proof (cases "x = r")
      case False
      then have "(i, a) \<in> ?F" using fp [OF step.prems(1)] step.prems y yx by simp
      then show ?thesis using IH by (auto intro: converse_rtrancl_into_rtrancl)
    qed (use IH step.prems in simp)
  qed
  have "bm_type r = bookmark_type_u8 Folder \<and> (p', bm_id r) \<in> ?F\<^sup>*"
    using up [of p' q] q below by (simp add: subtree_def)
  moreover have "(bm_id r, p') \<in> ?F" if "bm_type r = bookmark_type_u8 Folder" using fp [OF r] that by simp
  ultimately show "(p', p') \<in> ?F\<^sup>+" by (blast intro: rtrancl_into_trancl1)
qed

end
