(* ===== verification/BookmarkCorrect.thy ===== *)
theory BookmarkCorrect
  imports BookmarkMove
begin

text \<open>
  Bookmark storage implements the tree: an insertion, a deletion and an update act on it as the
  operation of the same name, and keep the invariant of the tables.
\<close>

section \<open>Pages\<close>

text \<open>
  The pages against the bookmarks and tags that point to them: the pointers exist, and the count of
  foreign references, which protects a page from being expired, is the number of the pointers.
\<close>

definition uses :: "RowId option list \<Rightarrow> (RowId \<times> RowId) list \<Rightarrow> RowId \<Rightarrow> int" where
  "uses fks tags i = int (count_list fks (Some i)) + int (count_list (map snd tags) i)"

definition pages_ok :: "PlaceRow list \<Rightarrow> RowId option list \<Rightarrow> (RowId \<times> RowId) list \<Rightarrow> bool" where
  "pages_ok ps fks tags \<longleftrightarrow> distinct (map pl_id ps) \<and> (\<forall>i. Some i \<in> set fks \<longrightarrow> i \<in> pl_id ` set ps) \<and> snd ` set tags \<subseteq> pl_id ` set ps \<and>
     (\<forall>p \<in> set ps. pl_foreign_count p = uses fks tags (pl_id p))"

definition store_ok :: "PlacesTables \<Rightarrow> bool" where
  "store_ok t \<longleftrightarrow> tree_ok (moz_bookmarks t) \<and>
     pages_ok (moz_places t) (map bm_fk (moz_bookmarks t)) (moz_tags_relation t)"

lemma find_bump:
  "find (\<lambda>p. pl_id p = j) (bump_foreign_count fk n ps) =
     map_option (\<lambda>p. if Some (pl_id p) = fk then p\<lparr>pl_foreign_count := pl_foreign_count p + n\<rparr> else p) (find (\<lambda>p. pl_id p = j) ps)"
  by (induction ps) (auto simp: bump_foreign_count_def)

lemma page_url_bump [simp]: "page_url (bump_foreign_count fk n ps) i = page_url ps i"
  by (auto simp: page_url_def find_bump option.map_comp comp_def split: option.splits intro!: option.map_cong)

lemma page_url_unique:
  assumes "distinct (map pl_id ps)" "p \<in> set ps" shows "page_url ps (Some (pl_id p)) = Some (pl_url p)"
  using find_unique [OF assms] by (simp add: page_url_def)

lemma pl_id_bump [simp]: "map pl_id (bump_foreign_count fk n ps) = map pl_id ps" "pl_id ` set (bump_foreign_count fk n ps) = pl_id ` set ps"
proof -
  show *: "map pl_id (bump_foreign_count fk n ps) = map pl_id ps" by (simp add: bump_foreign_count_def)
  show "pl_id ` set (bump_foreign_count fk n ps) = pl_id ` set ps" unfolding set_map [symmetric] * ..
qed

text \<open>A page may be added, with no reference to it.\<close>

definition grown :: "PlaceRow list \<Rightarrow> PlaceRow list \<Rightarrow> bool" where
  "grown ps ps' \<longleftrightarrow> ps' = ps \<or> (\<exists>p. ps' = ps @ [p] \<and> pl_foreign_count p = 0 \<and> pl_id p \<notin> pl_id ` set ps)"

lemma page_added_grown:
  "t' = t \<or> page_added t t' \<Longrightarrow> grown (moz_places t) (moz_places t') \<and> moz_bookmarks t' = moz_bookmarks t \<and>
     moz_tags_relation t' = moz_tags_relation t"
  by (auto simp: page_added_def grown_def)

lemma grown_ok:
  assumes "pages_ok ps fks tags" "grown ps ps'" shows "pages_ok ps' fks tags"
proof -
  have "uses fks tags i = 0" if "i \<notin> pl_id ` set ps" for i
  proof -
    have "Some i \<notin> set fks" "i \<notin> set (map snd tags)" using assms(1) that unfolding pages_ok_def set_map by blast+
    then have "count_list fks (Some i) = 0" "count_list (map snd tags) i = 0" unfolding count_list_0_iff by blast+
    then show ?thesis by (simp add: uses_def)
  qed
  then show ?thesis using assms by (auto simp: pages_ok_def grown_def)
qed

lemma grown_url: "grown ps ps' \<Longrightarrow> i \<in> pl_id ` set ps \<Longrightarrow> page_url ps' (Some i) = page_url ps (Some i)"
  by (auto simp: grown_def page_url_def find_append find_None_iff split: option.splits)

lemma grown_urls:
  assumes "pages_ok ps fks tags" "grown ps ps'" "fk \<in> set fks" shows "page_url ps' fk = page_url ps fk"
proof (cases fk)
  case (Some i)
  then have "i \<in> pl_id ` set ps" using assms(1,3) by (simp add: pages_ok_def)
  then show ?thesis using grown_url [OF assms(2)] Some by simp
qed (simp add: page_url_def)

text \<open>References move together with the counts.\<close>

lemma bump_ok:
  assumes "pages_ok ps fks tags" "\<And>i. Some i \<in> set fks' \<Longrightarrow> i \<in> pl_id ` set ps"
    and "\<And>i. int (count_list fks' (Some i)) = int (count_list fks (Some i)) + (if fk = Some i then n else 0)"
  shows "pages_ok (bump_foreign_count fk n ps) fks' tags"
proof -
  have "pl_foreign_count q = uses fks' tags (pl_id q)" if q: "q \<in> set (bump_foreign_count fk n ps)" for q
  proof -
    obtain p where "p \<in> set ps" "q = (if Some (pl_id p) = fk then p\<lparr>pl_foreign_count := pl_foreign_count p + n\<rparr> else p)"
      using q by (auto simp: bump_foreign_count_def)
    then show ?thesis using assms(1,3) by (auto simp: pages_ok_def uses_def)
  qed
  then show ?thesis using assms(1,2) by (simp add: pages_ok_def)
qed

lemma item_of_eqI:
  assumes "bm_type r' = bm_type r" "bm_fk r' = bm_fk r" "bm_title r' = bm_title r" "page_url ps' (bm_fk r) = page_url ps (bm_fk r)"
  shows "item_of ps' r' = item_of ps r"
  by (simp add: item_of_def assms)

lemma forest_items: "fo_items (forest t) g = map_option (item_of (moz_places t)) (item_at (moz_bookmarks t) g)"
  by (simp add: forest_def)

lemma forest_kids: "fo_kids (forest t) = kids (moz_bookmarks t)"
  by (simp add: forest_def)

section \<open>Insertion\<close>

definition new_item :: "InsertableItem \<Rightarrow> BookmarkItem" where
  "new_item bm = \<lparr>it_type = insertable_type bm, it_title = nullif_empty (maybe_truncate_title (insertable_title bm)),
     it_url = (case bm of InsertBookmark b \<Rightarrow> Some (inb_url b) | _ \<Rightarrow> None)\<rparr>"

lemma insert_row_Ok:
  assumes "insert_bookmark_row r t = Ok t'"
  shows "\<exists>new. new = r\<lparr>bm_id := bm_id new\<rparr> \<and> bookmark_checks t new \<and> bm_guid new \<notin> bm_guid ` set (moz_bookmarks t) \<and>
    bm_id new \<notin> bm_id ` set (moz_bookmarks t) \<and> moz_bookmarks t' = moz_bookmarks t @ [new] \<and>
    moz_places t' = bump_foreign_count (bm_fk new) 1 (moz_places t) \<and> moz_tags_relation t' = moz_tags_relation t"
  using assms next_rowid_fresh [of "map bm_id (moz_bookmarks t)"]
  by (intro exI [of _ "r\<lparr>bm_id := next_rowid (map bm_id (moz_bookmarks t))\<rparr>"])
    (auto simp: insert_bookmark_row_def Let_def split: if_splits)

lemma moz_bump_counter [simp]:
  "moz_bookmarks (bump_counter i t) = map (touched {} 0 (\<lambda>j. if j = i then 1 else 0)) (moz_bookmarks t)"
  "moz_places (bump_counter i t) = moz_places t" "moz_tags_relation (bump_counter i t) = moz_tags_relation t"
  by (simp_all add: bump_counter_touched)

lemma make_room_frame [simp]:
  "moz_places (make_room pos p n t) = moz_places t" "moz_tags_relation (make_room pos p n t) = moz_tags_relation t"
  by (simp_all add: make_room_def shift_from_def update_bookmarks_def split: BookmarkPosition.splits)

lemma new_row_item:
  assumes "is_new_row bm p k t r" "distinct (map pl_id (moz_places t))"
  shows "item_of (moz_places t) r = new_item bm"
proof (cases bm)
  case (InsertBookmark b)
  then obtain q where "q \<in> set (moz_places t)" "bm_fk r = Some (pl_id q)" "pl_url q = inb_url b" using assms(1) by (auto simp: is_new_row_def)
  then show ?thesis using assms InsertBookmark page_url_unique [OF assms(2)]
    by (simp add: is_new_row_def item_of_def new_item_def from_u8_with_valid_url_def bookmark_type_from_u8_def)
qed (use assms in \<open>simp_all add: is_new_row_def item_of_def new_item_def from_u8_with_valid_url_def bookmark_type_from_u8_def page_url_def\<close>)

lemma new_row_ok: "is_new_row bm p k t r \<Longrightarrow> row_ok r"
  by (cases bm) (auto simp: is_new_row_def row_ok_def)

lemma is_new_row_id: "is_new_row bm p k t (r\<lparr>bm_id := i\<rparr>) = is_new_row bm p k t r"
  by (simp add: is_new_row_def split: option.splits InsertableItem.splits)

lemma item_of_id [simp]: "item_of ps (r\<lparr>bm_id := i\<rparr>) = item_of ps r"
  by (simp add: item_of_def)

lemma insert_adds_row:
  assumes ok: "store_ok t" and e: "insert_effect bm t guid t'"
  defines "common \<equiv> insertable_common bm"
  shows "\<exists>parent new ps. adds_row parent new (clip (in_position common) (length (kids (moz_bookmarks t) (bm_guid parent))))
      (moz_bookmarks t) (moz_bookmarks t') \<and> bm_guid parent = in_parent_guid common \<and> bm_guid new = guid \<and>
      (\<forall>g. in_guid common = Some g \<longrightarrow> g = guid) \<and> grown (moz_places t) ps \<and> item_of ps new = new_item bm \<and>
      (\<forall>i. bm_fk new = Some i \<longrightarrow> i \<in> pl_id ` set ps) \<and> moz_places t' = bump_foreign_count (bm_fk new) 1 ps \<and>
      moz_tags_relation t' = moz_tags_relation t"
proof -
  let ?rows = "moz_bookmarks t" and ?pos = "in_position common"
  have T: "tree_ok ?rows" and P: "pages_ok (moz_places t) (map bm_fk ?rows) (moz_tags_relation t)" using ok by (auto simp: store_ok_def)
  obtain parent t2 t3 r where parent: "find (\<lambda>r. bm_guid r = in_parent_guid common) ?rows = Some parent"
      "from_u8_with_valid_url (bm_type parent) (bm_fk parent \<noteq> None) = Folder"
    and t2: "t2 = make_room ?pos (bm_id parent) (length (child_rows ?rows (bm_id parent))) t \<or>
        page_added (make_room ?pos (bm_id parent) (length (child_rows ?rows (bm_id parent))) t) t2"
    and r: "is_new_row bm (bm_id parent) (clip ?pos (length (child_rows ?rows (bm_id parent)))) t2 r" "bm_guid r = guid"
    and t3: "insert_bookmark_row r t2 = Ok t3" and t': "t' = bump_counter (bm_id parent) t3"
    using e unfolding insert_effect_def common_def Let_def by blast
  let ?p = "bm_id parent"
  define k where "k = clip ?pos (length (child_rows ?rows ?p))"
  have pin: "parent \<in> set ?rows" "bm_guid parent = in_parent_guid common" using find_in_set [OF parent(1)] by auto
  have type: "bm_type parent = bookmark_type_u8 Folder" using row_ok_type [OF tree_okD(3) [OF T pin(1)]] parent(2) by simp
  have kids: "kids ?rows (bm_guid parent) = map bm_guid (children ?rows ?p)"
    using item_at_unique [OF tree_okD(2) [OF T] pin(1)] by (simp add: kids_def)
  have t2': "grown (moz_places t) (moz_places t2)" "moz_bookmarks t2 = map (shift_row ?p k 1) ?rows" "moz_tags_relation t2 = moz_tags_relation t"
    using page_added_grown [OF t2] make_room_rows [OF tree_okD(6) [OF T]] by (simp_all add: k_def)
  obtain new where new: "new = r\<lparr>bm_id := bm_id new\<rparr>" "bookmark_checks t2 new" "bm_guid new \<notin> bm_guid ` set (moz_bookmarks t2)"
      "bm_id new \<notin> bm_id ` set (moz_bookmarks t2)" "moz_bookmarks t3 = moz_bookmarks t2 @ [new]"
      "moz_places t3 = bump_foreign_count (bm_fk new) 1 (moz_places t2)" "moz_tags_relation t3 = moz_tags_relation t2"
    using insert_row_Ok [OF t3] by blast
  have isnew: "is_new_row bm ?p k t2 new" using r(1) new(1) is_new_row_id [of bm ?p k t2 "bm_id new" r] by (simp add: k_def)
  have fresh: "bm_id new \<notin> bm_id ` set ?rows" "bm_guid new \<notin> bm_guid ` set ?rows"
    using new(3,4) by (simp_all add: t2'(2) image_image)
  let ?upd = "\<lambda>r. touched {} 0 (\<lambda>j. if j = ?p then 1 else 0) (if bm_id r = bm_id new then r else shift_row ?p k 1 r)"
  have rows': "moz_bookmarks t' = map ?upd (?rows @ [new])" using fresh(1) by (auto simp: t' new(5) t2'(2) image_iff)
  have "adds_row parent new k ?rows (moz_bookmarks t')"
    unfolding adds_row_def
    using pin(1) type fresh isnew new_row_ok [OF isnew] clip_le [of ?pos "length (child_rows ?rows ?p)"]
    by (intro conjI exI [of _ ?upd]) (auto simp: is_new_row_def k_def length_children rows' shift_row_def image_iff)
  moreover have "item_of (moz_places t2) new = new_item bm"
    using new_row_item [OF isnew] grown_ok [OF P t2'(1)] by (simp add: pages_ok_def)
  moreover have "\<forall>i. bm_fk new = Some i \<longrightarrow> i \<in> pl_id ` set (moz_places t2)"
    using new(2) by (auto simp: bookmark_checks_def)
  moreover have "\<forall>g. in_guid common = Some g \<longrightarrow> g = guid" "bm_guid new = guid"
    using r new(1) by (auto simp: is_new_row_def common_def dest: arg_cong [where f = bm_guid])
  ultimately show ?thesis
    using pin(2) t2'(1,3) new(6,7) kids by (intro exI [of _ parent] exI [of _ new] exI [of _ "moz_places t2"]) (simp add: t' k_def length_children)
qed

lemma insert_refines:
  assumes ok: "store_ok t" and e: "insert_effect bm t guid t'"
  defines "common \<equiv> insertable_common bm" and "T \<equiv> forest t"
  shows "store_ok t'" "fo_items T guid = None" "\<forall>g. in_guid common = Some g \<longrightarrow> g = guid"
    "map_option it_type (fo_items T (in_parent_guid common)) = Some Folder"
    "forest t' = add_item guid (new_item bm) (in_parent_guid common) (clip (in_position common) (length (fo_kids T (in_parent_guid common)))) T"
proof -
  let ?rows = "moz_bookmarks t"
  have T: "tree_ok ?rows" and P: "pages_ok (moz_places t) (map bm_fk ?rows) (moz_tags_relation t)" using ok by (auto simp: store_ok_def)
  obtain parent new ps where a: "adds_row parent new (clip (in_position common) (length (kids ?rows (bm_guid parent)))) ?rows (moz_bookmarks t')"
      and g: "bm_guid parent = in_parent_guid common" "bm_guid new = guid" "\<forall>g. in_guid common = Some g \<longrightarrow> g = guid"
      and ps: "grown (moz_places t) ps" "item_of ps new = new_item bm" "\<forall>i. bm_fk new = Some i \<longrightarrow> i \<in> pl_id ` set ps"
        "moz_places t' = bump_foreign_count (bm_fk new) 1 ps" "moz_tags_relation t' = moz_tags_relation t"
    using insert_adds_row [OF ok e] unfolding common_def by blast
  obtain upd where u: "\<And>r. bm_type (upd r) = bm_type r \<and> bm_fk (upd r) = bm_fk r \<and> bm_title (upd r) = bm_title r"
      "item_at (moz_bookmarks t') = (\<lambda>g. map_option upd (((item_at ?rows)(guid \<mapsto> new)) g))" "moz_bookmarks t' = map upd (?rows @ [new])"
    using adds_row_items [OF a] g(2) by blast
  have new: "parent \<in> set ?rows" "bm_type parent = bookmark_type_u8 Folder" "bm_guid new \<notin> bm_guid ` set ?rows" using a by (auto simp: adds_row_def)
  have P': "pages_ok ps (map bm_fk ?rows) (moz_tags_relation t)" by (rule grown_ok [OF P ps(1)])
  have "pages_ok (moz_places t') (map bm_fk (moz_bookmarks t')) (moz_tags_relation t')"
    unfolding ps(4,5) by (rule bump_ok [OF P']) (use P' ps(3) u(1) in \<open>auto simp: u(3) comp_def pages_ok_def\<close>)
  then show "store_ok t'" using adds_row_tree_ok [OF T a] by (simp add: store_ok_def)
  show "\<forall>g. in_guid common = Some g \<longrightarrow> g = guid" by (rule g(3))
  have "item_at ?rows guid = None" using new(3) g(2) by (auto simp: item_at_None)
  then show "fo_items T guid = None" by (simp add: T_def forest_items)
  show "map_option it_type (fo_items T (in_parent_guid common)) = Some Folder"
    using item_at_unique [OF tree_okD(2) [OF T] new(1)] g(1) row_ok_type [OF tree_okD(3) [OF T new(1)]] new(2)
    by (simp add: T_def forest_items item_of_def)
  have url: "page_url ps (bm_fk r) = page_url (moz_places t) (bm_fk r)" if "r \<in> set ?rows" for r
    using that by (intro grown_urls [OF P ps(1)]) simp
  have "item_of (moz_places t') (upd r) = item_of ps r" for r
    using u(1) ps(4) by (intro item_of_eqI) simp_all
  moreover have "item_of ps r = item_of (moz_places t) r" if "r \<in> set ?rows" for r
    using url [OF that] by (intro item_of_eqI) simp_all
  ultimately have "fo_items (forest t') = (fo_items T)(guid \<mapsto> new_item bm)"
    using ps(2) by (auto simp: T_def forest_items u(2) option.map_comp comp_def fun_eq_iff dest!: item_at_Some intro!: option.map_cong)
  moreover have "fo_kids (forest t') = (fo_kids T)(in_parent_guid common :=
      insert_at (clip (in_position common) (length (fo_kids T (in_parent_guid common)))) guid (fo_kids T (in_parent_guid common)))"
    using adds_row_kids [OF T a] g by (simp add: T_def forest_kids)
  ultimately show "forest t' = add_item guid (new_item bm) (in_parent_guid common)
      (clip (in_position common) (length (fo_kids T (in_parent_guid common)))) T"
    by (simp add: add_item_def)
qed

section \<open>Deletion\<close>

lemma pages_ok_mset:
  assumes "mset fks = mset fks'" shows "pages_ok ps fks tags = pages_ok ps fks' tags"
proof -
  have "count_list xs x = count (mset xs) x" for xs :: "RowId option list" and x by (induction xs) auto
  then have "uses fks tags = uses fks' tags" using assms by (simp add: uses_def fun_eq_iff)
  then show ?thesis using mset_eq_setD [OF assms] by (simp add: pages_ok_def)
qed

lemma mset_map_split: "mset (map f (filter (\<lambda>x. \<not> P x) xs) @ map f (filter P xs)) = mset (map f xs)"
  by (induction xs) auto

lemma fold_bump_ok:
  "pages_ok ps (fks @ map bm_fk gone) tags \<Longrightarrow> pages_ok (fold (\<lambda>r. bump_foreign_count (bm_fk r) (- 1)) gone ps) fks tags"
proof (induction gone arbitrary: ps)
  case (Cons r gone)
  have "pages_ok (bump_foreign_count (bm_fk r) (- 1) ps) (fks @ map bm_fk gone) tags"
    by (rule bump_ok [OF Cons.prems]) (use Cons.prems in \<open>auto simp: pages_ok_def\<close>)
  then show ?case using Cons.IH by simp
qed simp

lemma page_url_fold_bump: "page_url (fold (\<lambda>r. bump_foreign_count (f r) n) rs ps) i = page_url ps i"
  by (induction rs arbitrary: ps) auto

text \<open>The rows that go, and their tombstones.\<close>

lemma delete_removes_row:
  assumes ok: "store_ok t" and r: "find (\<lambda>r. bm_guid r = guid) (moz_bookmarks t) = Some r" "bm_parent r = Some p" "bm_position r = int k"
    and d: "delete_bookmark_row time (bm_id r) (shift_from p k (- 1) t) = Ok t'"
  defines "D \<equiv> subtree (moz_bookmarks t) (bm_id r)"
  shows "removes_row r p (moz_bookmarks t) (moz_bookmarks t')" "moz_tags_relation t' = moz_tags_relation t"
    "moz_places t' = fold (\<lambda>r. bump_foreign_count (bm_fk r) (- 1))
       (map (shift_row p k (- 1)) (filter (\<lambda>x. bm_id x \<in> D) (moz_bookmarks t))) (moz_places t)"
    "moz_bookmarks_deleted t' = moz_bookmarks_deleted t @
       map (\<lambda>x. (bm_guid x, time)) (filter (\<lambda>x. bm_syncStatus x = 2 \<and> bm_id x \<in> D) (moz_bookmarks t))"
proof -
  let ?t1 = "shift_from p k (- 1) t" and ?rows = "moz_bookmarks t"
  have rin: "r \<in> set ?rows" using find_in_set [OF r(1)] by simp
  have rel: "parent_rel (moz_bookmarks ?t1) = parent_rel ?rows" unfolding moz_bookmarks_shift_from by (rule parent_rel_map) simp
  have D: "set (deleted_with (moz_bookmarks ?t1) (bm_id r)) = D"
    using rin by (subst deleted_with_set) (auto simp: moz_bookmarks_shift_from rel [unfolded moz_bookmarks_shift_from] D_def subtree_def)
  have frame: "moz_places ?t1 = moz_places t" "moz_tags_relation ?t1 = moz_tags_relation t" "moz_bookmarks_deleted ?t1 = moz_bookmarks_deleted t"
    by (simp_all add: shift_from_def update_bookmarks_def)
  have t': "t' = ?t1\<lparr>moz_bookmarks := filter (\<lambda>r. bm_id r \<notin> D) (moz_bookmarks ?t1),
      moz_places := fold (\<lambda>r. bump_foreign_count (bm_fk r) (- 1)) (filter (\<lambda>r. bm_id r \<in> D) (moz_bookmarks ?t1)) (moz_places ?t1),
      moz_bookmarks_deleted := moz_bookmarks_deleted ?t1 @
        map (\<lambda>g. (g, time)) (map bm_guid (filter (\<lambda>r. bm_syncStatus r = 2) (filter (\<lambda>r. bm_id r \<in> D) (moz_bookmarks ?t1))))\<rparr>"
    using d unfolding delete_bookmark_row_def Let_def D by (auto split: if_splits)
  show "moz_tags_relation t' = moz_tags_relation t" by (simp add: t' frame)
  show "removes_row r p ?rows (moz_bookmarks t')"
    using rin r(2,3) by (simp add: removes_row_def t' moz_bookmarks_shift_from filter_map comp_def D_def)
  show "moz_places t' = fold (\<lambda>r. bump_foreign_count (bm_fk r) (- 1))
       (map (shift_row p k (- 1)) (filter (\<lambda>x. bm_id x \<in> D) ?rows)) (moz_places t)"
    by (simp add: t' frame moz_bookmarks_shift_from filter_map comp_def)
  show "moz_bookmarks_deleted t' = moz_bookmarks_deleted t @
       map (\<lambda>x. (bm_guid x, time)) (filter (\<lambda>x. bm_syncStatus x = 2 \<and> bm_id x \<in> D) ?rows)"
    by (simp add: t' frame moz_bookmarks_shift_from filter_map comp_def conj_commute)
qed

lemma delete_refines:
  assumes ok: "store_ok t" and e: "delete_effect guid t True t'"
  shows "store_ok t'" "fo_items (forest t) guid \<noteq> None" "forest t' = remove_item guid (forest t)"
    "\<exists>time. moz_bookmarks_deleted t' = moz_bookmarks_deleted t @ map (\<lambda>x. (bm_guid x, time))
       (filter (\<lambda>x. bm_syncStatus x = 2 \<and> bm_guid x \<in> below (forest t) guid) (moz_bookmarks t))"
proof -
  let ?rows = "moz_bookmarks t"
  have T: "tree_ok ?rows" and P: "pages_ok (moz_places t) (map bm_fk ?rows) (moz_tags_relation t)" using ok by (auto simp: store_ok_def)
  obtain r p k time where r: "find (\<lambda>r. bm_guid r = guid) ?rows = Some r" "bm_parent r = Some p" "bm_position r = int k"
      and d: "delete_bookmark_row time (bm_id r) (shift_from p k (- 1) t) = Ok t'"
    using e by (auto simp: delete_effect_def)
  let ?D = "subtree ?rows (bm_id r)" and ?upd = "shift_row p k (- 1)"
  note rin = find_in_set [OF r(1)] and del = delete_removes_row [OF ok r d]
  have below: "below (forest t) guid = bm_guid ` {x \<in> set ?rows. bm_id x \<in> ?D}"
    using below_subtree [OF T, of r] rin by (simp add: below_def forest_kids)
  have rows': "moz_bookmarks t' = map ?upd (filter (\<lambda>x. bm_id x \<notin> ?D) ?rows)" using del(1) r(3) by (simp add: removes_row_def)
  have split: "mset (map bm_fk (filter (\<lambda>x. bm_id x \<notin> ?D) ?rows) @ map bm_fk (filter (\<lambda>x. bm_id x \<in> ?D) ?rows)) = mset (map bm_fk ?rows)"
    by (rule mset_map_split)
  have "pages_ok (moz_places t) (map bm_fk (filter (\<lambda>x. bm_id x \<notin> ?D) ?rows) @
      map bm_fk (map ?upd (filter (\<lambda>x. bm_id x \<in> ?D) ?rows))) (moz_tags_relation t)"
    using P pages_ok_mset [OF split] by (simp add: comp_def)
  from fold_bump_ok [OF this] have "pages_ok (moz_places t') (map bm_fk (moz_bookmarks t')) (moz_tags_relation t')"
    unfolding del(2,3) rows' by (simp add: comp_def)
  then show "store_ok t'" using removes_row_tree_ok [OF T del(1)] by (simp add: store_ok_def)
  show "fo_items (forest t) guid \<noteq> None" using r(1) by (simp add: forest_items item_at_def)
  have "item_of (moz_places t') (?upd x) = item_of (moz_places t) x" for x
    by (rule item_of_eqI) (simp_all add: del(3) page_url_fold_bump)
  then have "fo_items (forest t') = fo_items (forest t) |` (- below (forest t) guid)"
    using removes_row_items [OF T del(1)] r(3) unfolding below
    by (auto simp: forest_items restrict_map_def fun_eq_iff option.map_comp comp_def)
  moreover have "fo_kids (forest t') = (\<lambda>a. if a \<in> below (forest t) guid then [] else removeAll guid (fo_kids (forest t) a))"
    using removes_row_kids [OF T del(1)] rin unfolding below by (auto simp: forest_kids fun_eq_iff)
  ultimately show "forest t' = remove_item guid (forest t)" by (simp add: remove_item_def)
  have "filter (\<lambda>x. bm_syncStatus x = 2 \<and> bm_id x \<in> ?D) ?rows = filter (\<lambda>x. bm_syncStatus x = 2 \<and> bm_guid x \<in> below (forest t) guid) ?rows"
    using guid_unique [OF tree_okD(2) [OF T]] unfolding below by (intro filter_cong) (auto simp: image_iff)
  then show "\<exists>time. moz_bookmarks_deleted t' = moz_bookmarks_deleted t @ map (\<lambda>x. (bm_guid x, time))
       (filter (\<lambda>x. bm_syncStatus x = 2 \<and> bm_guid x \<in> below (forest t) guid) ?rows)"
    using del(4) by (intro exI [of _ time]) simp
qed

end
