(* ===== verification/BookmarkUpdate.thy ===== *)
theory BookmarkUpdate
  imports BookmarkCorrect
begin

text \<open>
  Updates of bookmarks on the tree: new titles and URLs, moves in a folder and between folders, the move
  that never ends and the one that leaves a gap.
\<close>

definition same_but_position :: "(BookmarkRow \<Rightarrow> BookmarkRow) \<Rightarrow> bool" where
  "same_but_position s \<longleftrightarrow> (\<forall>x. \<exists>n. s x = x\<lparr>bm_position := n\<rparr>)"

lemma same_but_positionD:
  assumes "same_but_position s"
  shows "bm_id (s x) = bm_id x" "bm_guid (s x) = bm_guid x" "bm_type (s x) = bm_type x" "bm_parent (s x) = bm_parent x"
    "bm_fk (s x) = bm_fk x" "bm_title (s x) = bm_title x" "bm_syncStatus (s x) = bm_syncStatus x"
proof -
  obtain n where "s x = x\<lparr>bm_position := n\<rparr>" using assms unfolding same_but_position_def by blast
  then show "bm_id (s x) = bm_id x" "bm_guid (s x) = bm_guid x" "bm_type (s x) = bm_type x" "bm_parent (s x) = bm_parent x"
    "bm_fk (s x) = bm_fk x" "bm_title (s x) = bm_title x" "bm_syncStatus (s x) = bm_syncStatus x" by simp_all
qed

lemma same_but_position_id: "same_but_position (\<lambda>x. x)"
  unfolding same_but_position_def
proof
  show "\<exists>n. x = x\<lparr>bm_position := n\<rparr>" for x :: BookmarkRow by (rule exI [of _ "bm_position x"]) simp
qed

lemma same_but_position_if: "same_but_position (\<lambda>x. if P x then x\<lparr>bm_position := f x\<rparr> else x)"
  unfolding same_but_position_def
proof
  show "\<exists>n. (if P x then x\<lparr>bm_position := f x\<rparr> else x) = x\<lparr>bm_position := n\<rparr>" for x
    by (rule exI [of _ "if P x then f x else bm_position x"]) simp
qed

lemma shift_row_position: "same_but_position (shift_row p k d)"
  using same_but_position_if [of "\<lambda>r. bm_parent r = Some p \<and> int k \<le> bm_position r" "\<lambda>r. bm_position r + d"] by (simp add: shift_row_def [abs_def])

lemma same_but_position_comp: "same_but_position s \<Longrightarrow> same_but_position s' \<Longrightarrow> same_but_position (\<lambda>x. s (s' x))"
  unfolding same_but_position_def
proof
  fix x
  assume s: "\<forall>x. \<exists>n. s x = x\<lparr>bm_position := n\<rparr>" "\<forall>x. \<exists>n. s' x = x\<lparr>bm_position := n\<rparr>"
  obtain n where n: "s' x = x\<lparr>bm_position := n\<rparr>" using s(2) by blast
  obtain m where "s (s' x) = (s' x)\<lparr>bm_position := m\<rparr>" using s(1) by blast
  then show "\<exists>n. s (s' x) = x\<lparr>bm_position := n\<rparr>" using n by auto
qed

text \<open>The statements that make room for a moved row.\<close>

lemma moved_to_rows:
  assumes ok: "tree_ok (moz_bookmarks t)" and r: "r \<in> set (moz_bookmarks t)" "bm_parent r = Some p"
    and m: "moved_to loc r p t p' k t1"
  shows "\<exists>s i. bm_position r = int i \<and> same_but_position s \<and> moz_bookmarks t1 = map s (moz_bookmarks t) \<and>
     (\<forall>x \<in> set (moz_bookmarks t). x \<noteq> r \<longrightarrow> bm_position (s x) = pos_after p i p' k x) \<and>
     moz_places t1 = moz_places t \<and> moz_tags_relation t1 = moz_tags_relation t"
proof -
  let ?rows = "moz_bookmarks t"
  note n = tree_okD(6) [OF ok] and oth = other_position [OF ok r]
  show ?thesis
  proof (cases loc)
    case NoChange
    have "bm_position x = pos_after p k p k x" if "x \<in> set ?rows" "x \<noteq> r" for x
      using oth [of k x] that m NoChange by (auto simp: pos_after_def Let_def)
    then show ?thesis using m NoChange
      by (intro exI [of _ "\<lambda>x. x"] exI [of _ k]) (auto simp: same_but_position_id)
  next
    case (Position pos)
    then obtain i where i: "int i = bm_position r" "t1 = move_between p k i t" "p' = p" using m by auto
    let ?s = "\<lambda>x. if bm_parent x = Some p \<and> int (min i k) \<le> bm_position x \<and> bm_position x \<le> int (max i k)
        then x\<lparr>bm_position := (if k < i then bm_position x + 1 else bm_position x - 1)\<rparr> else x"
    have "bm_position (?s x) = pos_after p i p k x" if "x \<in> set ?rows" "x \<noteq> r" for x
      using oth [of i x] that i by (auto simp: pos_after_def Let_def)
    then show ?thesis using i
      by (intro exI [of _ ?s] exI [of _ i])
        (simp add: same_but_position_if move_between_def update_bookmarks_def)
  next
    case (Parent g pos)
    let ?n = "length (child_rows ?rows p')"
    obtain i where i: "int i = bm_position r" "k = clip pos ?n" "t1 = make_room pos p' ?n (shift_from p i (- 1) t)"
      using m Parent by (auto simp: Let_def)
    let ?s = "\<lambda>x. (if pos = Append then \<lambda>y. y else shift_row p' k 1) (shift_row p i (- 1) x)"
    have rows1: "moz_bookmarks t1 = map ?s ?rows"
      by (cases pos) (simp_all add: i(2,3) make_room_def clip_def moz_bookmarks_shift_from)
    have lt: "bm_position x < int ?n" if "x \<in> set ?rows" "bm_parent x = Some p'" for x
      using children_positions(2) [OF n that] by (simp add: length_children)
    have "bm_position (?s x) = pos_after p i p' k x" if "x \<in> set ?rows" "x \<noteq> r" for x
      using oth [of i x] that i(1,2) lt [of x] by (cases "pos = Append") (auto simp: pos_after_def Let_def shift_row_def clip_def)
    moreover have "same_but_position ?s"
      using shift_row_position same_but_position_comp by (cases "pos = Append") auto
    ultimately show ?thesis using i rows1
      by (intro exI [of _ ?s] exI [of _ i]) (auto simp: shift_from_def update_bookmarks_def)
  qed
qed

lemma filter_by_id: "distinct (map bm_id rows) \<Longrightarrow> r \<in> set rows \<Longrightarrow> filter (\<lambda>x. bm_id x = bm_id r) rows = [r]"
  by (induction rows) (auto simp: filter_empty_conv image_iff)

lemma update_row_Ok:
  assumes d: "distinct (map bm_id rows)" "r \<in> set rows" and s: "same_but_position s" "moz_bookmarks t = map s rows"
    and u: "update_bookmark_row fk p' k title time incr (bm_id r) t = Ok t'"
  defines "write \<equiv> \<lambda>y. y\<lparr>bm_fk := fk, bm_parent := Some p', bm_position := int k, bm_title := title,
     bm_lastModified := time, bm_syncChangeCounter := bm_syncChangeCounter y + (if incr then 1 else 0)\<rparr>"
  shows "bookmark_checks t (write (s r))" "moz_bookmarks t' = map (\<lambda>x. if bm_id x = bm_id r then write (s x) else s x) rows"
    "moz_places t' = (if bm_fk r \<noteq> None \<and> fk \<noteq> None \<and> bm_fk r \<noteq> fk
       then bump_foreign_count (bm_fk r) (- 1) (bump_foreign_count fk 1 (moz_places t)) else moz_places t)"
    "moz_tags_relation t' = moz_tags_relation t"
proof -
  note S = same_but_positionD [OF s(1)]
  have one: "filter (\<lambda>x. bm_id x = bm_id r) (moz_bookmarks t) = [s r]"
    using filter_by_id [OF d] S(1) by (simp add: s(2) filter_map comp_def)
  have t': "t' = (update_bookmarks (\<lambda>x. bm_id x = bm_id r) write t)\<lparr>moz_places := fold (\<lambda>x ps. bump_foreign_count (bm_fk x) (- 1)
      (bump_foreign_count fk 1 ps)) (filter (\<lambda>x. bm_fk x \<noteq> None \<and> fk \<noteq> None \<and> bm_fk x \<noteq> fk) [s r]) (moz_places t)\<rparr>"
    and "bookmark_checks t (write (s r))"
    using u unfolding update_bookmark_row_def Let_def one by (auto simp: write_def split: if_splits)
  then show "bookmark_checks t (write (s r))" by simp
  show "moz_tags_relation t' = moz_tags_relation t" by (simp add: t' update_bookmarks_def)
  show "moz_bookmarks t' = map (\<lambda>x. if bm_id x = bm_id r then write (s x) else s x) rows"
    by (simp add: t' update_bookmarks_def s(2) S(1))
  show "moz_places t' = (if bm_fk r \<noteq> None \<and> fk \<noteq> None \<and> bm_fk r \<noteq> fk
       then bump_foreign_count (bm_fk r) (- 1) (bump_foreign_count fk 1 (moz_places t)) else moz_places t)"
    by (simp add: t' S(5))
qed

text \<open>The references to pages follow the row.\<close>

lemma repointed_ok:
  assumes ok: "pages_ok ps (map bm_fk rows) tags" and d: "distinct rows" "r \<in> set rows"
    and u: "bm_fk (upd r) = fk" "\<And>x. x \<in> set rows \<Longrightarrow> x \<noteq> r \<Longrightarrow> bm_fk (upd x) = bm_fk x"
    and fk: "\<And>i. fk = Some i \<Longrightarrow> i \<in> pl_id ` set ps" "fk = None \<longleftrightarrow> bm_fk r = None"
  shows "pages_ok (if bm_fk r \<noteq> None \<and> fk \<noteq> None \<and> bm_fk r \<noteq> fk then bump_foreign_count (bm_fk r) (- 1) (bump_foreign_count fk 1 ps) else ps)
     (map bm_fk (map upd rows)) tags"
proof -
  obtain xs ys where rows: "rows = xs @ r # ys" using d(2) by (meson split_list)
  have same: "map bm_fk (map upd xs) = map bm_fk xs" "map bm_fk (map upd ys) = map bm_fk ys"
    using u(2) d(1) by (auto simp: rows)
  have new: "map bm_fk (map upd rows) = map bm_fk xs @ fk # map bm_fk ys" using same u(1) by (simp add: rows)
  show ?thesis
  proof (cases "bm_fk r = fk")
    case True
    then show ?thesis using ok unfolding new by (simp add: rows)
  next
    case False
    then have ne: "bm_fk r \<noteq> None" "fk \<noteq> None" using fk(2) by auto
    have "pages_ok (bump_foreign_count fk 1 ps) (fk # map bm_fk rows) tags"
      by (rule bump_ok [OF ok]) (use ok fk(1) in \<open>auto simp: pages_ok_def\<close>)
    then have "pages_ok (bump_foreign_count (bm_fk r) (- 1) (bump_foreign_count fk 1 ps)) (map bm_fk xs @ fk # map bm_fk ys) tags"
      by (rule bump_ok) (use ok fk(1) in \<open>auto simp: pages_ok_def rows\<close>)
    then show ?thesis unfolding new using False ne by simp
  qed
qed

definition updated_item :: "UpdatableItem \<Rightarrow> BookmarkItem \<Rightarrow> BookmarkItem" where
  "updated_item item old = \<lparr>it_type = it_type old,
     it_title = nullif_empty (maybe_truncate_title (new_title (updatable_title item) (it_title old))),
     it_url = (case item of UpdatableBookmark _ (Some url) _ \<Rightarrow> Some url | _ \<Rightarrow> it_url old)\<rparr>"

text \<open>Where the new place of a row comes from.\<close>

definition destination :: "UpdateTreeLocation \<Rightarrow> RowId \<Rightarrow> nat \<Rightarrow> RowId \<Rightarrow> nat \<Rightarrow> BookmarkRow list \<Rightarrow> bool" where
  "destination loc p i p' k rows \<longleftrightarrow>
     (case loc of
        NoChange \<Rightarrow> p' = p \<and> k = i
      | Position pos \<Rightarrow> p' = p \<and> k = clip pos (length (children rows p) - 1)
      | Parent g pos \<Rightarrow> g \<noteq> root_as_str Root \<and> k = clip pos (length (children rows p')) \<and>
          (\<exists>q \<in> set rows. bm_guid q = g \<and> bm_id q = p' \<and> bm_type q = bookmark_type_u8 Folder))"

lemma moved_to_destination:
  assumes "tree_ok (moz_bookmarks t)" "moved_to loc r p t p' k t1" "bm_position r = int i"
  shows "destination loc p i p' k (moz_bookmarks t)"
proof (cases loc)
  case (Parent g pos)
  then obtain q where q: "find (\<lambda>r. bm_guid r = g) (moz_bookmarks t) = Some q" "from_u8_with_valid_url (bm_type q) (bm_fk q \<noteq> None) = Folder"
      "p' = bm_id q" "k = clip pos (length (child_rows (moz_bookmarks t) p'))" "g \<noteq> root_as_str Root"
    using assms(2) by (auto simp: Let_def)
  have "q \<in> set (moz_bookmarks t)" "bm_guid q = g" using find_in_set [OF q(1)] by auto
  then show ?thesis using q row_ok_type [OF tree_okD(3) [OF assms(1)], of q] by (auto simp: Parent destination_def length_children)
qed (use assms in \<open>auto simp: destination_def length_children\<close>)

lemma destination_folder:
  assumes ok: "tree_ok rows" and "r \<in> set rows" "bm_parent r = Some p" "destination loc p i p' k rows"
  shows "\<exists>q \<in> set rows. bm_id q = p' \<and> bm_type q = bookmark_type_u8 Folder"
  using assms(2,3,4) tree_okD(4) [OF ok] unfolding destination_def parents_ok_def
  by (cases loc) (simp_all, blast+)

definition update_written :: "string \<Rightarrow> UpdatableItem \<Rightarrow> PlacesTables \<Rightarrow> PlacesTables \<Rightarrow> BookmarkRow \<Rightarrow> RowId \<Rightarrow> nat \<Rightarrow> RowId \<Rightarrow> nat \<Rightarrow>
    (BookmarkRow \<Rightarrow> BookmarkRow) \<Rightarrow> bool" where
  "update_written guid item t t' r p i p' k upd \<longleftrightarrow>
     r \<in> set (moz_bookmarks t) \<and> bm_guid r = guid \<and> p' \<notin> subtree (moz_bookmarks t) (bm_id r) \<and> it_type (item_of (moz_places t) r) = updatable_type item \<and> \<not> is_root guid \<and>
     destination (updatable_location item) p i p' k (moz_bookmarks t) \<and> moz_bookmarks t' = map upd (moz_bookmarks t) \<and>
     ((if p' = p then k < length (children (moz_bookmarks t) p) else k \<le> length (children (moz_bookmarks t) p')) \<longrightarrow>
        moves_row r p i p' k upd (moz_bookmarks t)) \<and>
     bm_parent r = Some p \<and> bm_parent (upd r) = Some p' \<and> bm_position (upd r) = int k \<and> bm_position r = int i \<and>
     (\<forall>x \<in> set (moz_bookmarks t). x \<noteq> r \<longrightarrow> bm_parent (upd x) = bm_parent x) \<and>
     pages_ok (moz_places t') (map bm_fk (moz_bookmarks t')) (moz_tags_relation t') \<and>
     (\<forall>x \<in> set (moz_bookmarks t). item_of (moz_places t') (upd x) =
        (if x = r then updated_item item (item_of (moz_places t) x) else item_of (moz_places t) x))"

lemma update_is_written:
  assumes ok: "store_ok t" and e: "update_effect guid item t t'"
  shows "\<exists>r p i p' k upd. update_written guid item t t' r p i p' k upd"
proof -
  let ?rows = "moz_bookmarks t" and ?loc = "updatable_location item"
  have T: "tree_ok ?rows" and P: "pages_ok (moz_places t) (map bm_fk ?rows) (moz_tags_relation t)" using ok by (auto simp: store_ok_def)
  obtain r p p' k t1 t2 t3 fk time A title incr bump where nr: "\<not> is_root guid" and r: "find (\<lambda>r. bm_guid r = guid) ?rows = Some r" "bm_parent r = Some p"
      "from_u8_with_valid_url (bm_type r) (bm_fk r \<noteq> None) = updatable_type item"
    and m: "moved_to ?loc r p t p' k t1" and t2: "t2 = t1 \<or> page_added t1 t2" and fk: "new_fk item (bm_fk r) t2 fk"
    and title: "title = maybe_truncate_title (new_title (updatable_title item) (nullif_empty (bm_title r)))"
    and t3: "update_bookmark_row fk p' k title time incr (bm_id r) t2 = Ok t3"
    and anc: "(\<exists>g pos. ?loc = Parent g pos) \<longrightarrow> ancestors (moz_bookmarks t3) p' \<noteq> None"
    and t': "t' = t3\<lparr>moz_bookmarks := map (touched A time bump) (moz_bookmarks t3)\<rparr>"
    using e unfolding update_effect_def Let_def by blast
  have rin: "r \<in> set ?rows" "bm_guid r = guid" using find_in_set [OF r(1)] by auto
  obtain s i where i: "bm_position r = int i" and s: "same_but_position s" "moz_bookmarks t1 = map s ?rows"
      and pos: "\<And>x. x \<in> set ?rows \<Longrightarrow> x \<noteq> r \<Longrightarrow> bm_position (s x) = pos_after p i p' k x"
      and f1: "moz_places t1 = moz_places t" "moz_tags_relation t1 = moz_tags_relation t"
    using moved_to_rows [OF T rin(1) r(2) m] by blast
  note S = same_but_positionD [OF s(1)] and dest = moved_to_destination [OF T m i]
  have f2: "grown (moz_places t) (moz_places t2)" "moz_bookmarks t2 = map s ?rows" "moz_tags_relation t2 = moz_tags_relation t"
    using page_added_grown [OF t2] s(2) f1 by simp_all
  define wr where "wr = (\<lambda>y :: BookmarkRow. y\<lparr>bm_fk := fk, bm_parent := Some p', bm_position := int k, bm_title := title,
     bm_lastModified := time, bm_syncChangeCounter := bm_syncChangeCounter y + (if incr then 1 else 0)\<rparr>)"
  note w = update_row_Ok [OF tree_okD(1) [OF T] rin(1) s(1) f2(2) t3]
  define upd3 where "upd3 = (\<lambda>x. if bm_id x = bm_id r then wr (s x) else s x)"
  define upd where "upd = (\<lambda>x. touched A time bump (upd3 x))"
  have rows': "moz_bookmarks t3 = map upd3 ?rows" "moz_bookmarks t' = map upd ?rows"
    using w(2) by (simp_all add: t' upd_def upd3_def wr_def)
  have idr: "bm_id x = bm_id r \<longleftrightarrow> x = r" if "x \<in> set ?rows" for x using id_unique [OF tree_okD(1) [OF T] that rin(1)] .
  have keep: "keeps_rows upd" by (simp add: keeps_rows_def upd_def upd3_def wr_def S)
  have at_r: "bm_parent (upd r) = Some p'" "bm_position (upd r) = int k" "bm_fk (upd r) = fk" "bm_title (upd r) = title" "bm_type (upd r) = bm_type r"
    by (simp_all add: upd_def upd3_def wr_def S)
  have at_x: "bm_parent (upd x) = bm_parent x" "bm_fk (upd x) = bm_fk x" "bm_title (upd x) = bm_title x" "bm_position (upd x) = pos_after p i p' k x"
      "bm_type (upd x) = bm_type x" if "x \<in> set ?rows" "x \<noteq> r" for x
    using idr [OF that(1)] that pos [OF that] by (simp_all add: upd_def upd3_def S)
  have chk: "bm_type r = 1 \<and> fk \<noteq> None \<or> bm_type r > 1 \<and> fk = None" "\<And>j. fk = Some j \<Longrightarrow> j \<in> pl_id ` set (moz_places t2)"
    using w(1) by (auto simp: bookmark_checks_def S)
  have rr: "row_ok r" by (rule tree_okD(3) [OF T rin(1)])
  then have none: "fk = None \<longleftrightarrow> bm_fk r = None" and row: "row_ok (upd r)"
    using chk(1) at_r by (auto simp: row_ok_def)
  have fold: "\<exists>q \<in> set ?rows. bm_id q = p' \<and> bm_type q = bookmark_type_u8 Folder" by (rule destination_folder [OF T rin(1) r(2) dest])
  have nocyc: "p' \<notin> subtree ?rows (bm_id r)"
  proof
    assume below: "p' \<in> subtree ?rows (bm_id r)"
    then have "p' \<noteq> p" using parent_not_in_subtree [OF T rin(1) r(2)] by auto
    then obtain g ps where "?loc = Parent g ps" using dest by (auto simp: destination_def split: UpdateTreeLocation.splits)
    moreover obtain q where "q \<in> set ?rows" "bm_id q = p'" "bm_type q = bookmark_type_u8 Folder" using fold by blast
    then have "ancestors (map upd3 ?rows) p' = None"
      by (intro moved_below_itself [OF T rin(1) _ _ _ _ _ _ below]) (auto simp: upd3_def wr_def S idr)
    ultimately show False using anc rows'(1) by auto
  qed
  have P2: "pages_ok (moz_places t2) (map bm_fk ?rows) (moz_tags_relation t)" by (rule grown_ok [OF P f2(1)])
  have dr: "distinct ?rows" using tree_okD(1) [OF T] by (simp add: distinct_map)
  have "moz_places t' = moz_places t3" "moz_tags_relation t' = moz_tags_relation t" using w(4) f2(3) by (simp_all add: t')
  then have pages: "pages_ok (moz_places t') (map bm_fk (moz_bookmarks t')) (moz_tags_relation t')"
    using repointed_ok [OF P2 dr rin(1) at_r(3) at_x(2) chk(2) none] by (simp add: rows'(2) w(3))
  have url: "page_url (moz_places t') j = page_url (moz_places t2) j" for j
    using w(3) by (simp add: \<open>moz_places t' = moz_places t3\<close>)
  have items: "item_of (moz_places t') (upd x) = (if x = r then updated_item item (item_of (moz_places t) x) else item_of (moz_places t) x)"
    if x: "x \<in> set ?rows" for x
  proof (cases "x = r")
    case True
    have "page_url (moz_places t2) fk = (case item of UpdatableBookmark _ (Some url) _ \<Rightarrow> Some url | _ \<Rightarrow> page_url (moz_places t) (bm_fk r))"
      using fk grown_urls [OF P f2(1), of "bm_fk r"] rin(1) page_url_unique [of "moz_places t2"] P2
      by (cases item) (auto simp: new_fk_def pages_ok_def page_url_def [of _ None] split: option.splits)
    then show ?thesis using True at_r url none title by (auto simp: item_of_def updated_item_def split: UpdatableItem.splits option.splits)
  next
    case False
    then show ?thesis using at_x [OF x False] url grown_urls [OF P f2(1), of "bm_fk x"] x by (simp add: item_of_def)
  qed
  have "moves_row r p i p' k upd ?rows"
    if "if p' = p then k < length (children ?rows p) else k \<le> length (children ?rows p')"
    unfolding moves_row_def using that rin(1) r(2) i fold nocyc keep at_r row at_x by blast
  then show ?thesis
    unfolding update_written_def using rin nocyc r(2,3) nr dest rows'(2) at_r at_x i pages items
    by (intro exI [of _ r] exI [of _ p] exI [of _ i] exI [of _ p'] exI [of _ k] exI [of _ upd]) (auto simp: item_of_def)
qed

section \<open>Updates of the tree\<close>

definition moved_item :: "UpdateTreeLocation \<Rightarrow> string \<Rightarrow> string \<Rightarrow> Forest \<Rightarrow> Forest" where
  "moved_item loc pg g T =
     (case loc of
        NoChange \<Rightarrow> T
      | Position pos \<Rightarrow> move_item g pg (clip pos (length (fo_kids T pg) - 1)) T
      | Parent g' pos \<Rightarrow> move_item g g' (clip pos (length (fo_kids T g'))) T)"

text \<open>The move that leaves a gap: to the end of the folder the item is in, given as a new parent.\<close>

definition leaves_gap :: "UpdateTreeLocation \<Rightarrow> string \<Rightarrow> Forest \<Rightarrow> bool" where
  "leaves_gap loc pg T \<longleftrightarrow> (\<exists>pos. loc = Parent pg pos \<and> clip pos (length (fo_kids T pg)) = length (fo_kids T pg))"

lemma insert_remove_same:
  assumes "distinct xs" "i < length xs" shows "insert_at i (xs ! i) (removeAll (xs ! i) xs) = xs"
  unfolding remove_at_removeAll [OF assms, symmetric] using assms(2) by (simp add: insert_at_def remove_at_def min_def id_take_nth_drop [symmetric])

lemma kids_of_row: "tree_ok rows \<Longrightarrow> q \<in> set rows \<Longrightarrow> kids rows (bm_guid q) = map bm_guid (children rows (bm_id q))"
  using item_at_unique [OF tree_okD(2)] by (simp add: kids_def)

lemma update_kids:
  assumes ok: "tree_ok rows" and m: "moves_row r p i p' k upd rows" and q: "q \<in> set rows" "bm_id q = p"
    and dest: "destination loc p i p' k rows" and T: "fo_kids T = kids rows"
  shows "kids (map upd rows) = fo_kids (moved_item loc (bm_guid q) (bm_guid r) T)"
proof
  fix g
  note M = moves_rowD [OF m] and idx = child_index [OF ok moves_rowD(1,2,3) [OF m]]
  have kq: "kids rows (bm_guid q) = map bm_guid (children rows p)" using kids_of_row [OF ok q(1)] q(2) by simp
  show "kids (map upd rows) g = fo_kids (moved_item loc (bm_guid q) (bm_guid r) T) g"
  proof (cases loc)
    case NoChange
    then have pk: "p' = p" "k = i" using dest by (auto simp: destination_def)
    have d: "distinct (kids rows (bm_guid q))" unfolding kq by (rule distinct_guids_children [OF tree_okD(2,1) [OF ok]])
    have i: "i < length (kids rows (bm_guid q))" "kids rows (bm_guid q) ! i = bm_guid r" using idx by (simp_all add: kq)
    have "bm_guid r \<notin> set (kids rows g)" if "g \<noteq> bm_guid q"
    proof
      assume r: "bm_guid r \<in> set (kids rows g)"
      then obtain x where "item_at rows g = Some x" by (cases "item_at rows g") (auto simp: kids_def)
      from item_at_Some [OF this] have x: "x \<in> set rows" "bm_guid x = g" by auto
      obtain y where y: "y \<in> set rows" "bm_guid y = bm_guid r" "bm_parent y = Some (bm_id x)"
        using r kids_iff [OF ok x(1), of "bm_guid r"] x(2) by auto
      then have "y = r" using guid_unique [OF tree_okD(2) [OF ok] y(1) M(1)] by simp
      then have "bm_id x = bm_id q" using y(3) M(2) q(2) by simp
      then have "x = q" using id_unique [OF tree_okD(1) [OF ok] x(1) q(1)] by simp
      then show False using x(2) that by simp
    qed
    then show ?thesis using insert_remove_same [OF d i(1)] i(2) NoChange pk T moves_row_kids [OF ok m q(1)] q(2)
      by (auto simp: moved_item_def)
  next
    case (Position pos)
    then show ?thesis using dest T moves_row_kids [OF ok m q(1)] q(2) kq
      by (auto simp: moved_item_def move_item_def destination_def)
  next
    case (Parent g' pos)
    then obtain q' where q': "q' \<in> set rows" "bm_guid q' = g'" "bm_id q' = p'" "k = clip pos (length (children rows p'))"
      using dest by (auto simp: destination_def)
    then show ?thesis using Parent T moves_row_kids [OF ok m q'(1,3)] kids_of_row [OF ok q'(1)]
      by (auto simp: moved_item_def move_item_def)
  qed
qed

lemma destination_bound:
  assumes ok: "tree_ok rows" and r: "r \<in> set rows" "bm_parent r = Some p" "bm_position r = int i" and dest: "destination loc p i p' k rows"
    and q: "q \<in> set rows" "bm_id q = p" and gap: "\<And>pos. loc = Parent (bm_guid q) pos \<Longrightarrow> clip pos (length (children rows p)) \<noteq> length (children rows p)"
  shows "if p' = p then k < length (children rows p) else k \<le> length (children rows p')"
proof (cases loc)
  case NoChange
  then show ?thesis using dest child_index(1) [OF ok r] by (auto simp: destination_def)
next
  case (Position pos)
  have "0 < length (children rows p)" using child_index(1) [OF ok r] by linarith
  then have "clip pos (length (children rows p) - 1) < length (children rows p)"
    using clip_le [of pos "length (children rows p) - 1"] by linarith
  then show ?thesis using dest Position by (simp add: destination_def)
next
  case (Parent g pos)
  then obtain q' where q': "q' \<in> set rows" "bm_guid q' = g" "bm_id q' = p'" "k = clip pos (length (children rows p'))"
    using dest by (auto simp: destination_def)
  have "k \<noteq> length (children rows p)" if "p' = p"
    using gap [of pos] id_unique [OF tree_okD(1) [OF ok] q'(1) q(1)] q' q(2) that Parent by auto
  then show ?thesis using clip_le [of pos "length (children rows p')"] q'(4) by auto
qed

lemma gap_breaks_numbering:
  assumes "upd r \<in> set (map upd rows)" "bm_parent (upd r) = Some p" "bm_position (upd r) = int (length (children rows p))"
    and "\<And>x. x \<in> set rows \<Longrightarrow> bm_parent (upd x) = bm_parent x"
  shows "\<not> tree_ok (map upd rows)"
proof
  assume "tree_ok (map upd rows)"
  from children_positions(2) [OF tree_okD(6) [OF this] assms(1,2)]
  have "bm_position (upd r) < int (length (child_rows (map upd rows) p))" by (simp add: length_children)
  moreover have "child_rows (map upd rows) p = map upd (child_rows rows p)"
    using assms(4) by (auto simp: child_rows_def filter_map comp_def intro!: arg_cong [where f = "map upd"] filter_cong)
  ultimately show False using assms(3) by (simp add: length_children)
qed

lemma update_refines:
  assumes ok: "store_ok t" and e: "update_effect guid item t t'"
  defines "T \<equiv> forest t" and "loc \<equiv> updatable_location item"
  shows "\<exists>old pg. fo_items T guid = Some old \<and> it_type old = updatable_type item \<and> \<not> is_root guid \<and> guid \<in> set (fo_kids T pg) \<and>
     (\<forall>g pos. loc = Parent g pos \<longrightarrow> g \<noteq> root_as_str Root \<and> map_option it_type (fo_items T g) = Some Folder \<and> g \<notin> below T guid) \<and>
     (if leaves_gap loc pg T then \<not> store_ok t'
      else store_ok t' \<and> forest t' = change_item guid (updated_item item old) (moved_item loc pg guid T))"
proof -
  let ?rows = "moz_bookmarks t"
  have W: "tree_ok ?rows" using ok by (simp add: store_ok_def)
  obtain r p i p' k upd where u: "update_written guid item t t' r p i p' k upd" using update_is_written [OF ok e] by blast
  note U = u [unfolded update_written_def, folded loc_def]
  obtain q where q: "q \<in> set ?rows" "bm_id q = p" using tree_okD(4) [OF W] U unfolding parents_ok_def by blast
  have kq: "fo_kids T (bm_guid q) = map bm_guid (children ?rows p)" using kids_of_row [OF W q(1)] q(2) by (simp add: T_def forest_kids)
  have old: "fo_items T guid = Some (item_of (moz_places t) r)"
    using item_at_unique [OF tree_okD(2) [OF W], of r] U by (auto simp: T_def forest_items)
  have kid: "guid \<in> set (fo_kids T (bm_guid q))" using U q(2) by (auto simp: kq)
  have par: "g \<noteq> root_as_str Root \<and> map_option it_type (fo_items T g) = Some Folder \<and> g \<notin> below T guid" if loc: "loc = Parent g pos" for g pos
  proof -
    obtain q' where q': "q' \<in> set ?rows" "bm_guid q' = g" "bm_id q' = p'" "bm_type q' = bookmark_type_u8 Folder" "g \<noteq> root_as_str Root"
      using U loc by (auto simp: destination_def)
    have "below T guid = bm_guid ` {x \<in> set ?rows. bm_id x \<in> subtree ?rows (bm_id r)}"
      using below_subtree [OF W, of r] U by (simp add: below_def T_def forest_kids)
    then have "g \<notin> below T guid" using U q' guid_unique [OF tree_okD(2) [OF W], of q'] by auto
    then show ?thesis using q' item_at_unique [OF tree_okD(2) [OF W] q'(1)] row_ok_type [OF tree_okD(3) [OF W q'(1)]]
      by (auto simp: T_def forest_items item_of_def)
  qed
  have "if leaves_gap loc (bm_guid q) T then \<not> store_ok t'
      else store_ok t' \<and> forest t' = change_item guid (updated_item item (item_of (moz_places t) r)) (moved_item loc (bm_guid q) guid T)"
  proof (cases "leaves_gap loc (bm_guid q) T")
    case True
    then obtain pos where pos: "loc = Parent (bm_guid q) pos" "clip pos (length (children ?rows p)) = length (children ?rows p)"
      by (auto simp: leaves_gap_def kq)
    then have p': "p' = p" "k = length (children ?rows p)"
      using U q guid_unique [OF tree_okD(2) [OF W], of _ q] by (auto simp: destination_def)
    have "bm_parent (upd x) = bm_parent x" if "x \<in> set ?rows" for x using U p'(1) that by (cases "x = r") auto
    then have "\<not> tree_ok (map upd ?rows)" using U p' by (intro gap_breaks_numbering [of upd r ?rows p]) auto
    then show ?thesis using True U by (auto simp: store_ok_def)
  next
    case False
    have "if p' = p then k < length (children ?rows p) else k \<le> length (children ?rows p')"
      using destination_bound [OF W _ _ _ _ q, of r i loc p' k] False U by (auto simp: leaves_gap_def kq)
    then have m: "moves_row r p i p' k upd ?rows" using U by blast
    have rows': "moz_bookmarks t' = map upd ?rows" using U by blast
    have "store_ok t'" unfolding store_ok_def
    proof
      show "tree_ok (moz_bookmarks t')" using moves_row_tree_ok [OF W m] rows' by simp
    qed (use U in blast)
    moreover have "fo_items (forest t') = (fo_items T)(guid \<mapsto> updated_item item (item_of (moz_places t) r))"
    proof
      fix g
      have "item_at (moz_bookmarks t') g = map_option upd (item_at ?rows g)"
        using rows' moves_rowD(8) [OF m] by (simp add: item_at_map)
      then show "fo_items (forest t') g = ((fo_items T)(guid \<mapsto> updated_item item (item_of (moz_places t) r))) g"
        using U item_at_unique [OF tree_okD(2) [OF W], of r]
        by (cases "item_at ?rows g") (auto simp: T_def forest_items dest: item_at_Some)
    qed
    moreover have "fo_kids (forest t') = fo_kids (moved_item loc (bm_guid q) guid T)"
      using update_kids [OF W m q, of loc T] U by (simp add: forest_kids T_def)
    moreover have "fo_items (moved_item loc (bm_guid q) guid T) = fo_items T"
      by (simp add: moved_item_def move_item_def split: UpdateTreeLocation.splits)
    ultimately show ?thesis using False by (simp add: change_item_def)
  qed
  then show ?thesis using old kid par U by blast
qed

end
