(* ===== verification/BookmarkApi.thy ===== *)
theory BookmarkApi
  imports BookmarkUpdate
begin

text \<open>
  The public operations on bookmarks: with their transactions they refine the operations on trees and are
  atomic, but for updates, which commit what a failing call has written.
\<close>

section \<open>Transactions\<close>

text \<open>What the database holds once the connection is closed.\<close>

definition durable :: "Conn \<Rightarrow> PlacesTables" where
  "durable c = (case cn_saved c of None \<Rightarrow> cn_tables c | Some t \<Rightarrow> t)"

lemma sql_cases: "sql env (w, c) = (res, s') \<Longrightarrow> \<exists>w'. s' = (w', c)"
  by (auto simp: sql_def world_def split: prod.splits)

lemma begin_tx_cases:
  assumes "begin_tx env (w, c) = (res, (w', c'))" "cn_saved c = None"
  shows "(res = Ok () \<and> c' = c\<lparr>cn_saved := Some (cn_tables c)\<rparr>) \<or> (\<not> is_Ok res \<and> c' = c)"
  using assms unfolding begin_tx_def abind_def
  by (auto split: prod.splits outcome.splits dest!: sql_cases)

lemma begin_transaction_cases:
  assumes "begin_transaction env (w, c) = (res, (w', c'))" "cn_saved c = None"
  shows "(res = Ok () \<and> c' = c\<lparr>cn_saved := Some (cn_tables c)\<rparr>) \<or> (\<not> is_Ok res \<and> c' = c)"
proof -
  obtain r1 w1 c1 where 1: "begin_tx env (w, c) = (r1, (w1, c1))" by (metis prod.exhaust)
  note first = begin_tx_cases [OF 1 assms(2)]
  show ?thesis
  proof (cases "r1 = Err (SqlFailed DatabaseBusy) \<or> r1 = Err (SqlFailed DatabaseLocked)")
    case True
    then have "begin_tx env (w1, c) = (res, (w', c'))" using first 1 assms(1) by (auto simp: begin_transaction_def)
    from begin_tx_cases [OF this assms(2)] show ?thesis .
  next
    case False
    then have "res = r1" "c' = c1"
      using 1 assms(1) by (auto simp: begin_transaction_def split: outcome.splits PlacesError.splits SqlFailure.splits)
    then show ?thesis using first by simp
  qed
qed

lemma commit_tx_cases:
  assumes "commit_tx env (w, c) = (res, (w', c'))" "cn_saved c \<noteq> None"
  shows "(res = Ok () \<and> c' = c\<lparr>cn_saved := None\<rparr>) \<or> (\<not> is_Ok res \<and> c' = c)"
  using assms unfolding commit_tx_def abind_def
  by (auto split: prod.splits outcome.splits dest!: sql_cases)

lemma rollback_tx_cases:
  assumes "rollback_tx env (w, c) = (res, (w', c'))" "cn_saved c = Some t"
  shows "(res = Ok () \<and> c' = \<lparr>cn_tables = t, cn_saved = None\<rparr>) \<or> (\<not> is_Ok res \<and> c' = c)"
  using assms unfolding rollback_tx_def abind_def
  by (auto split: prod.splits outcome.splits dest!: sql_cases)

lemma durable_rollback: "rollback_tx env (w, c) = (res, (w', c')) \<Longrightarrow> cn_saved c = Some t \<Longrightarrow> durable c' = t"
  using rollback_tx_cases [of env w c res w' c' t] by (auto simp: durable_def)

lemma durable_drop: "cn_saved c = Some t \<Longrightarrow> drop_tx env (w, c) = (w', c') \<Longrightarrow> durable c' = t"
  using durable_rollback [of env w c _ _ _ t] by (cases "rollback_tx env (w, c)") (auto simp: drop_tx_def)

lemma finish_cases:
  assumes "abind (if is_Ok result then commit_tx env else rollback_tx env) (\<lambda>_. lift result) (w, c) = (res, (w', c'))" "cn_saved c = Some t"
  shows "case res of Ok a \<Rightarrow> result = Ok a \<and> c' = c\<lparr>cn_saved := None\<rparr> | _ \<Rightarrow> durable c' = t"
proof (cases "is_Ok result")
  case True
  obtain r1 w1 c1 where 1: "commit_tx env (w, c) = (r1, (w1, c1))" by (metis prod.exhaust)
  then show ?thesis using commit_tx_cases [OF 1] assms True
    by (cases result; cases r1) (auto simp: abind_def lift_def durable_def)
next
  case False
  obtain r1 w1 c1 where 1: "rollback_tx env (w, c) = (r1, (w1, c1))" by (metis prod.exhaust)
  then show ?thesis using durable_rollback [OF 1 assms(2)] assms(1) False
    by (cases result; cases r1) (auto simp: abind_def lift_def)
qed

text \<open>
  The operations that run a body in a transaction, clean up, and commit if the body succeeded or roll back
  if it returned an error: for any body that leaves transactions alone, success is the effect of the body
  and failure changes nothing that lasts.
\<close>

locale tx_operation =
  fixes env :: "'w PlacesEnv" and body :: "('w, 'a) places_op" and cleanup :: "('w, unit) places_op"
    and effect :: "PlacesTables \<Rightarrow> 'a \<Rightarrow> PlacesTables \<Rightarrow> bool"
  assumes body_sat: "sat body effect"
    and cleanup_keeps: "cleanup (w, c) = (res, s') \<Longrightarrow> snd s' = c"
begin

definition run :: "('w, 'a) places_op" where
  "run = abind (begin_transaction env) (\<lambda>_. \<lambda>s.
     case body s of
       (Panic p, s1) \<Rightarrow> (Panic p, drop_tx env s1)
     | (result, s1) \<Rightarrow>
         (case cleanup s1 of
            (Ok _, s2) \<Rightarrow> abind (if is_Ok result then commit_tx env else rollback_tx env) (\<lambda>_. lift result) s2
          | (Err e, s2) \<Rightarrow> (Err e, drop_tx env s2)
          | (Panic p, s2) \<Rightarrow> (Panic p, drop_tx env s2)))"

lemma run_atomic:
  assumes go: "run (w, c) = (res, (w', c'))" and idle: "cn_saved c = None"
  shows "case res of Ok a \<Rightarrow> effect (cn_tables c) a (cn_tables c') \<and> cn_saved c' = None | _ \<Rightarrow> durable c' = cn_tables c"
proof -
  obtain r0 w0 c0 where 0: "begin_transaction env (w, c) = (r0, (w0, c0))" by (metis prod.exhaust)
  note b = begin_transaction_cases [OF 0 idle]
  show ?thesis
  proof (cases "is_Ok r0")
    case True
    then have c0: "r0 = Ok ()" "cn_saved c0 = Some (cn_tables c)" "cn_tables c0 = cn_tables c" using b by auto
    obtain r1 w1 c1 where 1: "body (w0, c0) = (r1, (w1, c1))" by (metis prod.exhaust)
    have c1: "cn_saved c1 = Some (cn_tables c)" using satD(2) [OF body_sat 1] c0(2) by simp
    have eff: "effect (cn_tables c) a (cn_tables c1)" if "r1 = Ok a" for a
      using satD(1) [OF body_sat, of w0 c0 a w1 c1] 1 that c0(3) by simp
    obtain r2 w2 where 2: "cleanup (w1, c1) = (r2, (w2, c1))"
      using cleanup_keeps [of w1 c1] by (cases "cleanup (w1, c1)") auto
    show ?thesis
    proof (cases "is_Panic r1 \<or> \<not> is_Ok r2")
      case True
      then have "\<not> is_Ok res \<and> (\<exists>w. drop_tx env (w, c1) = (w', c'))"
        using go 0 1 2 c0(1) by (cases r1; cases r2) (auto simp: run_def abind_def)
      then show ?thesis using durable_drop [OF c1] by (cases res) auto
    next
      case False
      then have "abind (if is_Ok r1 then commit_tx env else rollback_tx env) (\<lambda>_. lift r1) (w2, c1) = (res, (w', c'))"
        using go 0 1 2 c0(1) by (cases r1; cases r2) (auto simp: run_def abind_def [of "begin_transaction env"])
      from finish_cases [OF this c1] show ?thesis using eff by (cases res) auto
    qed
  next
    case False
    then have "c0 = c" using b by auto
    then show ?thesis using go 0 False idle by (cases r0) (auto simp: run_def abind_def durable_def)
  qed
qed

end

interpretation insert_tx: tx_operation env "insert_bookmark_in_tx env bm" "delete_pending_temp_tables env" "insert_effect bm" for env bm
  by unfold_locales (auto simp: sat_insert_bookmark_in_tx delete_pending_temp_tables_def dest!: sql_cases)

interpretation delete_tx: tx_operation env "delete_bookmark_in_tx env guid" "ret ()" "delete_effect guid" for env guid
  by unfold_locales (auto simp: sat_delete_bookmark_in_tx ret_def)

lemma insert_bookmark_is_tx: "insert_bookmark env bm = insert_tx.run env bm"
  by (simp add: insert_bookmark_def insert_tx.run_def)

lemma delete_bookmark_is_tx: "delete_bookmark env guid = delete_tx.run env guid"
  unfolding delete_bookmark_def delete_tx.run_def
  by (rule arg_cong [where f = "abind (begin_transaction env)"]) (auto simp: ret_def fun_eq_iff split: prod.splits outcome.splits)

lemmas insert_bookmark_run = insert_tx.run_atomic [folded insert_bookmark_is_tx]
lemmas delete_bookmark_run = delete_tx.run_atomic [folded delete_bookmark_is_tx]

lemma update_bookmark_run:
  assumes run: "update_bookmark env dbg guid item (w, c) = Some (Ok u, (w', c'))" and idle: "cn_saved c = None" and keyed: "keyed (cn_tables c)"
  shows "update_effect guid item (cn_tables c) (cn_tables c') \<and> cn_saved c' = None"
proof -
  obtain w0 c0 where 0: "begin_transaction env (w, c) = (Ok (), (w0, c0))"
      and body: "(case update_bookmark_in_tx env dbg guid item (w0, c0) of None \<Rightarrow> None | Some (Panic p, s1) \<Rightarrow> Some (Panic p, drop_tx env s1)
        | Some (result, s1) \<Rightarrow> Some (abind (commit_tx env) (\<lambda>_. lift result) s1)) = Some (Ok u, (w', c'))"
    using run by (auto simp: update_bookmark_def elim: mbind_runsE)
  have c0: "cn_saved c0 = Some (cn_tables c)" "cn_tables c0 = cn_tables c" using begin_transaction_cases [OF 0 idle] by auto
  then obtain result w1 c1 where 1: "update_bookmark_in_tx env dbg guid item (w0, c0) = Some (result, (w1, c1))"
      and fin: "abind (commit_tx env) (\<lambda>_. lift result) (w1, c1) = (Ok u, (w', c'))"
    using body by (auto split: option.splits outcome.splits)
  have c1: "cn_saved c1 \<noteq> None" using satm_any_update 1 c0(1) by (fastforce simp: satm_def)
  obtain w2 c2 where 2: "commit_tx env (w1, c1) = (Ok (), (w2, c2))" and res: "result = Ok u" "c2 = c'"
    using fin by (auto simp: abind_def lift_def split: prod.splits outcome.splits)
  have "c' = c1\<lparr>cn_saved := None\<rparr>" using commit_tx_cases [OF 2 c1] res(2) by auto
  moreover have "update_effect guid item (cn_tables c) (cn_tables c1)"
    using update_bookmark_in_tx_Ok [OF 1 [unfolded res(1)]] keyed c0(2) by simp
  ultimately show ?thesis by simp
qed

lemma insert_effect_parent: "insert_effect bm t g t' \<Longrightarrow> in_parent_guid (insertable_common bm) \<noteq> root_as_str Root"
  by (simp add: insert_effect_def Let_def)

section \<open>The operations refine the tree\<close>

text \<open>
  C7. \<^verbatim>\<open>insert_bookmark\<close> adds a leaf to the tree. If it succeeds, the item was not there, its parent is a
  folder other than the root, and the tree afterwards is the one before with the item at the place asked
  for, clipped to the number of children; all other folders, items and the order of the siblings are as
  they were, the invariant of the tables (numbered positions, no cycles, valid references and reference
  counts) is kept, and the guid is the requested one. If it fails, what the database holds is unchanged.
\<close>

theorem insert_bookmark_correct:
  assumes "store_ok (cn_tables c)" "cn_saved c = None" "insert_bookmark env bm (w, c) = (res, (w', c'))"
  shows "case res of
      Ok guid \<Rightarrow>
        (let T = forest (cn_tables c); common = insertable_common bm; p = in_parent_guid common in
         fo_items T guid = None \<and> p \<noteq> root_as_str Root \<and> map_option it_type (fo_items T p) = Some Folder \<and> (\<forall>g. in_guid common = Some g \<longrightarrow> g = guid) \<and>
         forest (cn_tables c') = add_item guid (new_item bm) p (clip (in_position common) (length (fo_kids T p))) T \<and>
         store_ok (cn_tables c') \<and> cn_saved c' = None)
    | _ \<Rightarrow> durable c' = cn_tables c"
  using insert_bookmark_run [OF assms(3,2)] insert_refines [OF assms(1)] insert_effect_parent
  by (auto simp: Let_def split: outcome.splits)

text \<open>
  C8. \<^verbatim>\<open>delete_bookmark\<close> removes an item with everything below it. If it returns \<^verbatim>\<open>true\<close>, the item was there
  and is not a root, the tree afterwards is the one before without the subtree, with the gap among its
  siblings closed, the invariant of the tables is kept, and exactly the removed items that the server
  knows have new tombstones. If it returns \<^verbatim>\<open>false\<close> nothing has changed, and if it fails what the
  database holds is unchanged.
\<close>

theorem delete_bookmark_correct:
  assumes "store_ok (cn_tables c)" "cn_saved c = None" "delete_bookmark env guid (w, c) = (res, (w', c'))"
  shows "case res of
      Ok True \<Rightarrow>
        (let T = forest (cn_tables c) in
         well_known guid = None \<and> fo_items T guid \<noteq> None \<and> forest (cn_tables c') = remove_item guid T \<and> store_ok (cn_tables c') \<and>
         (\<exists>time. moz_bookmarks_deleted (cn_tables c') = moz_bookmarks_deleted (cn_tables c) @ map (\<lambda>x. (bm_guid x, time))
            (filter (\<lambda>x. bm_syncStatus x = 2 \<and> bm_guid x \<in> below T guid) (moz_bookmarks (cn_tables c)))) \<and> cn_saved c' = None)
    | Ok False \<Rightarrow> well_known guid = None \<and> c' = c
    | _ \<Rightarrow> durable c' = cn_tables c"
  using delete_bookmark_run [OF assms(3,2)] delete_refines [OF assms(1)] assms(2)
  by (auto simp: Let_def delete_effect_def split: outcome.splits bool.splits)

text \<open>
  C6. \<^verbatim>\<open>update_bookmark\<close> changes one item. If it succeeds, the item exists with the type of the update and is
  not a root, a new parent is a folder other than the root that does not lie below the item, and the
  tree afterwards is the one before with the new title and URL, and with the item at the place asked for:
  \<^verbatim>\<open>Position\<close> is among its siblings, \<^verbatim>\<open>Parent\<close> in the new folder, the gap it leaves is closed and the order
  of all others is kept. The invariant of the tables is kept, but for one case, in which it is always
  broken: a \<^verbatim>\<open>Parent\<close> update that names the folder the item is in and the place after its last child.
\<close>

theorem update_bookmark_correct:
  assumes "store_ok (cn_tables c)" "cn_saved c = None" "update_bookmark env dbg guid item (w, c) = Some (Ok u, (w', c'))"
  shows "let T = forest (cn_tables c); loc = updatable_location item in
    \<exists>old pg. fo_items T guid = Some old \<and> it_type old = updatable_type item \<and> \<not> is_root guid \<and> guid \<in> set (fo_kids T pg) \<and>
     (\<forall>g pos. loc = Parent g pos \<longrightarrow> g \<noteq> root_as_str Root \<and> map_option it_type (fo_items T g) = Some Folder \<and> g \<notin> below T guid) \<and>
     cn_saved c' = None \<and>
     (if leaves_gap loc pg T then \<not> store_ok (cn_tables c')
      else store_ok (cn_tables c') \<and> forest (cn_tables c') = change_item guid (updated_item item old) (moved_item loc pg guid T))"
proof -
  have "keyed (cn_tables c)" using assms(1) by (simp add: store_ok_def tree_ok_keyed)
  from update_bookmark_run [OF assms(3,2) this] update_refines [OF assms(1)] show ?thesis unfolding Let_def by fast
qed

end
