(* ===== verification/BookmarkHistory.thy ===== *)
theory BookmarkHistory
  imports BookmarkApi
begin

text \<open>
  Histories of calls on a fresh database: the invariant of the tables and the roots.
\<close>

section \<open>The roots\<close>

definition root_row :: "RowId \<Rightarrow> BookmarkRootGuid \<Rightarrow> string \<Rightarrow> RowId option \<Rightarrow> int \<Rightarrow> Timestamp \<Rightarrow> BookmarkRow" where
  "root_row i g title parent pos moment =
     \<lparr>bm_id = i, bm_fk = None, bm_type = 2, bm_parent = parent, bm_position = pos, bm_title = Some title, bm_dateAdded = moment,
      bm_lastModified = moment, bm_guid = root_as_str g, bm_syncStatus = 1, bm_syncChangeCounter = 1\<rparr>"

definition root_rows :: "Timestamp \<Rightarrow> BookmarkRow list" where
  "root_rows moment =
     [root_row 1 Root ''root'' None 0 moment, root_row 2 Menu ''menu'' (Some 1) 0 moment, root_row 3 Toolbar ''toolbar'' (Some 1) 1 moment,
      root_row 4 Unfiled ''unfiled'' (Some 1) 2 moment, root_row 5 Mobile ''mobile'' (Some 1) 3 moment]"

definition root_stmt :: "string \<Rightarrow> string \<Rightarrow> nat \<Rightarrow> Timestamp \<Rightarrow> PlacesTables \<Rightarrow> (SqlFailure, PlacesTables) outcome" where
  "root_stmt title guid pos moment t = insert_bookmark_row
       \<lparr>bm_id = 0, bm_fk = None, bm_type = bookmark_type_u8 Folder,
        bm_parent = map_option bm_id (find (\<lambda>r. bm_guid r = root_as_str Root) (moz_bookmarks t)),
        bm_position = int pos, bm_title = Some title, bm_dateAdded = moment, bm_lastModified = moment, bm_guid = guid,
        bm_syncStatus = places_status_u8 New, bm_syncChangeCounter = 1\<rparr> t"

lemma sat_create_root: "sat (create_root env title guid pos moment) (\<lambda>t _ t'. root_stmt title guid pos moment t = Ok t')"
  unfolding create_root_def root_stmt_def by (rule sat_exec)

lemma root_stmt_rows:
  assumes "root_stmt title guid pos moment (no_places\<lparr>moz_bookmarks := rows\<rparr>) = Ok t'"
  shows "t' = no_places\<lparr>moz_bookmarks := rows @ [\<lparr>bm_id = next_rowid (map bm_id rows), bm_fk = None, bm_type = 2,
        bm_parent = map_option bm_id (find (\<lambda>r. bm_guid r = root_as_str Root) rows),
        bm_position = int pos, bm_title = Some title, bm_dateAdded = moment, bm_lastModified = moment, bm_guid = guid,
        bm_syncStatus = 1, bm_syncChangeCounter = 1\<rparr>]\<rparr>"
  using assms by (auto simp: root_stmt_def insert_bookmark_row_def Let_def no_places_def bump_foreign_count_def split: if_splits)

lemma sat_create_bookmark_roots:
  "sat (create_bookmark_roots env) (\<lambda>t _ t'. t = no_places \<longrightarrow> (\<exists>moment. t' = no_places\<lparr>moz_bookmarks := root_rows moment\<rparr>))"
proof -
  have step: "t' = no_places\<lparr>moz_bookmarks := root_rows moment\<rparr>"
    if "root_stmt ''root'' (root_as_str Root) 0 moment no_places = Ok t1" "root_stmt ''menu'' (root_as_str Menu) 0 moment t1 = Ok t2"
      "root_stmt ''toolbar'' (root_as_str Toolbar) 1 moment t2 = Ok t3" "root_stmt ''unfiled'' (root_as_str Unfiled) 2 moment t3 = Ok t4"
      "root_stmt ''mobile'' (root_as_str Mobile) 3 moment t4 = Ok t'" for moment t1 t2 t3 t4 t'
  proof -
    have n: "no_places = no_places\<lparr>moz_bookmarks := []\<rparr>" by (simp add: no_places_def)
    have t1: "t1 = no_places\<lparr>moz_bookmarks := take 1 (root_rows moment)\<rparr>"
      using root_stmt_rows [of "''root''" "root_as_str Root" 0 moment "[]" t1] that(1) n by (simp add: root_rows_def root_row_def next_rowid_def)
    have t2: "t2 = no_places\<lparr>moz_bookmarks := take 2 (root_rows moment)\<rparr>"
      using root_stmt_rows [OF that(2) [unfolded t1]] by (simp add: root_rows_def root_row_def next_rowid_def numeral_eq_Suc)
    have t3: "t3 = no_places\<lparr>moz_bookmarks := take 3 (root_rows moment)\<rparr>"
      using root_stmt_rows [OF that(3) [unfolded t2]] by (simp add: root_rows_def root_row_def next_rowid_def numeral_eq_Suc)
    have t4: "t4 = no_places\<lparr>moz_bookmarks := take 4 (root_rows moment)\<rparr>"
      using root_stmt_rows [OF that(4) [unfolded t3]] by (simp add: root_rows_def root_row_def next_rowid_def numeral_eq_Suc)
    show ?thesis
      using root_stmt_rows [OF that(5) [unfolded t4]] by (simp add: root_rows_def root_row_def next_rowid_def numeral_eq_Suc)
  qed
  show ?thesis unfolding create_bookmark_roots_def
    by (rule sat_weaken [OF sat_abind [OF sat_now sat_abind [OF sat_create_root sat_abind [OF sat_create_root sat_abind [OF sat_create_root
        sat_abind [OF sat_create_root sat_create_root]]]]]]) (blast dest: step)
qed

lemma root_rows_ok: "store_ok (no_places\<lparr>moz_bookmarks := root_rows moment\<rparr>)"
proof -
  let ?rows = "root_rows moment"
  have c1: "child_rows ?rows 1 = tl ?rows" by (simp add: child_rows_def root_rows_def root_row_def)
  have "numbered (tl ?rows)" by (simp add: numbered_def root_rows_def root_row_def numeral_eq_Suc)
  then have "numbered (children ?rows 1)" using children_eqI [of "tl ?rows" ?rows 1] c1 by simp
  moreover have "children ?rows p = []" if "p \<noteq> 1" for p
    using that by (simp add: children_def child_rows_def root_rows_def root_row_def)
  ultimately have "numbered (children ?rows p)" for p by (cases "p = 1") (simp_all add: numbered_def)
  moreover have "parent_rel ?rows \<subseteq> {(1, 2), (1, 3), (1, 4), (1, 5)}" by (auto simp: parent_rel_def root_rows_def root_row_def)
  then have "parent_rel ?rows \<subseteq> measure nat" by auto
  then have "wf (parent_rel ?rows)" by (rule wf_subset [OF wf_measure])
  moreover have "distinct (map bm_id ?rows)" "distinct (map bm_guid ?rows)" "\<forall>r \<in> set ?rows. row_ok r" "parents_ok ?rows"
    by (simp_all add: root_rows_def root_row_def row_ok_def parents_ok_def)
  ultimately have "tree_ok ?rows" by (simp add: tree_ok_def)
  then show ?thesis by (simp add: store_ok_def pages_ok_def no_places_def root_rows_def root_row_def)
qed

text \<open>What stays of the tree whatever is done to it: the roots, in their order below the one root.\<close>

definition roots_ok :: "Forest \<Rightarrow> bool" where
  "roots_ok T \<longleftrightarrow> fo_kids T (root_as_str Root) = map root_as_str [Menu, Toolbar, Unfiled, Mobile] \<and>
     (\<forall>g. root_as_str Root \<notin> set (fo_kids T g)) \<and>
     (\<forall>r. map_option it_type (fo_items T (root_as_str r)) = Some Folder)"

definition one_parent :: "Forest \<Rightarrow> bool" where
  "one_parent T \<longleftrightarrow> (\<forall>a b g. g \<in> set (fo_kids T a) \<longrightarrow> g \<in> set (fo_kids T b) \<longrightarrow> a = b)"

lemma store_one_parent:
  assumes "store_ok t" shows "one_parent (forest t)"
  unfolding one_parent_def forest_kids
proof (intro allI impI)
  fix a b g
  let ?rows = "moz_bookmarks t"
  have ok: "tree_ok ?rows" using assms by (simp add: store_ok_def)
  have row: "\<exists>x \<in> set ?rows. bm_guid x = a \<and> (\<exists>y \<in> set ?rows. bm_guid y = g \<and> bm_parent y = Some (bm_id x))"
    if g: "g \<in> set (kids ?rows a)" for a g
  proof -
    obtain x where "item_at ?rows a = Some x" using g by (cases "item_at ?rows a") (auto simp: kids_def)
    from item_at_Some [OF this] have x: "x \<in> set ?rows" "bm_guid x = a" by auto
    then show ?thesis using g kids_iff [OF ok x(1), of g] by auto
  qed
  assume "g \<in> set (kids ?rows a)" "g \<in> set (kids ?rows b)"
  then obtain x y x' y' where x: "x \<in> set ?rows" "bm_guid x = a" "y \<in> set ?rows" "bm_guid y = g" "bm_parent y = Some (bm_id x)"
      and x': "x' \<in> set ?rows" "bm_guid x' = b" "y' \<in> set ?rows" "bm_guid y' = g" "bm_parent y' = Some (bm_id x')"
    using row by metis
  then have "y = y'" using guid_unique [OF tree_okD(2) [OF ok], of y y'] by simp
  then have "x = x'" using x x' id_unique [OF tree_okD(1) [OF ok], of x x'] by simp
  then show "a = b" using x x' by simp
qed

lemma root_not_below:
  assumes "roots_ok T" "one_parent T" "\<And>r. g \<noteq> root_as_str r" shows "root_as_str r \<notin> below T g"
proof -
  have none: "root_as_str Root \<notin> below T g"
  proof
    assume "root_as_str Root \<in> below T g"
    then have "(g, root_as_str Root) \<in> {(a, b). b \<in> set (fo_kids T a)}\<^sup>*" by (simp add: below_def)
    then show False using assms(1) assms(3) [of Root] by (cases rule: rtranclE) (auto simp: roots_ok_def simp del: root_as_str.simps)
  qed
  show ?thesis
  proof (cases "r = Root")
    case False
    show ?thesis
    proof
      assume "root_as_str r \<in> below T g"
      then have "(g, root_as_str r) \<in> {(a, b). b \<in> set (fo_kids T a)}\<^sup>*" by (simp add: below_def)
      then show False
      proof (cases rule: rtranclE)
        case base
        then show ?thesis using assms(3) by blast
      next
        case (step a)
        have "root_as_str r \<in> set (fo_kids T (root_as_str Root))" using assms(1) False by (cases r) (auto simp: roots_ok_def)
        then have "a = root_as_str Root" using step(2) assms(2) unfolding one_parent_def by blast
        then show ?thesis using step(1) none by (simp add: below_def)
      qed
    qed
  qed (use none in simp)
qed

lemma root_not_among_four: "root_as_str Root \<notin> set (map root_as_str [Menu, Toolbar, Unfiled, Mobile])"
  by simp

lemma root_rows_roots: "roots_ok (forest (no_places\<lparr>moz_bookmarks := root_rows moment\<rparr>))"
proof -
  let ?rows = "root_rows moment" and ?four = "map root_as_str [Menu, Toolbar, Unfiled, Mobile]"
  have kids: "map bm_guid (children ?rows p) = (if p = 1 then ?four else [])" for p
    by (simp add: children_def child_rows_def root_rows_def root_row_def)
  have at_root: "map_option bm_id (item_at ?rows (root_as_str Root)) = Some 1" by (simp add: item_at_def root_rows_def root_row_def)
  have "kids ?rows g = [] \<or> kids ?rows g = ?four" for g by (auto simp: kids_def kids split: option.splits)
  then have "root_as_str Root \<notin> set (kids ?rows g)" for g by (metis (no_types) root_not_among_four list.set(1) empty_iff)
  moreover have "kids ?rows (root_as_str Root) = ?four" using at_root kids by (auto simp: kids_def simp del: root_as_str.simps)
  moreover have "map_option (\<lambda>r. it_type (item_of [] r)) (item_at ?rows (root_as_str r)) = Some Folder" for r
    by (cases r) (simp_all add: item_at_def root_rows_def root_row_def item_of_def from_u8_with_valid_url_def bookmark_type_from_u8_def)
  ultimately show ?thesis by (simp add: roots_ok_def forest_def no_places_def option.map_comp comp_def del: root_as_str.simps list.map)
qed

lemma roots_add:
  assumes "roots_ok T" "p \<noteq> root_as_str Root" "fo_items T g = None" shows "roots_ok (add_item g x p k T)"
proof -
  have "g \<noteq> root_as_str r" for r using assms(1,3) unfolding roots_ok_def by (metis option.map_disc_iff option.distinct(1))
  then show ?thesis using assms(1,2) by (auto simp: roots_ok_def add_item_def simp del: root_as_str.simps)
qed

lemma roots_remove:
  assumes "roots_ok T" "one_parent T" and g: "\<And>r. g \<noteq> root_as_str r" shows "roots_ok (remove_item g T)"
proof -
  note nb = root_not_below [OF assms]
  have "removeAll g (map root_as_str rs) = map root_as_str rs" for rs using g by (intro removeAll_id) auto
  then show ?thesis using assms(1) nb by (simp add: roots_ok_def remove_item_def restrict_map_def del: root_as_str.simps list.map)
qed

lemma roots_move:
  assumes "roots_ok T" and g: "\<And>r. g \<noteq> root_as_str r" and "p \<noteq> root_as_str Root" shows "roots_ok (move_item g p k T)"
proof -
  have "removeAll g (map root_as_str rs) = map root_as_str rs" for rs using g by (intro removeAll_id) auto
  then show ?thesis using assms g [of Root] by (auto simp: roots_ok_def move_item_def simp del: root_as_str.simps list.map)
qed

lemma roots_change: "roots_ok T \<Longrightarrow> (\<And>r. g \<noteq> root_as_str r) \<Longrightarrow> roots_ok (change_item g x T)"
  by (auto simp: roots_ok_def change_item_def simp del: root_as_str.simps list.map)

lemma roots_moved:
  assumes "roots_ok T" and g: "\<And>r. g \<noteq> root_as_str r" and "g \<in> set (fo_kids T pg)"
    and "\<And>p pos. loc = Parent p pos \<Longrightarrow> p \<noteq> root_as_str Root"
  shows "roots_ok (moved_item loc pg g T)"
proof -
  have "g \<notin> set (map root_as_str rs)" for rs using g by auto
  then have "pg \<noteq> root_as_str Root" using assms(1,3) unfolding roots_ok_def by metis
  then show ?thesis using assms(1,4) roots_move [OF assms(1) g] by (auto simp: moved_item_def split: UpdateTreeLocation.splits)
qed

section \<open>Histories\<close>

text \<open>
  A fresh database and any calls on it. Calls that fail are included as long as the transaction could be
  rolled back; of the updates those that succeed, without the move that leaves a gap.
\<close>

inductive bookmark_history :: "'w PlacesEnv \<Rightarrow> bool \<Rightarrow> Conn \<Rightarrow> bool" for env :: "'w PlacesEnv" and dbg :: bool where
  created: "create_bookmark_roots env (w, \<lparr>cn_tables = no_places, cn_saved = None\<rparr>) = (Ok u, (w', c)) \<Longrightarrow> bookmark_history env dbg c"
| inserted: "bookmark_history env dbg c \<Longrightarrow> insert_bookmark env bm (w, c) = (res, (w', c')) \<Longrightarrow> cn_saved c' = None \<Longrightarrow>
    bookmark_history env dbg c'"
| deleted: "bookmark_history env dbg c \<Longrightarrow> delete_bookmark env guid (w, c) = (res, (w', c')) \<Longrightarrow> cn_saved c' = None \<Longrightarrow>
    bookmark_history env dbg c'"
| updated: "bookmark_history env dbg c \<Longrightarrow> update_bookmark env dbg guid item (w, c) = Some (Ok u, (w', c')) \<Longrightarrow>
    (\<And>pg. guid \<in> set (fo_kids (forest (cn_tables c)) pg) \<Longrightarrow> \<not> leaves_gap (updatable_location item) pg (forest (cn_tables c))) \<Longrightarrow>
    bookmark_history env dbg c'"

lemma durable_idle: "durable c' = cn_tables c \<Longrightarrow> cn_saved c' = None \<Longrightarrow> cn_tables c' = cn_tables c"
  by (simp add: durable_def)

lemma well_known_None: "well_known g = None \<longleftrightarrow> (\<forall>r. g \<noteq> root_as_str r)"
  by (metis not_Some_eq well_known_Some)


end
