(* ===== verification/BookmarkLive.thy ===== *)
theory BookmarkLive
  imports BookmarkHistory
begin

text \<open>
  What an update does beyond its successful runs: a folder moved below itself makes the call run forever,
  and a call that fails half-way commits what it has written.
\<close>

section \<open>Runs that succeed\<close>

definition reliable :: "'w PlacesEnv \<Rightarrow> bool" where
  "reliable env \<longleftrightarrow> (\<forall>w. fst (pe_sql env w) = Ok ())"

definition yields :: "('w, 'a) places_op \<Rightarrow> Conn \<Rightarrow> 'a \<Rightarrow> Conn \<Rightarrow> bool" where
  "yields m c a c' \<longleftrightarrow> (\<forall>w. \<exists>w'. m (w, c) = (Ok a, (w', c')))"

definition diverges :: "('w, 'a) maybe_op \<Rightarrow> Conn \<Rightarrow> bool" where
  "diverges m c \<longleftrightarrow> (\<forall>w. m (w, c) = None)"

lemma yields_abind: "yields m c a c' \<Longrightarrow> yields (f a) c' b c'' \<Longrightarrow> yields (abind m f) c b c''"
  unfolding yields_def abind_def by (metis (no_types, lifting) case_prod_conv outcome.simps(10))

lemma yields_ret: "yields (ret a) c a c"
  by (simp add: yields_def ret_def)

lemma yields_lift: "r = Ok a \<Longrightarrow> yields (lift r) c a c"
  by (simp add: yields_def lift_def)

lemma yields_assert: "b \<Longrightarrow> yields (assert_that b msg) c () c"
  by (simp add: yields_def assert_that_def ret_def)

lemma yields_sql: "reliable env \<Longrightarrow> yields (sql env) c () c"
  unfolding yields_def
proof
  fix w assume "reliable env"
  then obtain w' where "pe_sql env w = (Ok (), w')" by (metis reliable_def prod.collapse)
  then show "\<exists>w'. sql env (w, c) = (Ok (), (w', c))" by (simp add: sql_def world_def)
qed

lemma yields_exec: "reliable env \<Longrightarrow> f (cn_tables c) = Ok t \<Longrightarrow> yields (exec env f) c () (c\<lparr>cn_tables := t\<rparr>)"
  unfolding exec_def by (rule yields_abind [OF yields_sql]) (simp_all add: yields_def)

lemma yields_query: "reliable env \<Longrightarrow> yields (query env f) c (f (cn_tables c)) c"
  unfolding query_def by (rule yields_abind [OF yields_sql]) (simp_all add: yields_def)

lemma diverges_first: "diverges m c \<Longrightarrow> diverges (mbind m f) c"
  by (simp add: diverges_def mbind_def)

lemma diverges_then:
  assumes "yields m c a c'" "diverges (f a) c'" shows "diverges (mbind (runs m) f) c"
  unfolding diverges_def
proof
  fix w
  obtain w' where "m (w, c) = (Ok a, (w', c'))" using assms(1) by (auto simp: yields_def)
  then show "mbind (runs m) f (w, c) = None" using assms(2) by (simp add: mbind_def runs_def diverges_def)
qed

text \<open>The time is read from the world, so what follows must diverge at every time.\<close>

lemma diverges_now:
  assumes "\<And>time. diverges (f time) c" shows "diverges (mbind (runs (now env)) f) c"
  using assms by (simp add: diverges_def mbind_def runs_def now_def)

section \<open>Rows that can be read\<close>

definition readable :: "PlacesTables \<Rightarrow> bool" where
  "readable t \<longleftrightarrow> (\<forall>r \<in> set (moz_bookmarks t). sql_length (bm_guid r) = 12 \<and> 0 \<le> bm_position r \<and> bm_position r < 2 ^ 32 \<and>
     0 \<le> bm_syncChangeCounter r \<and> bm_syncChangeCounter r < 2 ^ 32)"

lemma folder_readable:
  assumes "tree_ok (moz_bookmarks t)" "readable t" "r \<in> set (moz_bookmarks t)" "bm_type r = bookmark_type_u8 Folder"
  shows "\<exists>b. raw_bookmark_from_row env t r = Ok b"
proof -
  have "bm_fk r = None" using tree_okD(3) [OF assms(1,3)] assms(4) by (simp add: row_ok_def)
  then show ?thesis using assms(2,3) by (simp add: raw_bookmark_from_row_def readable_def get_u32_def place_with_id_def Let_def)
qed

lemma yields_get_raw_bookmark:
  assumes "reliable env" "item_at (moz_bookmarks (cn_tables c)) g = Some r" "raw_bookmark_from_row env (cn_tables c) r = Ok b"
  shows "yields (get_raw_bookmark env g) c (Some b) c"
  unfolding get_raw_bookmark_def
  by (rule yields_abind [OF yields_query [OF assms(1)]])
    (use assms(2,3) in \<open>auto simp: item_at_def intro: yields_abind yields_lift yields_ret\<close>)

lemma yields_resolve_pos:
  assumes "reliable env"
  shows "yields (resolve_pos_for_insert env pos parent) c (clip pos (rb_child_count parent))
     (c\<lparr>cn_tables := make_room pos (rb_row_id parent) (rb_child_count parent) (cn_tables c)\<rparr>)"
proof (cases pos)
  case (Specific k)
  then show ?thesis unfolding resolve_pos_for_insert_def
    by (auto simp: Let_def clip_def make_room_def intro!: yields_abind yields_exec [OF assms] yields_ret)
next
  case Append
  then show ?thesis by (simp add: resolve_pos_for_insert_def clip_def make_room_def yields_ret)
qed

lemma yields_relocate:
  assumes rel: "reliable env" and ok: "tree_ok (moz_bookmarks (cn_tables c))" "readable (cn_tables c)"
    and g: "item_at (moz_bookmarks (cn_tables c)) g = Some q'" "bm_type q' = bookmark_type_u8 Folder" "g \<noteq> root_as_str Root"
    and q: "q \<in> set (moz_bookmarks (cn_tables c))" "bm_type q = bookmark_type_u8 Folder"
  shows "\<exists>k c1. yields (relocate env dbg guid b (bm_guid q) p (Parent g pos)) c (bm_id q', k, True, True) c1"
proof -
  let ?t = "cn_tables c"
  note q' = item_at_Some [OF g(1)]
  obtain np where np: "raw_bookmark_from_row env ?t q' = Ok np" using folder_readable [OF ok] q' g(2) by blast
  obtain ep where ep: "raw_bookmark_from_row env ?t q = Ok ep" using folder_readable [OF ok q(1,2)] by blast
  have type: "rb_bookmark_type np = Folder" using raw_bookmark_Ok(8) [OF np] row_ok_type [OF tree_okD(3) [OF ok(1)], of q'] q' g(2) by simp
  have "yields (relocate env dbg guid b (bm_guid q) p (Parent g pos)) c
      (rb_row_id np, clip pos (rb_child_count np), True, True)
      (c\<lparr>cn_tables := make_room pos (rb_row_id np) (rb_child_count np) (shift_from (rb_row_id ep) (rb_position b) (- 1) ?t)\<rparr>)"
    unfolding relocate_def UpdateTreeLocation.case
    using g(3) type
    apply simp
    apply (rule yields_abind [OF yields_get_raw_bookmark [OF rel g(1) np]])
    apply (rule yields_abind [OF yields_lift], simp)
    apply simp
    apply (rule yields_abind [OF yields_get_raw_bookmark [OF rel item_at_unique [OF tree_okD(2) [OF ok(1)] q(1)] ep]])
    apply (rule yields_abind [OF yields_lift], simp)
    apply (rule yields_abind)
     apply (unfold update_pos_for_deletion_def)
     apply (rule yields_exec [OF rel], rule refl)
    apply (rule yields_abind)
     apply (rule yields_resolve_pos [OF rel])
    apply (simp add: yields_ret)
    done
  then show ?thesis using raw_bookmark_Ok(1) [OF np] by auto
qed

section \<open>The update that never returns\<close>

lemma diverges_set_ancestors:
  assumes "reliable env" "ancestors (moz_bookmarks (cn_tables c)) a = None"
  shows "diverges (set_ancestors_last_modified env a time) c"
  unfolding set_ancestors_last_modified_def
  by (rule diverges_then [OF yields_query [OF assms(1)]]) (simp add: assms(2) diverges_def)

lemma set_ancestors_returns:
  assumes "reliable env" "ancestors (moz_bookmarks (cn_tables c)) a = Some ids"
  shows "\<exists>w'. set_ancestors_last_modified env a time (w, c) = Some (Ok (), (w', c\<lparr>cn_tables :=
     update_bookmarks (\<lambda>r. bm_id r \<in> set ids) (\<lambda>r. r\<lparr>bm_lastModified := time\<rparr>) (cn_tables c)\<rparr>))"
proof -
  obtain w' where "query env (\<lambda>t. ancestors (moz_bookmarks t) a) (w, c) = (Ok (Some ids), (w', c))"
    using yields_query [OF assms(1), of "\<lambda>t. ancestors (moz_bookmarks t) a" c] assms(2) by (auto simp: yields_def)
  then show ?thesis by (simp add: set_ancestors_last_modified_def mbind_def runs_def)
qed

lemma diverges_after_ancestors:
  assumes "reliable env" "\<And>ids. ancestors (moz_bookmarks (cn_tables c)) a = Some ids \<Longrightarrow> diverges f (c\<lparr>cn_tables :=
     update_bookmarks (\<lambda>r. bm_id r \<in> set ids) (\<lambda>r. r\<lparr>bm_lastModified := time\<rparr>) (cn_tables c)\<rparr>)"
  shows "diverges (mbind (set_ancestors_last_modified env a time) (\<lambda>_. f)) c"
proof (cases "ancestors (moz_bookmarks (cn_tables c)) a")
  case None
  then show ?thesis by (intro diverges_first diverges_set_ancestors assms(1))
next
  case (Some ids)
  show ?thesis unfolding diverges_def
  proof
    fix w
    show "mbind (set_ancestors_last_modified env a time) (\<lambda>_. f) (w, c) = None"
      using set_ancestors_returns [OF assms(1) Some, of time w] assms(2) [OF Some] by (auto simp: mbind_def diverges_def)
  qed
qed

lemma ancestors_touched: "ancestors (map (touched A time f) rows) = ancestors rows"
  by (rule ancestors_cong) (simp add: folder_parent_map)

lemma write_update_diverges:
  assumes rel: "reliable env" and "f (cn_tables c) = Ok t" and cyc: "ancestors (moz_bookmarks t) p' = None"
  shows "diverges (write_update env f p p' True True time) c"
  unfolding write_update_def if_True
  apply (rule diverges_then [OF yields_exec [where f = f, OF rel assms(2)]])
  apply (rule diverges_after_ancestors [OF rel])
  apply (rule diverges_then [OF yields_exec [OF rel]], rule refl)
  apply (rule diverges_first)
  apply (rule diverges_set_ancestors [OF rel])
  apply (simp add: set_modified_touched bump_counter_touched ancestors_touched cyc del: map_map)
  done

lemma update_existing_diverges:
  assumes rel: "reliable env" and ok: "tree_ok (moz_bookmarks (cn_tables c))" "readable (cn_tables c)"
    and r: "r \<in> set (moz_bookmarks (cn_tables c))" "raw_bookmark_from_row env (cn_tables c) r = Ok b" "bm_parent r = Some p"
      "bm_type r = bookmark_type_u8 Folder" "\<not> is_root (bm_guid r)"
    and q: "q \<in> set (moz_bookmarks (cn_tables c))" "bm_type q = bookmark_type_u8 Folder" "bm_id q = p"
    and g: "item_at (moz_bookmarks (cn_tables c)) g = Some q'" "bm_type q' = bookmark_type_u8 Folder" "g \<noteq> root_as_str Root"
      "bm_id q' \<in> subtree (moz_bookmarks (cn_tables c)) (bm_id r)"
  shows "diverges (update_existing env dbg (bm_guid r) (UpdatableFolder (Parent g pos) title) b (bm_guid q) p) c"
proof -
  let ?t = "cn_tables c" and ?rows = "moz_bookmarks (cn_tables c)"
  note B = raw_bookmark_Ok [OF r(2)] and q' = item_at_Some [OF g(1)]
  have fk: "bm_fk r = None" using tree_okD(3) [OF ok(1) r(1)] r(4) by (simp add: row_ok_def)
  have type: "rb_bookmark_type b = Folder" using B(8) row_ok_type [OF tree_okD(3) [OF ok(1) r(1)]] r(4) by simp
  obtain k c1 where y: "yields (relocate env dbg (bm_guid r) b (bm_guid q) p (Parent g pos)) c (bm_id q', k, True, True) c1"
    using yields_relocate [OF rel ok g(1,2,3) q(1,2)] q(3) by blast
  have bw: "bookmark_with_id ?t (Some p) = Some q" using find_unique [OF tree_okD(1) [OF ok(1)] q(1)] q(3) by (simp add: bookmark_with_id_def)
  obtain w0 w1 where run: "relocate env dbg (bm_guid r) b (bm_guid q) p (Parent g pos) (w0, c) = (Ok (bm_id q', k, True, True), (w1, c1))"
    using y unfolding yields_def by blast
  have mv: "moved_to (Parent g pos) r p ?t (bm_id q') k (cn_tables c1)"
    using satD(1) [OF sat_relocate [OF r(2,1,3) bw] run] tree_ok_keyed [OF ok(1)] by simp
  obtain s i where s: "same_but_position s" "moz_bookmarks (cn_tables c1) = map s ?rows"
    using moved_to_rows [OF ok(1) r(1,3) mv] by blast
  note S = same_but_positionD [OF s(1)]
  have stmt: "\<exists>t3. update_bookmark_row None (bm_id q') k ti time inc (bm_id r) (cn_tables c1) = Ok t3" for ti time inc
  proof -
    have "filter (\<lambda>x. bm_id x = bm_id r) (moz_bookmarks (cn_tables c1)) = [s r]"
      using filter_by_id [OF tree_okD(1) [OF ok(1)] r(1)] S(1) by (simp add: s(2) filter_map comp_def)
    moreover have "sql_length (bm_guid r) = 12" using ok(2) r(1) by (simp add: readable_def)
    ultimately show ?thesis using r(4) q' by (auto simp: update_bookmark_row_def Let_def bookmark_checks_def S s(2))
  qed
  have div: "diverges (write_update env (update_bookmark_row None (bm_id q') k ti time inc (bm_id r)) p (bm_id q') True True time) c1" for ti time inc
  proof -
    obtain t3 where t3: "update_bookmark_row None (bm_id q') k ti time inc (bm_id r) (cn_tables c1) = Ok t3" using stmt by blast
    note W = update_row_Ok(2) [OF tree_okD(1) [OF ok(1)] r(1) s t3]
    have "ancestors (moz_bookmarks t3) (bm_id q') = None"
      unfolding W
      by (rule moved_below_itself [OF ok(1) r(1) _ _ _ conjunct1 [OF q'] refl g(2,4)])
        (use S id_unique [OF tree_okD(1) [OF ok(1)] _ r(1)] in auto)
    then show ?thesis by (rule write_update_diverges [where f = "update_bookmark_row None (bm_id q') k ti time inc (bm_id r)", OF rel t3])
  qed
  have place: "yields (new_place_id env b (UpdatableFolder (Parent g pos) title)) c1 None c1"
    using B(2) fk by (auto simp: new_place_id_def intro: yields_abind yields_assert yields_ret)
  show ?thesis unfolding update_existing_def
    using type B(1) div
    by (auto simp: Let_def intro!: diverges_then [OF y] diverges_then [OF place] diverges_now)
qed

lemma yields_begin:
  assumes "reliable env" "cn_saved c = None" shows "yields (begin_transaction env) c () (c\<lparr>cn_saved := Some (cn_tables c)\<rparr>)"
proof -
  have first: "yields (begin_tx env) c () (c\<lparr>cn_saved := Some (cn_tables c)\<rparr>)"
    unfolding begin_tx_def by (rule yields_abind [OF yields_sql [OF assms(1)]]) (simp add: yields_def assms(2))
  show ?thesis unfolding yields_def
  proof
    fix w
    obtain w' where "begin_tx env (w, c) = (Ok (), (w', c\<lparr>cn_saved := Some (cn_tables c)\<rparr>))" using first by (auto simp: yields_def)
    then show "\<exists>w'. begin_transaction env (w, c) = (Ok (), (w', c\<lparr>cn_saved := Some (cn_tables c)\<rparr>))" by (simp add: begin_transaction_def)
  qed
qed

text \<open>
  C39. Moving a folder into itself or into a folder below it is not refused: although nothing fails, the
  call never returns. The row is written, and the query for the ancestors of the new parent, a recursive
  query that keeps duplicates, follows the cycle forever.
\<close>

theorem move_below_itself_never_returns:
  assumes "reliable env" "store_ok (cn_tables c)" "readable (cn_tables c)" "cn_saved c = None"
    and "map_option it_type (fo_items (forest (cn_tables c)) guid) = Some Folder" "\<not> is_root guid"
    and "map_option it_type (fo_items (forest (cn_tables c)) g) = Some Folder" "g \<noteq> root_as_str Root"
    and "g \<in> below (forest (cn_tables c)) guid"
  shows "update_bookmark env dbg guid (UpdatableFolder (Parent g pos) title) (w, c) = None"
proof -
  let ?t = "cn_tables c" and ?rows = "moz_bookmarks (cn_tables c)" and ?c = "c\<lparr>cn_saved := Some (cn_tables c)\<rparr>"
  let ?item = "UpdatableFolder (Parent g pos) title"
  have ok: "tree_ok ?rows" using assms(2) by (simp add: store_ok_def)
  have folder: "\<exists>r. item_at ?rows g = Some r \<and> r \<in> set ?rows \<and> bm_guid r = g \<and> bm_type r = bookmark_type_u8 Folder"
    if "map_option it_type (fo_items (forest ?t) g) = Some Folder" for g
    using that row_ok_type [OF tree_okD(3) [OF ok]] item_at_Some [of ?rows g] by (auto simp: forest_items item_of_def)
  obtain r where r: "item_at ?rows guid = Some r" "r \<in> set ?rows" "bm_guid r = guid" "bm_type r = bookmark_type_u8 Folder"
    using folder [OF assms(5)] by blast
  obtain q' where q': "item_at ?rows g = Some q'" "q' \<in> set ?rows" "bm_guid q' = g" "bm_type q' = bookmark_type_u8 Folder"
    using folder [OF assms(7)] by blast
  have "below (forest ?t) guid = bm_guid ` {x \<in> set ?rows. bm_id x \<in> subtree ?rows (bm_id r)}"
    using below_subtree [OF ok r(2)] r(3) by (simp add: below_def forest_kids)
  then have below: "bm_id q' \<in> subtree ?rows (bm_id r)"
    using assms(9) q' guid_unique [OF tree_okD(2) [OF ok] q'(2)] by auto
  have "bm_parent r \<noteq> None" using tree_okD(3) [OF ok r(2)] r(3) assms(6) by (auto simp: row_ok_def is_root_iff simp del: root_as_str.simps)
  then obtain p q where p: "bm_parent r = Some p" and q: "q \<in> set ?rows" "bm_id q = p" "bm_type q = bookmark_type_u8 Folder"
    using tree_okD(4) [OF ok] r(2) unfolding parents_ok_def by blast
  obtain b where b: "raw_bookmark_from_row env ?t r = Ok b" using folder_readable [OF ok assms(3) r(2,4)] by blast
  note B = raw_bookmark_Ok [OF b]
  have pg: "rb_parent_guid b = Some (bm_guid q)" "rb_parent_id b = Some p"
    using B(3,9) p q find_unique [OF tree_okD(1) [OF ok] q(1)] by (auto simp: bookmark_with_id_def)
  have body: "diverges (update_existing env dbg guid ?item b (bm_guid q) p) ?c"
    using update_existing_diverges [of env ?c r b p q g q' dbg pos title] assms(1,3,6,8) ok r p b q q' below by simp
  have "diverges (update_bookmark_in_tx env dbg guid ?item) ?c"
    unfolding update_bookmark_in_tx_def
    using assms(6) pg
    apply simp
    apply (rule diverges_then [OF yields_get_raw_bookmark [OF assms(1), of _ guid r b]], simp add: r(1), simp add: b)
    apply (rule diverges_then [OF yields_lift], simp)+
    apply (rule body)
    done
  then have "diverges (update_bookmark env dbg guid ?item) c"
    unfolding update_bookmark_def by (intro diverges_then [OF yields_begin [OF assms(1,4)]]) (simp add: diverges_def)
  then show ?thesis by (simp add: diverges_def)
qed

section \<open>The update that fails and is committed\<close>

text \<open>
  C40. An update that fails is not rolled back: \<^verbatim>\<open>update_bookmark\<close> commits whatever its body returned, so what
  the statements before the failing one wrote stays. (Insertions and deletions are rolled back.)
\<close>

theorem failed_update_is_committed:
  assumes "reliable env" "cn_saved c = None" "update_bookmark env dbg guid item (w, c) = Some (Err e, (w', c'))"
  shows "\<exists>w0 w1 c1. update_bookmark_in_tx env dbg guid item (w0, c\<lparr>cn_saved := Some (cn_tables c)\<rparr>) = Some (Err e, (w1, c1)) \<and>
     cn_saved c' = None \<and> cn_tables c' = cn_tables c1"
proof -
  let ?c = "c\<lparr>cn_saved := Some (cn_tables c)\<rparr>"
  obtain w0 where 0: "begin_transaction env (w, c) = (Ok (), (w0, ?c))" using yields_begin [OF assms(1,2)] by (auto simp: yields_def)
  obtain result w1 c1 where 1: "update_bookmark_in_tx env dbg guid item (w0, ?c) = Some (result, (w1, c1))"
    using assms(3) 0 by (auto simp: update_bookmark_def mbind_def runs_def split: option.splits)
  have c1: "cn_saved c1 \<noteq> None" using satm_any_update 1 by (fastforce simp: satm_def)
  have "yields (commit_tx env) c1 () (c1\<lparr>cn_saved := None\<rparr>)"
    unfolding commit_tx_def by (rule yields_abind [OF yields_sql [OF assms(1)]]) (use c1 in \<open>simp add: yields_def\<close>)
  then obtain w2 where 2: "commit_tx env (w1, c1) = (Ok (), (w2, c1\<lparr>cn_saved := None\<rparr>))" by (auto simp: yields_def)
  have "result = Err e \<and> c' = c1\<lparr>cn_saved := None\<rparr>"
    using assms(3) 0 1 2 by (cases result) (auto simp: update_bookmark_def mbind_def runs_def abind_def lift_def)
  then show ?thesis using 1 by auto
qed

end
