(* ===== verification/BookmarkDemo.thy ===== *)
theory BookmarkDemo
  imports BookmarkLive
begin

text \<open>Concrete databases on which the theorems on bookmarks are used.\<close>

definition demo_env :: "unit PlacesEnv" where
  "demo_env = \<lparr>pe_sql = \<lambda>w. (Ok (), w), pe_now = \<lambda>_. 7000000, pe_random_guid = \<lambda>w. (Ok ''aaaaaaaaaaaa'', w),
     pe_err_if_interrupted = \<lambda>w. (Ok (), w), pe_url_parse = Some, pe_max_vars = 999\<rparr>"

definition demo_roots :: Conn where
  "demo_roots = \<lparr>cn_tables = no_places\<lparr>moz_bookmarks := root_rows 7\<rparr>, cn_saved = None\<rparr>"

definition demo_folder :: InsertableItem where
  "demo_folder = InsertFolder \<lparr>in_parent_guid = ''unfiled_____'', in_position = Append, in_date_added = None, in_last_modified = None,
     in_guid = Some ''folderAAAAAA'', inf_title = None\<rparr>"

definition demo_rows :: "BookmarkRow list" where
  "demo_rows = [root_row 1 Root ''root'' None 0 7, root_row 2 Menu ''menu'' (Some 1) 0 7, root_row 3 Toolbar ''toolbar'' (Some 1) 1 7,
      (root_row 4 Unfiled ''unfiled'' (Some 1) 2 7)\<lparr>bm_syncChangeCounter := 2\<rparr>, root_row 5 Mobile ''mobile'' (Some 1) 3 7,
      \<lparr>bm_id = 6, bm_fk = None, bm_type = 2, bm_parent = Some 4, bm_position = 0, bm_title = None, bm_dateAdded = 7,
       bm_lastModified = 7, bm_guid = ''folderAAAAAA'', bm_syncStatus = 1, bm_syncChangeCounter = 1\<rparr>]"

definition demo_conn :: Conn where
  "demo_conn = \<lparr>cn_tables = no_places\<lparr>moz_bookmarks := demo_rows\<rparr>, cn_saved = None\<rparr>"

lemmas places_eval = abind_def ret_def throw_def panic_def lift_def get_st_def assert_that_def world_def sql_def exec_def query_def now_def
  new_guid_def begin_tx_def begin_transaction_def commit_tx_def rollback_tx_def drop_tx_def delete_pending_temp_tables_def get_u32_def get_url_def
  raw_bookmark_from_row_def bookmark_with_id_def place_with_id_def Let_def from_u8_with_valid_url_def bookmark_type_from_u8_def or_now_def
  insert_bookmark_row_def bookmark_checks_def next_rowid_def sql_length_def is_continuation_def maybe_truncate_title_def nullif_empty_def
  get_raw_bookmark_def resolve_pos_for_insert_def InsertableCommon.defs no_places_def root_row_def bump_counter_def update_bookmarks_def
  bump_foreign_count_def

lemma demo_created: "create_bookmark_roots demo_env ((), \<lparr>cn_tables = no_places, cn_saved = None\<rparr>) = (Ok (), ((), demo_roots))"
  unfolding create_bookmark_roots_def create_root_def demo_env_def demo_roots_def by (simp add: places_eval root_rows_def)

lemma demo_inserted: "insert_bookmark demo_env demo_folder ((), demo_roots) = (Ok ''folderAAAAAA'', ((), demo_conn))"
  unfolding insert_bookmark_def insert_bookmark_in_tx_def demo_folder_def demo_roots_def demo_env_def demo_conn_def
  by (simp add: places_eval root_rows_def demo_rows_def)

lemma demo_roots_ok: "store_ok (cn_tables demo_roots)" "cn_saved demo_roots = None"
  by (simp_all add: demo_roots_def root_rows_ok)

lemma demo_conn_ok: "store_ok (cn_tables demo_conn)" "cn_saved demo_conn = None"
proof -
  have "insert_effect demo_folder (cn_tables demo_roots) ''folderAAAAAA'' (cn_tables demo_conn)"
    using insert_bookmark_run [OF demo_inserted demo_roots_ok(2)] by simp
  from insert_refines(1) [OF demo_roots_ok(1) this] show "store_ok (cn_tables demo_conn)" .
qed (simp add: demo_conn_def)

lemma demo_reliable: "reliable demo_env"
  by (simp add: reliable_def demo_env_def)

lemma demo_readable: "readable (cn_tables demo_conn)"
  by (simp add: readable_def demo_conn_def demo_rows_def root_row_def sql_length_def is_continuation_def)

lemma demo_items:
  "map_option it_type (fo_items (forest (cn_tables demo_conn)) ''folderAAAAAA'') = Some Folder"
  "fo_kids (forest (cn_tables demo_conn)) ''unfiled_____'' = [''folderAAAAAA'']" "fo_kids (forest (cn_tables demo_conn)) ''menu________'' = []"
  by (simp_all add: forest_def item_at_def item_of_def demo_conn_def demo_rows_def root_row_def no_places_def kids_def children_def child_rows_def
      from_u8_with_valid_url_def bookmark_type_from_u8_def)

lemma demo_common: "insertable_common demo_folder = \<lparr>in_parent_guid = ''unfiled_____'', in_position = Append, in_date_added = None,
    in_last_modified = None, in_guid = Some ''folderAAAAAA''\<rparr>"
  by (simp add: demo_folder_def InsertableCommon.defs)

lemma demo_roots_kids: "fo_kids (forest (cn_tables demo_roots)) ''unfiled_____'' = []"
  by (simp add: demo_roots_def forest_def kids_def children_def child_rows_def item_at_def root_rows_def root_row_def)

theorem insert_bookmark_correct_witness:
  "store_ok (cn_tables demo_roots) \<and> cn_saved demo_roots = None \<and>
   insert_bookmark demo_env demo_folder ((), demo_roots) = (Ok ''folderAAAAAA'', ((), demo_conn)) \<and>
   fo_kids (forest (cn_tables demo_conn)) ''unfiled_____'' = insert_at 0 ''folderAAAAAA'' (fo_kids (forest (cn_tables demo_roots)) ''unfiled_____'')"
  using insert_bookmark_correct [OF demo_roots_ok demo_inserted] demo_roots_ok demo_inserted
  by (simp add: demo_common demo_roots_kids add_item_def clip_def Let_def)

lemma demo_deleted: "delete_bookmark demo_env ''folderAAAAAA'' ((), demo_conn) =
    (Ok True, ((), \<lparr>cn_tables = no_places\<lparr>moz_bookmarks := take 5 demo_rows\<rparr>, cn_saved = None\<rparr>))"
  unfolding delete_bookmark_def delete_bookmark_in_tx_def demo_env_def demo_conn_def update_pos_for_deletion_def shift_from_def
  by (simp add: places_eval demo_rows_def well_known_def GUIDS_def delete_bookmark_row_def deleted_with_def)

theorem delete_bookmark_correct_witness:
  "delete_bookmark demo_env ''folderAAAAAA'' ((), demo_conn) =
     (Ok True, ((), \<lparr>cn_tables = no_places\<lparr>moz_bookmarks := take 5 demo_rows\<rparr>, cn_saved = None\<rparr>)) \<and>
   forest (no_places\<lparr>moz_bookmarks := take 5 demo_rows\<rparr>) = remove_item ''folderAAAAAA'' (forest (cn_tables demo_conn))"
  using delete_bookmark_correct [OF demo_conn_ok demo_deleted] demo_deleted by (simp add: Let_def)


theorem move_below_itself_never_returns_witness:
  "update_bookmark demo_env True ''folderAAAAAA'' (UpdatableFolder (Parent ''folderAAAAAA'' Append) None) ((), demo_conn) = None"
  using demo_reliable demo_conn_ok demo_readable demo_items(1)
  by (intro move_below_itself_never_returns) (simp_all add: below_def is_root_def well_known_def GUIDS_def)

lemma ancestors_steps:
  "folder_parent rows a = None \<Longrightarrow> ancestors rows a = Some [a]"
  "folder_parent rows a = Some p \<Longrightarrow> ancestors rows a = Option.bind (ancestors rows p) (\<lambda>as. Some (a # as))"
  by (subst ancestors.simps; simp)+

lemmas update_eval = update_bookmark_def update_bookmark_in_tx_def update_existing_def relocate_def new_place_id_def write_update_def
  set_ancestors_last_modified_def mbind_def runs_def update_bookmark_row_def new_title_def update_pos_for_deletion_def shift_from_def
  is_root_def well_known_def GUIDS_def page_row_id_def fetch_page_info_def new_page_info_def

definition demo_move :: UpdatableItem where
  "demo_move = UpdatableFolder (Parent ''menu________'' Append) (Some [])"

lemma demo_updated: "\<exists>c'. update_bookmark demo_env True ''folderAAAAAA'' demo_move ((), demo_conn) = Some (Ok (), ((), c'))"
  unfolding demo_move_def update_eval demo_env_def demo_conn_def
  by (simp add: places_eval demo_rows_def ancestors_steps folder_parent_def)

theorem update_bookmark_correct_witness:
  "\<exists>c'. update_bookmark demo_env True ''folderAAAAAA'' demo_move ((), demo_conn) = Some (Ok (), ((), c')) \<and> store_ok (cn_tables c') \<and>
     fo_kids (forest (cn_tables c')) ''menu________'' = [''folderAAAAAA''] \<and> fo_kids (forest (cn_tables c')) ''unfiled_____'' = []"
proof -
  obtain c' where run: "update_bookmark demo_env True ''folderAAAAAA'' demo_move ((), demo_conn) = Some (Ok (), ((), c'))" using demo_updated by blast
  have ng: "\<not> leaves_gap (updatable_location demo_move) pg (forest (cn_tables demo_conn))" if "''folderAAAAAA'' \<in> set (fo_kids (forest (cn_tables demo_conn)) pg)" for pg
    using that by (auto simp: leaves_gap_def demo_move_def demo_items)
  obtain old pg where "store_ok (cn_tables c')" "forest (cn_tables c') = change_item ''folderAAAAAA'' (updated_item demo_move old)
      (moved_item (updatable_location demo_move) pg ''folderAAAAAA'' (forest (cn_tables demo_conn)))"
    using update_bookmark_correct [OF demo_conn_ok run] ng unfolding Let_def by metis
  then show ?thesis using run
    by (auto simp: change_item_def moved_item_def demo_move_def move_item_def demo_items clip_def insert_at_def)
qed

definition demo_page :: PlaceRow where
  "demo_page = \<lparr>pl_id = 1, pl_url = ''http://a/'', pl_title = None, pl_visit_count_local = 0, pl_visit_count_remote = 0, pl_hidden = False,
     pl_typed = 0, pl_frecency = - 1, pl_last_visit_date_local = 0, pl_last_visit_date_remote = 0, pl_guid = ''pageAAAAAAAA'',
     pl_foreign_count = 1, pl_sync_status = 1, pl_sync_change_counter = 0\<rparr>"

definition demo_bookmark :: BookmarkRow where
  "demo_bookmark = \<lparr>bm_id = 6, bm_fk = Some 1, bm_type = 1, bm_parent = Some 4, bm_position = 0, bm_title = None, bm_dateAdded = 7,
     bm_lastModified = 7, bm_guid = ''bookmarkAAAA'', bm_syncStatus = 1, bm_syncChangeCounter = 1\<rparr>"

definition demo_pages :: Conn where
  "demo_pages = \<lparr>cn_tables = no_places\<lparr>moz_bookmarks := root_rows 7 @ [demo_bookmark], moz_places := [demo_page]\<rparr>, cn_saved = None\<rparr>"

definition demo_bad_update :: UpdatableItem where
  "demo_bad_update = UpdatableBookmark (Parent ''menu________'' Append) (Some (CHR ''x'' # replicate 65536 CHR ''a'')) None"

lemma demo_failed: "\<exists>c'. update_bookmark demo_env True ''bookmarkAAAA'' demo_bad_update ((), demo_pages) =
    Some (Err (InvalidPlaceInfoError UrlTooLong), ((), c')) \<and> map bm_position (moz_bookmarks (cn_tables c')) = [0, 0, 1, 2, 3, - 1]"
  unfolding demo_bad_update_def update_eval demo_env_def demo_pages_def
  by (simp add: places_eval root_rows_def demo_bookmark_def demo_page_def URL_LENGTH_MAX_def)

theorem failed_update_is_committed_witness:
  "\<exists>c'. update_bookmark demo_env True ''bookmarkAAAA'' demo_bad_update ((), demo_pages) = Some (Err (InvalidPlaceInfoError UrlTooLong), ((), c')) \<and>
     cn_saved c' = None \<and> map bm_position (moz_bookmarks (cn_tables demo_pages)) = [0, 0, 1, 2, 3, 0] \<and>
     map bm_position (moz_bookmarks (cn_tables c')) = [0, 0, 1, 2, 3, - 1]"
proof -
  from demo_failed obtain c' where run: "update_bookmark demo_env True ''bookmarkAAAA'' demo_bad_update ((), demo_pages) = Some (Err (InvalidPlaceInfoError UrlTooLong), ((), c'))"
      "map bm_position (moz_bookmarks (cn_tables c')) = [0, 0, 1, 2, 3, - 1]" by (elim exE conjE)
  have "cn_saved c' = None" using failed_update_is_committed [OF demo_reliable _ run(1)] by (auto simp: demo_pages_def)
  then show ?thesis using run by (simp add: demo_pages_def root_rows_def root_row_def demo_bookmark_def)
qed

end
