(* ===== verification/Spec2Isabelle.thy ===== *)
theory Spec2Isabelle
  imports HandleMapClient FfiCallsCorrect CollectionKeys LoginSyncCorrect LoginSchema BookmarkDemo
begin

text \<open>
  A verification library for the Rust components of application-services (\<^verbatim>\<open>components/\<close>).

  \<^bold>\<open>The program.\<close> Mobile browsers embed these components behind a C interface. \<^verbatim>\<open>support/ffi\<close> keeps
  Rust objects in maps from integer handles and turns errors and panics into error values. \<^verbatim>\<open>sync15\<close>
  is the client of the Sync storage server: it gets a token, sets up the account's records (meta/global
  and the keys), and for each collection downloads, decrypts, encrypts and uploads records through
  \<^verbatim>\<open>viaduct\<close>, the HTTP vocabulary. \<^verbatim>\<open>logins\<close> stores passwords in SQLite and is one of the stores that
  \<^verbatim>\<open>sync15\<close> drives. \<^verbatim>\<open>places\<close> stores pages, visits and bookmarks in SQLite. A call from the application
  takes a handle, finds the engine or connection in its map, and runs one operation in a transaction; a
  sync runs the state machines of \<^verbatim>\<open>sync15\<close> around the store's two operations, applying what
  came in and collecting what goes out.

  \<^bold>\<open>Conventions.\<close> Prelude: \<^verbatim>\<open>Result\<close> with panics is \<^verbatim>\<open>outcome\<close>, and a call that changes a
  state is an \<^verbatim>\<open>action\<close>, which passes its state on after an error and after a panic. Strings and byte vectors are
  lists of bytes. Counters, versions and hashes of fixed width are words where they can wrap. A SQL
  table is the list of its rows, and a statement is its effect on the tables, constraints and triggers
  included. What lies outside the repository (cryptography, JSON text, the network, clocks, random
  guids, failures of SQLite) is an argument or a field of an environment record, and what
  is relied on is a hypothesis of the theorem that uses it.

  \<^bold>\<open>Handles and the C boundary.\<close>
  \<^item> HandleMap: \<^verbatim>\<open>support/ffi/src/handle_map.rs\<close>, \<^verbatim>\<open>HandleMap\<close> with its entries, free list, versions and
    the packing of a handle into 64 bits.
  \<^item> HandleMapCorrect: the invariant, that \<^verbatim>\<open>assert_valid\<close> accepts exactly the maps that satisfy it, and
    the outcome of each operation.
  \<^item> HandleMapClient: the locale \<^verbatim>\<open>handle_store\<close> with its consequences for arbitrary histories: a
    handle yields its value until it is removed, a removed handle is stale for 32767 reuses of its slot,
    an insertion succeeds exactly when there is room.
  \<^item> FfiCalls, FfiCallsCorrect: \<^verbatim>\<open>ConcurrentHandleMap\<close>, its locks and their poisoning, \<^verbatim>\<open>error.rs\<close>,
    \<^verbatim>\<open>call_with_result\<close> and \<^verbatim>\<open>call_with_output\<close>: a panic is reported and damages at most the value it ran on.

  \<^bold>\<open>HTTP.\<close>
  \<^item> Viaduct: \<^verbatim>\<open>viaduct/src/lib.rs\<close>, \<^verbatim>\<open>headers.rs\<close>, \<^verbatim>\<open>headers/name.rs\<close>: header names and values, lists of headers
    without duplicates, requests and responses.

  \<^bold>\<open>Sync.\<close>
  \<^item> SyncTypes: \<^verbatim>\<open>sync15/src/util.rs\<close>, \<^verbatim>\<open>error.rs\<close>, \<^verbatim>\<open>record_types.rs\<close> and the types of \<^verbatim>\<open>request.rs\<close>.
  \<^item> KeyBundle, BsoRecord, CollectionKeys: \<^verbatim>\<open>key_bundle.rs\<close>, \<^verbatim>\<open>bso_record.rs\<close>, \<^verbatim>\<open>collection_keys.rs\<close>:
    encryption round trips, and that nothing is decrypted whose HMAC does not match.
  \<^item> PostQueue, PostQueueCorrect: the upload queue of \<^verbatim>\<open>request.rs\<close>. The locale \<^verbatim>\<open>response_handler\<close> is the
    contract of the handler of the server's answers.
  \<^item> Changeset: \<^verbatim>\<open>changeset.rs\<close>: a successful upload has sent every record once, in requests within the server's
    limits, in one batch when the server supports it.
  \<^item> Token: \<^verbatim>\<open>token.rs\<close>: the token state machine, reuse, back-off, and that one provider never mixes two
    storage nodes.
  \<^item> Client: \<^verbatim>\<open>client.rs\<close>: the requests of the storage client and what their answers become.
  \<^item> SetupState: \<^verbatim>\<open>state.rs\<close>: the setup state machine. Its loop terminates because a state that restarts the
    setup is entered at most once, which is what the code checks; a run wipes the server at most once and is shown
    to write nothing in a fast sync.
  \<^item> CollStateMachine: \<^verbatim>\<open>coll_state.rs\<close>; MigrateState: \<^verbatim>\<open>migrate_state.rs\<close>; Synchronize: \<^verbatim>\<open>sync.rs\<close> and
    \<^verbatim>\<open>sync_multiple.rs\<close>, the order of the steps, the reports of failures and the cached state.

  \<^bold>\<open>Logins.\<close>
  \<^item> LoginTypes, LoginPlan: \<^verbatim>\<open>logins/src/login.rs\<close> and \<^verbatim>\<open>update_plan.rs\<close>: payloads, deltas, the three-way merge
    and the plans.
  \<^item> LoginTables, LoginSchema: \<^verbatim>\<open>schema.rs\<close>, \<^verbatim>\<open>util.rs\<close> and the chunking of \<^verbatim>\<open>support/sql/src/each_chunk.rs\<close>: rows,
    opening, creation and migration of the database.
  \<^item> LoginDb, LoginDbCorrect, LoginEngine: \<^verbatim>\<open>db.rs\<close> and \<^verbatim>\<open>engine.rs\<close>: the operations of the user refine the
    operations on a map from guids to logins, keep the invariant of the two tables and change
    nothing when they fail (locale \<^verbatim>\<open>login_operation\<close>).
  \<^item> LoginSync, LoginSyncCorrect: the \<^verbatim>\<open>Store\<close> of \<^verbatim>\<open>db.rs\<close>: what applying incoming records does to what the user sees.

  \<^bold>\<open>Places.\<close>
  \<^item> PlacesTypes: \<^verbatim>\<open>places/src/types.rs\<close>, \<^verbatim>\<open>types/visit_transition_set.rs\<close>, \<^verbatim>\<open>hash.rs\<close>, \<^verbatim>\<open>valid_guid.rs\<close>, \<^verbatim>\<open>util.rs\<close>,
    \<^verbatim>\<open>storage/bookmarks/root_guid.rs\<close>: the bit set of transitions implements a set, and the range
    that a URL prefix hashes to holds the hashes of all URLs with that prefix.
  \<^item> PlacesTables: \<^verbatim>\<open>places/sql\<close>, \<^verbatim>\<open>storage/mod.rs\<close>, \<^verbatim>\<open>db/tx/coop_transaction.rs\<close> and the transactions of
    \<^verbatim>\<open>support/sql/src/conn_ext.rs\<close>: rows and constraints, the triggers on bookmarks, transactions with retries.
  \<^item> BookmarkDb: \<^verbatim>\<open>storage/bookmarks.rs\<close>: the roots, insertion, deletion and update of a bookmark.
    Deleting a folder cascades in rounds, one per level; the number of rows bounds the number of levels. The
    loop over the ancestors of an item is a \<^verbatim>\<open>partial_function\<close>, so that a loop that never ends has
    the value None, and the theorems on updates state when it ends.
  \<^item> BookmarkTree, BookmarkTables, BookmarkForest, BookmarkMove: the tree that the rows stand for (\<^verbatim>\<open>forest\<close>), the
    invariant \<^verbatim>\<open>tree_ok\<close>, and what each statement does to the children of a folder.
  \<^item> BookmarkCorrect, BookmarkUpdate, BookmarkApi: each operation refines the operation on the
    tree; an insertion or a deletion that fails changes nothing (locale \<^verbatim>\<open>tx_operation\<close>).
  \<^item> BookmarkHistory: the invariant over every history of calls on a fresh database. BookmarkLive: a folder moved
    below itself makes the update run forever, and an update that fails half-way is
    committed. BookmarkDemo: concrete databases for these theorems.

  \<^bold>\<open>Not modelled.\<close>
  \<^item> \<^verbatim>\<open>fxa-client\<close>, \<^verbatim>\<open>push\<close>: mostly calls of HTTP services and of cryptographic libraries on JSON documents.
  \<^item> \<^verbatim>\<open>places\<close>: whole bookmark trees (\<^verbatim>\<open>fetch_tree\<close>, \<^verbatim>\<open>insert_tree\<close>), bookmark and history sync (\<^verbatim>\<open>dogear\<close> decides the
    merge), history and its frecency (computed in single-precision floats), autocomplete and match
    functions, tags, origins, the schema upgrades.
  \<^item> \<^verbatim>\<open>support/ffi\<close>: reading C strings, \<^verbatim>\<open>ByteBuffer\<close> and freeing: raw memory. The C entry points of each
    component compose a handle map call with an operation, and both are modelled.
  \<^item> \<^verbatim>\<open>rc_log\<close>, \<^verbatim>\<open>rc_crypto\<close>, \<^verbatim>\<open>support/cli\<close>, telemetry, the backends of \<^verbatim>\<open>viaduct\<close>, statement caching and query
    plans: output, wrappers of libraries, or text that nothing reads.
\<close>

end
